(* ===== verification/Nova_Prelude.thy ===== *)
theory Nova_Prelude
  imports Main "HOL-Library.Word" "HOL-Library.Tree"
begin

text \<open>
  Shared vocabulary of the development: the machine integers of the C sources, the error
  codes, lists of block ranges and the sets of blocks they stand for, and successor and
  predecessor in a list (the order in which the kernel walks a red-black tree).

  A C \<^verbatim>\<open>unsigned long\<close> is a \<^typ>\<open>nat\<close> below \<open>2 ^ 64\<close>; every addition or subtraction
  that can wrap is written with \<open>u64_add\<close> and \<open>u64_sub\<close>, which wrap as C does.
  Bytes and checksums are \<open>8 word\<close> and \<open>32 word\<close>.
\<close>

unbundle bit_operations_syntax

named_theorems u64_simps \<open>wrap-around operations whose arguments stay in range\<close>
named_theorems range_simps \<open>sorted lists of disjoint ranges and their blocks\<close>

type_synonym u8 = "8 word"
type_synonym u32 = "32 word"
type_synonym u64w = "64 word"
type_synonym ptr = nat
type_synonym blk_range = "nat \<times> nat"

subsection \<open>Error codes\<close>

text \<open>
  The negative error codes the modelled functions return. \<open>EOOPS\<close> stands for a kernel
  \<^verbatim>\<open>BUG()\<close> or for an access outside an array, after which the C code has no result.
\<close>

datatype errno = EINVAL | ENOMEM | EIO | ENOSPC | EFAULT | EACCES | ESTALE | EOOPS

type_synonym 'a res = "errno + 'a"

subsection \<open>Unsigned 64-bit arithmetic\<close>

definition u64_add :: "nat \<Rightarrow> nat \<Rightarrow> nat" where
  "u64_add a b = (a + b) mod 2 ^ 64"

definition u64_sub :: "nat \<Rightarrow> nat \<Rightarrow> nat" where
  "u64_sub a b = (a + (2 ^ 64 - b mod 2 ^ 64)) mod 2 ^ 64"

definition u64_mul :: "nat \<Rightarrow> nat \<Rightarrow> nat" where
  "u64_mul a b = (a * b) mod 2 ^ 64"

definition u32_trunc :: "nat \<Rightarrow> nat" where
  "u32_trunc a = a mod 2 ^ 32"

text \<open>The value of a 32-bit signed \<^verbatim>\<open>int\<close> after an assignment from an unsigned long.\<close>

definition s32_of :: "nat \<Rightarrow> int" where
  "s32_of a = (let b = int (a mod 2 ^ 32) in if b < 2 ^ 31 then b else b - 2 ^ 32)"

subsection \<open>Ranges of blocks\<close>

definition ranges_ok :: "blk_range list \<Rightarrow> bool" where
  "ranges_ok rs \<longleftrightarrow> list_all (\<lambda>r. fst r \<le> snd r) rs \<and> sorted_wrt (\<lambda>a b. snd a < fst b) rs"

definition blocks_of :: "blk_range list \<Rightarrow> nat set" where
  "blocks_of rs = (\<Union>r \<in> set rs. {fst r..snd r})"

definition range_size :: "blk_range \<Rightarrow> nat" where
  "range_size r = Suc (snd r) - fst r"

definition total_size :: "blk_range list \<Rightarrow> nat" where
  "total_size rs = sum_list (map range_size rs)"

subsection \<open>Neighbours in a list\<close>

fun next_in :: "'a \<Rightarrow> 'a list \<Rightarrow> 'a option" where
  "next_in p (x # y # zs) = (if x = p then Some y else next_in p (y # zs))"
| "next_in p _ = None"

definition prev_in :: "'a \<Rightarrow> 'a list \<Rightarrow> 'a option" where
  "prev_in p xs = next_in p (rev xs)"

definition hd_option :: "'a list \<Rightarrow> 'a option" where
  "hd_option xs = (case xs of [] \<Rightarrow> None | x # _ \<Rightarrow> Some x)"

definition last_option :: "'a list \<Rightarrow> 'a option" where
  "last_option xs = hd_option (rev xs)"

subsection \<open>Lemmas: wrap-around arithmetic\<close>

lemma u64_add_exact [simp, u64_simps]: "a + b < 2 ^ 64 \<Longrightarrow> u64_add a b = a + b"
  by (simp add: u64_add_def)

lemma u64_sub_exact [simp, u64_simps]: "b \<le> a \<Longrightarrow> a < 2 ^ 64 \<Longrightarrow> u64_sub a b = a - b"
proof -
  assume *: "b \<le> a" "a < 2 ^ 64"
  have "(a + (2 ^ 64 - b)) mod 2 ^ 64 = (a - b + 2 ^ 64) mod (2 ^ 64 :: nat)"
    using * by (intro arg_cong2 [where f = "(mod)"]) auto
  also have "\<dots> = a - b"
    using * by (simp only: mod_add_self2) simp
  finally show ?thesis
    using * by (simp add: u64_sub_def)
qed

lemma u64_sub_wrap: "a < b \<Longrightarrow> b < 2 ^ 64 \<Longrightarrow> u64_sub a b = 2 ^ 64 - (b - a)"
  by (simp add: u64_sub_def)

lemma u64_mul_exact [simp, u64_simps]: "a * b < 2 ^ 64 \<Longrightarrow> u64_mul a b = a * b"
  by (simp add: u64_mul_def)

lemma u32_trunc_exact [simp, u64_simps]: "a < 2 ^ 32 \<Longrightarrow> u32_trunc a = a"
  by (simp add: u32_trunc_def)

lemma s32_of_exact [simp]: "a < 2 ^ 31 \<Longrightarrow> s32_of a = int a"
  by (simp add: s32_of_def)

lemma and_mask_mod: "(a::nat) AND (2 ^ n - 1) = a mod 2 ^ n"
  by (simp only: take_bit_eq_mod [symmetric] take_bit_eq_mask mask_eq_exp_minus_1)

lemma and_511 [simp]: "(a::nat) AND 511 = a mod 512"
  using and_mask_mod [of a 9] by simp

lemma and_4095 [simp]: "(a::nat) AND 4095 = a mod 4096"
  using and_mask_mod [of a 12] by simp

lemma and_63 [simp]: "(a::nat) AND 63 = a mod 64"
  using and_mask_mod [of a 6] by simp

lemma and_7 [simp]: "(a::nat) AND 7 = a mod 8"
  using and_mask_mod [of a 3] by simp

subsection \<open>Lemmas: ranges\<close>

lemma ranges_ok_Nil [simp, range_simps]: "ranges_ok []"
  by (simp add: ranges_ok_def)

lemma ranges_ok_Cons [range_simps]:
  "ranges_ok (r # rs) \<longleftrightarrow> fst r \<le> snd r \<and> (\<forall>s \<in> set rs. snd r < fst s) \<and> ranges_ok rs"
  by (auto simp: ranges_ok_def)

lemma ranges_ok_append [range_simps]:
  "ranges_ok (xs @ ys) \<longleftrightarrow>
     ranges_ok xs \<and> ranges_ok ys \<and> (\<forall>a \<in> set xs. \<forall>b \<in> set ys. snd a < fst b)"
  by (auto simp: ranges_ok_def sorted_wrt_append)

lemma ranges_ok_le: "ranges_ok rs \<Longrightarrow> r \<in> set rs \<Longrightarrow> fst r \<le> snd r"
  by (auto simp: ranges_ok_def list_all_iff)

lemma blocks_of_Nil [simp, range_simps]: "blocks_of [] = {}"
  by (simp add: blocks_of_def)

lemma blocks_of_Cons [range_simps]: "blocks_of (r # rs) = {fst r..snd r} \<union> blocks_of rs"
  by (simp add: blocks_of_def)

lemma blocks_of_append [range_simps]: "blocks_of (xs @ ys) = blocks_of xs \<union> blocks_of ys"
  by (simp add: blocks_of_def)

lemma finite_blocks_of [simp]: "finite (blocks_of rs)"
  by (simp add: blocks_of_def)

lemma in_blocks_of: "b \<in> blocks_of rs \<longleftrightarrow> (\<exists>r \<in> set rs. fst r \<le> b \<and> b \<le> snd r)"
  by (auto simp: blocks_of_def)

lemma in_blocks_of_map:
  "b \<in> blocks_of (map f ps) \<longleftrightarrow> (\<exists>p \<in> set ps. fst (f p) \<le> b \<and> b \<le> snd (f p))"
  by (auto simp: blocks_of_def)

lemma total_size_Nil [simp, range_simps]: "total_size [] = 0"
  by (simp add: total_size_def)

lemma total_size_Cons [range_simps]: "total_size (r # rs) = range_size r + total_size rs"
  by (simp add: total_size_def)

lemma total_size_append [range_simps]: "total_size (xs @ ys) = total_size xs + total_size ys"
  by (simp add: total_size_def)

lemma card_blocks_of: "ranges_ok rs \<Longrightarrow> card (blocks_of rs) = total_size rs"
proof (induction rs)
  case Nil
  then show ?case by simp
next
  case (Cons r rs)
  have "{fst r..snd r} \<inter> blocks_of rs = {}"
    using Cons.prems by (force simp: ranges_ok_Cons in_blocks_of)
  then show ?case
    using Cons by (simp add: ranges_ok_Cons blocks_of_Cons total_size_Cons range_size_def
        card_Un_disjoint)
qed

lemma range_size_le_total: "r \<in> set rs \<Longrightarrow> range_size r \<le> total_size rs"
  by (induction rs) (auto simp: total_size_Cons)

lemma length_le_total: "ranges_ok rs \<Longrightarrow> length rs \<le> total_size rs"
  by (induction rs) (auto simp: range_simps range_size_def)

lemma sum_list_le_mult: "(\<And>x. x \<in> set xs \<Longrightarrow> f x \<le> k) \<Longrightarrow> sum_list (map f xs) \<le> length xs * (k :: nat)"
  by (induction xs) (auto intro: add_mono)

subsection \<open>Lemmas: neighbours\<close>

lemma next_in_append:
  "p \<notin> set xs \<Longrightarrow> next_in p (xs @ p # ys) = hd_option ys"
proof (induction xs)
  case Nil
  then show ?case by (cases ys) (simp_all add: hd_option_def)
next
  case (Cons x xs)
  then show ?case by (cases xs) auto
qed

lemma prev_in_append:
  "p \<notin> set ys \<Longrightarrow> prev_in p (xs @ p # ys) = last_option xs"
  by (simp add: prev_in_def next_in_append last_option_def)

lemma hd_option_simps [simp]:
  "hd_option [] = None" "hd_option (x # xs) = Some x"
  by (simp_all add: hd_option_def)

lemma hd_option_eq_None [simp]: "hd_option xs = None \<longleftrightarrow> xs = []"
  by (cases xs) simp_all

lemma last_option_simps [simp]:
  "last_option [] = None" "last_option (xs @ [x]) = Some x"
  by (simp_all add: last_option_def)

lemma last_option_eq_None [simp]: "last_option xs = None \<longleftrightarrow> xs = []"
  by (cases xs rule: rev_cases) simp_all

lemma last_option_conv: "last_option xs = (if xs = [] then None else Some (last xs))"
  by (cases xs rule: rev_cases) simp_all

lemma hd_option_conv: "hd_option xs = (if xs = [] then None else Some (hd xs))"
  by (cases xs) simp_all

lemma hd_option_Some: "hd_option xs = Some x \<longleftrightarrow> (\<exists>ys. xs = x # ys)"
  by (cases xs) auto

lemma last_option_Some: "last_option xs = Some x \<longleftrightarrow> (\<exists>ys. xs = ys @ [x])"
  by (cases xs rule: rev_cases) auto

lemma end_options:
  "hd_option (xs @ ys) = (if xs = [] then hd_option ys else hd_option xs)"
  "last_option (xs @ ys) = (if ys = [] then last_option xs else last_option ys)"
  "last_option (x # xs) = (if xs = [] then Some x else last_option xs)"
  by (simp_all add: hd_option_conv last_option_conv)

lemma hd_option_in: "hd_option xs = Some x \<Longrightarrow> x \<in> set xs"
  by (cases xs) auto

lemma last_option_in: "last_option xs = Some x \<Longrightarrow> x \<in> set xs"
  by (cases xs rule: rev_cases) auto

end
