(* ===== verification/Nova_Crc.thy ===== *)
theory Nova_Crc
  imports Nova_Prelude
begin

text \<open>
  The CRC-32C checksum of \<^verbatim>\<open>nova.h\<close> (\<open>nova_crc32c\<close>, \<open>nova_crc32c_qword\<close>): a loop that
  feeds eight bytes at a time to the \<^verbatim>\<open>crc32q\<close> instruction while more than eight bytes are
  left and single bytes to \<^verbatim>\<open>crc32b\<close> afterwards. The instructions follow the reflected
  polynomial of the x86 manual; the loop is proved equal to the byte-wise checksum, and so
  is the quad-word instruction to eight byte instructions.
\<close>

subsection \<open>The instructions\<close>

definition crc_poly :: "'a::len word" where
  "crc_poly = 0x82F63B78"

definition crc_bit :: "'a::len word \<Rightarrow> 'a word" where
  "crc_bit r = (if bit r 0 then drop_bit 1 r XOR crc_poly else drop_bit 1 r)"

definition crc32b :: "u64w \<Rightarrow> u8 \<Rightarrow> u64w" where
  "crc32b acc b = (crc_bit ^^ 8) (ucast (ucast acc :: u32) XOR ucast b)"

definition crc32q :: "u64w \<Rightarrow> u64w \<Rightarrow> u64w" where
  "crc32q acc q = (crc_bit ^^ 64) (ucast (ucast acc :: u32) XOR q)"

text \<open>Eight bytes of memory as the little-endian quad word the instruction loads.\<close>

fun le_word :: "u8 list \<Rightarrow> u64w" where
  "le_word [] = 0"
| "le_word (b # bs) = ucast b OR push_bit 8 (le_word bs)"

subsection \<open>nova\_crc32c\<close>

fun crc_bytes :: "u64w \<Rightarrow> u8 list \<Rightarrow> u64w" where
  "crc_bytes acc [] = acc"
| "crc_bytes acc (b # bs) = crc_bytes (crc32b acc b) bs"

function crc_loop :: "u64w \<Rightarrow> u8 list \<Rightarrow> u64w" where
  "crc_loop acc data =
     (if 8 < length data then crc_loop (crc32q acc (le_word (take 8 data))) (drop 8 data)
      else crc_bytes acc data)"
  by pat_completeness auto
termination
  by (relation "measure (\<lambda>(acc, data). length data)") auto

definition nova_crc32c :: "bool \<Rightarrow> (u32 \<Rightarrow> u8 list \<Rightarrow> u32) \<Rightarrow> u32 \<Rightarrow> u8 list \<Rightarrow> u32" where
  "nova_crc32c xmm4_2 crc32c crc data =
     (if xmm4_2 then ucast (crc_loop (ucast crc) data) else crc32c crc data)"

text \<open>The reference: one bit step for every bit of the data, byte after byte, on 32 bits.\<close>

definition crc32c_byte :: "u32 \<Rightarrow> u8 \<Rightarrow> u32" where
  "crc32c_byte crc b = (crc_bit ^^ 8) (crc XOR ucast b)"

definition crc32c_ref :: "u32 \<Rightarrow> u8 list \<Rightarrow> u32" where
  "crc32c_ref crc data = foldl crc32c_byte crc data"

declare crc_loop.simps [simp del]

subsection \<open>Lemmas\<close>

lemma bit_crc_poly: "bit (crc_poly :: u64w) i \<longleftrightarrow> i < 32 \<and> bit (crc_poly :: u32) i"
proof -
  have "(crc_poly :: u64w) = ucast (crc_poly :: u32)"
    by (simp add: crc_poly_def)
  then have "bit (crc_poly :: u64w) i \<longleftrightarrow> bit (ucast (crc_poly :: u32) :: u64w) i"
    by (rule arg_cong)
  also have "\<dots> \<longleftrightarrow> i < 32 \<and> bit (crc_poly :: u32) i"
    using bit_imp_le_length [of "crc_poly :: u32" i] by (auto simp: bit_ucast_iff)
  finally show ?thesis .
qed

lemma bit_u32_bound: "bit (x :: u32) n \<Longrightarrow> n < 32"
  using bit_imp_le_length [of x n] by simp

lemma bit_u8_bound: "bit (x :: u8) n \<Longrightarrow> n < 8"
  using bit_imp_le_length [of x n] by simp

text \<open>Bits that the step does not look at are only shifted.\<close>

lemma crc_bit_xor:
  fixes a z :: "'a::len word"
  assumes "\<not> bit z 0"
  shows "crc_bit (a XOR z) = crc_bit a XOR drop_bit 1 z"
  using assms by (auto simp: crc_bit_def bit_xor_iff drop_bit_xor ac_simps)

lemma crc_bits_xor:
  fixes a z :: "'a::len word"
  assumes "\<And>i. i < n \<Longrightarrow> \<not> bit z i"
  shows "(crc_bit ^^ n) (a XOR z) = (crc_bit ^^ n) a XOR drop_bit n z"
  using assms
proof (induction n)
  case 0
  then show ?case by simp
next
  case (Suc n)
  then have IH: "(crc_bit ^^ n) (a XOR z) = (crc_bit ^^ n) a XOR drop_bit n z" by simp
  have "\<not> bit (drop_bit n z) 0"
    using Suc.prems [of n] by (simp add: bit_drop_bit_eq)
  then show ?case
    using IH by (simp add: crc_bit_xor)
qed

lemma crc_bit_ucast: "crc_bit (ucast (x :: u32) :: u64w) = ucast (crc_bit x)"
  by (rule bit_word_eqI) (auto simp: crc_bit_def bit_simps bit_crc_poly dest: bit_u32_bound)

lemma crc_bits_ucast: "(crc_bit ^^ n) (ucast (x :: u32) :: u64w) = ucast ((crc_bit ^^ n) x)"
  by (induction n) (simp_all add: crc_bit_ucast)

lemma ucast_xor_u32: "(ucast (x :: u32) :: u64w) XOR ucast (b :: u8) = ucast (x XOR ucast b)"
  by (rule bit_word_eqI) (auto simp: bit_simps dest: bit_u32_bound bit_u8_bound)

lemma crc32b_byte: "crc32b acc b = ucast (crc32c_byte (ucast acc) b)"
  by (simp add: crc32b_def crc32c_byte_def ucast_xor_u32 crc_bits_ucast)

lemma ucast_ucast_u32: "(ucast (ucast (x :: u32) :: u64w) :: u32) = x"
  by (rule bit_word_eqI) (auto simp: bit_simps)

lemma crc_bytes_ref: "ucast (crc_bytes (ucast crc) data) = crc32c_ref crc data"
  by (induction data arbitrary: crc)
    (simp_all add: crc32c_ref_def crc32b_byte ucast_ucast_u32)

lemma crc_bytes_eq:
  "data \<noteq> [] \<Longrightarrow> crc_bytes acc data = ucast (crc32c_ref (ucast acc) data)"
proof (induction data arbitrary: acc)
  case Nil
  then show ?case by simp
next
  case (Cons b bs)
  then show ?case
    by (cases "bs = []") (simp_all add: crc32c_ref_def crc32b_byte ucast_ucast_u32)
qed

lemma bit_le_word_small: "bit (le_word bs) i \<Longrightarrow> i < 8 * length bs"
proof (induction bs arbitrary: i)
  case Nil
  then show ?case by simp
next
  case (Cons b bs)
  from Cons.prems consider "bit b i" | "8 \<le> i" "bit (le_word bs) (i - 8)"
    by (auto simp: bit_simps)
  then show ?case
  proof cases
    case 1
    then have "i < 8" using bit_imp_le_length by fastforce
    then show ?thesis by simp
  next
    case 2
    with Cons.IH show ?thesis by fastforce
  qed
qed

lemma crc_word_bytes:
  assumes "length bs \<le> 8"
  shows "(crc_bit ^^ (8 * length bs)) (ucast (x :: u32) XOR le_word bs) =
           ucast (crc32c_ref x bs)"
  using assms
proof (induction bs arbitrary: x)
  case Nil
  then show ?case by (simp add: crc32c_ref_def)
next
  case (Cons b bs)
  let ?q = "le_word bs" and ?y = "crc32c_byte x b"
  have small: "bit ?q i \<Longrightarrow> i < 56" for i
    using bit_le_word_small [of bs i] Cons.prems by simp
  have or_xor: "ucast b OR push_bit 8 ?q = ucast b XOR push_bit 8 ?q"
    by (rule bit_word_eqI) (auto simp: bit_simps dest: bit_imp_le_length)
  have shift_back: "drop_bit 8 (push_bit 8 ?q) = ?q"
    by (rule bit_word_eqI) (auto simp: bit_simps dest: small)
  have "(crc_bit ^^ 8) (ucast x XOR (ucast b XOR push_bit 8 ?q)) =
          (crc_bit ^^ 8) (ucast x XOR ucast b) XOR drop_bit 8 (push_bit 8 ?q)"
    using crc_bits_xor [of 8 "push_bit 8 ?q" "ucast x XOR ucast b"]
    by (simp add: bit_simps xor.assoc)
  also have "\<dots> = ucast ?y XOR ?q"
    by (simp add: ucast_xor_u32 crc_bits_ucast crc32c_byte_def shift_back)
  finally have step: "(crc_bit ^^ 8) (ucast x XOR le_word (b # bs)) = ucast ?y XOR ?q"
    by (simp add: or_xor)
  have "(crc_bit ^^ (8 * length bs + 8)) (ucast x XOR le_word (b # bs)) =
          (crc_bit ^^ (8 * length bs)) ((crc_bit ^^ 8) (ucast x XOR le_word (b # bs)))"
    by (simp only: funpow_add comp_apply)
  also have "\<dots> = ucast (crc32c_ref ?y bs)"
    using Cons by (simp only: step) simp
  also have "\<dots> = ucast (crc32c_ref x (b # bs))"
    by (simp add: crc32c_ref_def)
  finally show ?case by (simp add: add.commute)
qed

lemma crc32q_bytes:
  "length bs = 8 \<Longrightarrow> crc32q acc (le_word bs) = ucast (crc32c_ref (ucast acc) bs)"
  using crc_word_bytes [of bs "ucast acc"] by (simp add: crc32q_def)

lemma crc32c_ref_append:
  "crc32c_ref crc (xs @ ys) = crc32c_ref (crc32c_ref crc xs) ys"
  by (simp add: crc32c_ref_def)

lemma crc_loop_ref: "ucast (crc_loop acc data) = crc32c_ref (ucast acc) data"
proof (induction acc data rule: crc_loop.induct)
  case (1 acc data)
  show ?case
  proof (cases "8 < length data")
    case True
    then have "ucast (crc_loop acc data) =
        crc32c_ref (ucast (crc32q acc (le_word (take 8 data)))) (drop 8 data)"
      using "1.IH" by (simp add: crc_loop.simps [of acc data])
    also have "\<dots> = crc32c_ref (crc32c_ref (ucast acc) (take 8 data)) (drop 8 data)"
      using True by (simp add: crc32q_bytes ucast_ucast_u32)
    finally show ?thesis
      by (simp flip: crc32c_ref_append)
  next
    case False
    then have "crc_loop acc data = crc_bytes acc data"
      by (simp add: crc_loop.simps [of acc data])
    then show ?thesis
      by (cases "data = []") (simp_all add: crc_bytes_eq ucast_ucast_u32 crc32c_ref_def)
  qed
qed

text \<open>The checksum does not depend on which of the two implementations is taken.\<close>

lemma nova_crc32c_is_ref:
  assumes "\<And>crc data. \<not> x \<Longrightarrow> lib crc data = crc32c_ref crc data"
  shows "nova_crc32c x lib crc data = crc32c_ref crc data"
  using assms by (simp add: nova_crc32c_def crc_loop_ref ucast_ucast_u32)

text \<open>
  C6: the loop over the \<^verbatim>\<open>crc32q\<close> and \<^verbatim>\<open>crc32b\<close> instructions computes the CRC-32C of the bytes,
  for every seed and every length: it is the bitwise reference definition.
\<close>

theorem crc32c_hardware_is_reference: "nova_crc32c True lib crc data = crc32c_ref crc data"
  by (rule nova_crc32c_is_ref) simp

end
