(* ===== verification/Range_Tree.thy ===== *)
theory Range_Tree
  imports Nova_Crc
begin

text \<open>
  The range trees of \<^verbatim>\<open>balloc.c\<close>: red-black trees whose nodes (\<^verbatim>\<open>struct nova_range_node\<close> of
  \<^verbatim>\<open>nova.h\<close>) are ranges of blocks or of inode numbers, or hashed directory entries. A tree is
  a tree of node addresses; the nodes themselves live in the slab cache the module allocates
  them from, so that updates through any pointer to a node are seen by every other.

  The search and the insertion descend the tree as the C loops do. The kernel's rebalancing
  (\<^verbatim>\<open>rb_insert_color\<close>, \<^verbatim>\<open>rb_erase\<close>), its allocator and its \<^verbatim>\<open>crc32c\<close> are parameters, the
  fields of \<open>nova_env\<close>; what is assumed of them is \<open>rb_lib_ok\<close>, \<open>kmem_ok\<close> and \<open>crc_lib_ok\<close>.
\<close>

subsection \<open>The environment: kernel library and module parameters\<close>

text \<open>
  The events that reach persistent memory. Whether the media reports an error when a byte is
  read (\<open>media_ok\<close>) depends on what was written before, newest event first; \<open>- mcsafe_rc\<close> is the
  error code of \<^verbatim>\<open>memcpy_mcsafe\<close>. Whether \<^verbatim>\<open>kmalloc\<close> finds memory may depend on the moment and on
  the size.
\<close>

datatype pm_event =
    Store nat "u8 list"
  | NtStore nat "u8 list"
  | Clwb nat
  | Clflush nat
  | Sfence

record nova_env =
  rb_insert_color :: "ptr \<Rightarrow> ptr tree \<Rightarrow> ptr tree"
  rb_erase :: "ptr \<Rightarrow> ptr tree \<Rightarrow> ptr tree"
  kmem_zalloc :: "nat \<Rightarrow> ptr set \<Rightarrow> ptr option"
  crc32c :: "u32 \<Rightarrow> u8 list \<Rightarrow> u32"
  xmm2 :: bool
  xmm4_2 :: bool
  support_clwb :: bool
  dram_struct_csum :: bool
  metadata_csum :: bool
  unsafe_metadata :: bool
  data_csum :: bool
  data_parity :: bool
  media_ok :: "pm_event list \<Rightarrow> nat \<Rightarrow> bool"
  mcsafe_rc :: nat
  kmalloc_ok :: "pm_event list \<Rightarrow> nat \<Rightarrow> bool"

text \<open>
  What the kernel documents: rebalancing keeps the order of the nodes, erasing removes one
  node and keeps the order of the others, and the slab allocator returns no live object and
  not the null pointer. The first argument of the allocator counts the requests made so far.
\<close>

definition rb_lib_ok :: "nova_env \<Rightarrow> bool" where
  "rb_lib_ok E \<longleftrightarrow>
     (\<forall>p t. inorder (rb_insert_color E p t) = inorder t) \<and>
     (\<forall>p t. distinct (inorder t) \<longrightarrow> p \<in> set_tree t \<longrightarrow>
        inorder (rb_erase E p t) = remove1 p (inorder t))"

definition kmem_ok :: "nova_env \<Rightarrow> bool" where
  "kmem_ok E \<longleftrightarrow> (\<forall>n S p. kmem_zalloc E n S = Some p \<longrightarrow> p \<notin> S \<and> p \<noteq> 0)"

definition crc_lib_ok :: "nova_env \<Rightarrow> bool" where
  "crc_lib_ok E \<longleftrightarrow> (\<forall>crc data. crc32c E crc data = crc32c_ref crc data)"

definition env_crc :: "nova_env \<Rightarrow> u32 \<Rightarrow> u8 list \<Rightarrow> u32" where
  "env_crc E crc data = nova_crc32c (xmm4_2 E) (crc32c E) crc data"

subsection \<open>Range nodes and the slab cache\<close>

text \<open>
  The two members of the union share storage: \<open>range_low\<close> is also the \<^verbatim>\<open>hash\<close> of a directory
  node and \<open>range_high\<close> its \<^verbatim>\<open>direntry\<close> pointer.
\<close>

record range_node =
  vma :: nat
  mmap_entry :: nat
  range_low :: nat
  range_high :: nat
  node_csum :: u32

record slab =
  node_of :: "ptr \<Rightarrow> range_node"
  live :: "ptr set"
  requests :: nat

definition zero_node :: range_node where
  "zero_node = \<lparr>vma = 0, mmap_entry = 0, range_low = 0, range_high = 0, node_csum = 0\<rparr>"

definition nova_alloc_range_node :: "nova_env \<Rightarrow> slab \<Rightarrow> slab \<times> ptr option" where
  "nova_alloc_range_node E s =
     (let s' = s\<lparr>requests := Suc (requests s)\<rparr> in
      case kmem_zalloc E (requests s) (live s) of
        None \<Rightarrow> (s', None)
      | Some p \<Rightarrow>
          (s'\<lparr>node_of := (node_of s)(p := zero_node), live := insert p (live s)\<rparr>, Some p))"

definition nova_free_range_node :: "slab \<Rightarrow> ptr \<Rightarrow> slab" where
  "nova_free_range_node s p = s\<lparr>live := live s - {p}\<rparr>"

definition set_low :: "ptr \<Rightarrow> nat \<Rightarrow> slab \<Rightarrow> slab" where
  "set_low p v s = s\<lparr>node_of := (node_of s)(p := (node_of s p)\<lparr>range_low := v\<rparr>)\<rparr>"

definition set_high :: "ptr \<Rightarrow> nat \<Rightarrow> slab \<Rightarrow> slab" where
  "set_high p v s = s\<lparr>node_of := (node_of s)(p := (node_of s p)\<lparr>range_high := v\<rparr>)\<rparr>"

text \<open>The 32 bytes from \<^verbatim>\<open>vma\<close> up to \<^verbatim>\<open>csum\<close>, as the checksum reads them.\<close>

fun le_bytes :: "nat \<Rightarrow> nat \<Rightarrow> u8 list" where
  "le_bytes 0 v = []"
| "le_bytes (Suc n) v = of_nat v # le_bytes n (v div 256)"

definition nova_calculate_range_node_csum :: "nova_env \<Rightarrow> range_node \<Rightarrow> u32" where
  "nova_calculate_range_node_csum E n =
     env_crc E (NOT 0)
       (le_bytes 8 (vma n) @ le_bytes 8 (mmap_entry n) @
        le_bytes 8 (range_low n) @ le_bytes 8 (range_high n))"

definition nova_update_range_node_checksum :: "nova_env \<Rightarrow> ptr \<Rightarrow> slab \<Rightarrow> slab" where
  "nova_update_range_node_checksum E p s =
     (if dram_struct_csum E
      then s\<lparr>node_of := (node_of s)(p :=
             (node_of s p)\<lparr>node_csum := nova_calculate_range_node_csum E (node_of s p)\<rparr>)\<rparr>
      else s)"

definition nova_range_node_checksum_ok :: "nova_env \<Rightarrow> range_node \<Rightarrow> bool" where
  "nova_range_node_checksum_ok E n \<longleftrightarrow>
     (if \<not> dram_struct_csum E then True
      else node_csum n = nova_calculate_range_node_csum E n)"

subsection \<open>Walking a tree\<close>

definition rb_first :: "ptr tree \<Rightarrow> ptr option" where
  "rb_first t = hd_option (inorder t)"

definition rb_next :: "ptr \<Rightarrow> ptr tree \<Rightarrow> ptr option" where
  "rb_next p t = next_in p (inorder t)"

definition rb_prev :: "ptr \<Rightarrow> ptr tree \<Rightarrow> ptr option" where
  "rb_prev p t = prev_in p (inorder t)"

subsection \<open>Search, insertion and destruction\<close>

datatype node_type = NODE_BLOCK | NODE_INODE | NODE_DIR

definition nova_rbtree_compare_rangenode :: "range_node \<Rightarrow> nat \<Rightarrow> node_type \<Rightarrow> int" where
  "nova_rbtree_compare_rangenode cur key type =
     (if type = NODE_DIR then
        (if key < range_low cur then -1
         else if key > range_low cur then 1
         else 0)
      else if key < range_low cur then -1
      else if key > range_high cur then 1
      else 0)"

text \<open>The descent of \<open>nova_find_range_node\<close>: whether the key was met and the last node seen.\<close>

fun find_descend ::
    "slab \<Rightarrow> nat \<Rightarrow> node_type \<Rightarrow> ptr tree \<Rightarrow> ptr option \<Rightarrow> bool \<times> ptr option" where
  "find_descend s key type Leaf cur = (False, cur)"
| "find_descend s key type (Node l p r) cur =
     (let compVal = nova_rbtree_compare_rangenode (node_of s p) key type in
      if compVal = -1 then find_descend s key type l (Some p)
      else if compVal = 1 then find_descend s key type r (Some p)
      else (True, Some p))"

definition nova_find_range_node ::
    "nova_env \<Rightarrow> slab \<Rightarrow> ptr tree \<Rightarrow> nat \<Rightarrow> node_type \<Rightarrow> ptr option \<Rightarrow> bool \<times> ptr option" where
  "nova_find_range_node E s t key type ret_node =
     (case find_descend s key type t None of
        (ret, None) \<Rightarrow> (ret, None)
      | (ret, Some cur) \<Rightarrow>
          if \<not> nova_range_node_checksum_ok E (node_of s cur) then (False, ret_node)
          else (ret, Some cur))"

text \<open>The descent of \<open>nova_insert_range_node\<close> and \<^verbatim>\<open>rb_link_node\<close> at the empty place it ends in.\<close>

fun rb_link :: "slab \<Rightarrow> node_type \<Rightarrow> ptr \<Rightarrow> ptr tree \<Rightarrow> ptr tree option" where
  "rb_link s type new Leaf = Some (Node Leaf new Leaf)"
| "rb_link s type new (Node l p r) =
     (let compVal =
        nova_rbtree_compare_rangenode (node_of s p) (range_low (node_of s new)) type in
      if compVal = -1 then map_option (\<lambda>l'. Node l' p r) (rb_link s type new l)
      else if compVal = 1 then map_option (\<lambda>r'. Node l p r') (rb_link s type new r)
      else None)"

definition nova_insert_range_node ::
    "nova_env \<Rightarrow> slab \<Rightarrow> ptr tree \<Rightarrow> ptr \<Rightarrow> node_type \<Rightarrow> ptr tree res" where
  "nova_insert_range_node E s t new type =
     (case rb_link s type new t of
        None \<Rightarrow> Inl EINVAL
      | Some t' \<Rightarrow> Inr (rb_insert_color E new t'))"

definition nova_insert_blocktree :: "nova_env \<Rightarrow> slab \<Rightarrow> ptr tree \<Rightarrow> ptr \<Rightarrow> ptr tree res" where
  "nova_insert_blocktree E s t new = nova_insert_range_node E s t new NODE_BLOCK"

fun destroy_nodes :: "nova_env \<Rightarrow> ptr list \<Rightarrow> slab \<Rightarrow> ptr tree \<Rightarrow> slab \<times> ptr tree" where
  "destroy_nodes E [] s t = (s, t)"
| "destroy_nodes E (p # ps) s t =
     destroy_nodes E ps (nova_free_range_node s p) (rb_erase E p t)"

definition nova_destroy_range_node_tree :: "nova_env \<Rightarrow> slab \<Rightarrow> ptr tree \<Rightarrow> slab \<times> ptr tree" where
  "nova_destroy_range_node_tree E s t = destroy_nodes E (inorder t) s t"

text \<open>
  \<open>nova_find_free_slot\<close>: the neighbours of a range that is about to be inserted. The last
  node of the search is the predecessor or the successor, whichever the shape of the tree
  leads to; the other neighbour comes from \<open>rb_next\<close> or \<open>rb_prev\<close>.
\<close>

definition nova_find_free_slot ::
    "nova_env \<Rightarrow> slab \<Rightarrow> ptr tree \<Rightarrow> nat \<Rightarrow> nat \<Rightarrow> (ptr option \<times> ptr option) res" where
  "nova_find_free_slot E s t low high =
     (let (ret, ret_node) = nova_find_range_node E s t low NODE_BLOCK None in
      if ret then Inl EINVAL
      else case ret_node of
        None \<Rightarrow> Inr (None, None)
      | Some r \<Rightarrow>
          if range_high (node_of s r) < low then
            (case rb_next r t of
               None \<Rightarrow> Inr (Some r, None)
             | Some n \<Rightarrow>
                 if \<not> nova_range_node_checksum_ok E (node_of s n) then Inl EIO
                 else Inr (Some r, Some n))
          else if range_low (node_of s r) > high then
            (case rb_prev r t of
               None \<Rightarrow> Inr (None, Some r)
             | Some p \<Rightarrow>
                 if \<not> nova_range_node_checksum_ok E (node_of s p) then Inl EIO
                 else Inr (Some p, Some r))
          else Inl EINVAL)"

subsection \<open>The abstraction: nodes as ranges\<close>

definition span :: "slab \<Rightarrow> ptr \<Rightarrow> blk_range" where
  "span s p = (range_low (node_of s p), range_high (node_of s p))"

definition key_span :: "node_type \<Rightarrow> slab \<Rightarrow> ptr \<Rightarrow> blk_range" where
  "key_span type s p =
     (range_low (node_of s p),
      if type = NODE_DIR then range_low (node_of s p) else range_high (node_of s p))"

definition node_ok :: "nova_env \<Rightarrow> slab \<Rightarrow> ptr \<Rightarrow> bool" where
  "node_ok E s p = nova_range_node_checksum_ok E (node_of s p)"

text \<open>
  The invariant of a range tree, stated of its nodes in order: the nodes are distinct live
  objects with valid checksums, and their ranges are disjoint and increasing.
\<close>

definition nodes_inv :: "nova_env \<Rightarrow> slab \<Rightarrow> ptr list \<Rightarrow> bool" where
  "nodes_inv E s ps \<longleftrightarrow>
     distinct ps \<and> set ps \<subseteq> live s \<and> ranges_ok (map (span s) ps) \<and>
     list_all (node_ok E s) ps"

definition tree_inv :: "nova_env \<Rightarrow> slab \<Rightarrow> ptr tree \<Rightarrow> bool" where
  "tree_inv E s t = nodes_inv E s (inorder t)"

definition tree_blocks :: "slab \<Rightarrow> ptr tree \<Rightarrow> nat set" where
  "tree_blocks s t = blocks_of (map (span s) (inorder t))"

subsection \<open>Lemmas: node updates\<close>

lemma span_set_low [simp]:
  "span (set_low p v s) q = (if q = p then (v, snd (span s p)) else span s q)"
  by (simp add: span_def set_low_def)

lemma span_set_high [simp]:
  "span (set_high p v s) q = (if q = p then (fst (span s p), v) else span s q)"
  by (simp add: span_def set_high_def)

lemma span_update_checksum [simp]:
  "span (nova_update_range_node_checksum E p s) q = span s q"
  by (simp add: span_def nova_update_range_node_checksum_def)

lemma span_free [simp]: "span (nova_free_range_node s p) q = span s q"
  by (simp add: span_def nova_free_range_node_def)

lemma span_low_high:
  "range_low (node_of s p) = fst (span s p)" "range_high (node_of s p) = snd (span s p)"
  by (simp_all add: span_def)

lemma live_simps [simp]:
  "live (set_low p v s) = live s"
  "live (set_high p v s) = live s"
  "live (nova_update_range_node_checksum E p s) = live s"
  "live (nova_free_range_node s p) = live s - {p}"
  by (simp_all add: set_low_def set_high_def nova_update_range_node_checksum_def
      nova_free_range_node_def)

lemma node_ok_simps [simp]:
  "node_ok E (nova_update_range_node_checksum E p s) q = (q = p \<or> node_ok E s q)"
  "q \<noteq> p \<Longrightarrow> node_ok E (set_low p v s) q = node_ok E s q"
  "q \<noteq> p \<Longrightarrow> node_ok E (set_high p v s) q = node_ok E s q"
  "node_ok E (nova_free_range_node s p) q = node_ok E s q"
  by (auto simp: node_ok_def nova_range_node_checksum_ok_def nova_update_range_node_checksum_def
      nova_calculate_range_node_csum_def set_low_def set_high_def nova_free_range_node_def)

lemma alloc_range_node_Some:
  assumes "kmem_ok E" "nova_alloc_range_node E s = (s', Some p)"
  shows "p \<notin> live s" "p \<noteq> 0" "live s' = insert p (live s)"
    "q \<noteq> p \<Longrightarrow> span s' q = span s q" "q \<noteq> p \<Longrightarrow> node_ok E s' q = node_ok E s q"
    "q \<noteq> p \<Longrightarrow> node_of s' q = node_of s q"
  using assms
  by (auto simp: nova_alloc_range_node_def kmem_ok_def Let_def span_def node_ok_def
      split: option.splits)

lemma alloc_range_node_None:
  assumes "nova_alloc_range_node E s = (s', None)"
  shows "live s' = live s" "span s' q = span s q" "node_ok E s' q = node_ok E s q"
    "node_of s' q = node_of s q"
  using assms
  by (auto simp: nova_alloc_range_node_def Let_def span_def node_ok_def split: option.splits)

lemma nodes_inv_simps:
  "nodes_inv E s []"
  "nodes_inv E s (p # ps) \<longleftrightarrow>
     p \<notin> set ps \<and> p \<in> live s \<and> node_ok E s p \<and> fst (span s p) \<le> snd (span s p) \<and>
     (\<forall>q \<in> set ps. snd (span s p) < fst (span s q)) \<and> nodes_inv E s ps"
  by (auto simp: nodes_inv_def ranges_ok_Cons)

lemma nodes_inv_append:
  "nodes_inv E s (xs @ ys) \<longleftrightarrow>
     nodes_inv E s xs \<and> nodes_inv E s ys \<and> set xs \<inter> set ys = {} \<and>
     (\<forall>p \<in> set xs. \<forall>q \<in> set ys. snd (span s p) < fst (span s q))"
  by (auto simp: nodes_inv_def ranges_ok_append)

text \<open>The invariant and the blocks depend only on the nodes of the tree.\<close>

lemma nodes_inv_cong:
  assumes "\<And>p. p \<in> set ps \<Longrightarrow> span s' p = span s p"
    and "\<And>p. p \<in> set ps \<Longrightarrow> node_ok E s p \<Longrightarrow> node_ok E s' p"
    and "\<And>p. p \<in> set ps \<Longrightarrow> p \<in> live s \<Longrightarrow> p \<in> live s'"
    and "nodes_inv E s ps"
  shows "nodes_inv E s' ps"
proof -
  have eq: "map (span s') ps = map (span s) ps" using assms(1) by simp
  show ?thesis
    using assms(2-4) by (auto simp: nodes_inv_def list_all_iff eq)
qed

subsection \<open>Lemmas: search and insertion\<close>

lemma compare_key_span:
  "nova_rbtree_compare_rangenode (node_of s p) key type =
     (if key < fst (key_span type s p) then -1
      else if snd (key_span type s p) < key then 1 else 0)"
  by (simp add: nova_rbtree_compare_rangenode_def key_span_def)

lemma key_span_block: "type \<noteq> NODE_DIR \<Longrightarrow> key_span type s = span s"
  by (simp add: key_span_def span_def fun_eq_iff)

text \<open>\<open>adjacent\<close>: where a descent that does not meet the key ends.\<close>

definition adjacent :: "ptr list \<Rightarrow> ptr list \<Rightarrow> ptr option \<Rightarrow> ptr option \<Rightarrow> bool" where
  "adjacent xs ys c q \<longleftrightarrow>
     xs = [] \<and> ys = [] \<and> q = c \<or>
     xs \<noteq> [] \<and> q = last_option xs \<or> ys \<noteq> [] \<and> q = hd_option ys"

lemma adjacent_left: "adjacent xs ys (Some p) q \<Longrightarrow> adjacent xs (ys @ p # zs) c q"
  by (cases ys) (auto simp: adjacent_def)

lemma adjacent_right: "adjacent xs ys (Some p) q \<Longrightarrow> adjacent (zs @ p # xs) ys c q"
  by (auto simp: adjacent_def last_option_conv)

lemma find_descend_found:
  assumes "find_descend s key type t c = (True, q)"
  shows "\<exists>p. q = Some p \<and> p \<in> set (inorder t) \<and>
           fst (key_span type s p) \<le> key \<and> key \<le> snd (key_span type s p)"
  using assms
  by (induction t arbitrary: c) (auto simp: compare_key_span Let_def split: if_splits)

lemma find_descend_not_found:
  assumes "ranges_ok (map (key_span type s) (inorder t))"
    and "find_descend s key type t c = (False, q)"
  shows "\<exists>xs ys. inorder t = xs @ ys \<and> adjacent xs ys c q \<and>
           (\<forall>p \<in> set xs. snd (key_span type s p) < key) \<and>
           (\<forall>p \<in> set ys. key < fst (key_span type s p))"
  using assms
proof (induction t arbitrary: c)
  case Leaf
  then show ?case by (auto simp: adjacent_def)
next
  case (Node l p r)
  let ?k = "key_span type s"
  have ok: "ranges_ok (map ?k (inorder l))" "ranges_ok (map ?k (inorder r))"
    "fst (?k p) \<le> snd (?k p)" "\<forall>x \<in> set (inorder l). snd (?k x) < fst (?k p)"
    "\<forall>x \<in> set (inorder r). snd (?k p) < fst (?k x)"
    using Node.prems(1) by (auto simp: range_simps)
  show ?case
  proof (cases "key < fst (?k p)")
    case True
    then obtain xs ys where xy: "inorder l = xs @ ys" "adjacent xs ys (Some p) q"
      "\<forall>x \<in> set xs. snd (?k x) < key" "\<forall>y \<in> set ys. key < fst (?k y)"
      using Node.IH(1) [OF ok(1), of "Some p"] Node.prems(2)
      by (auto simp: compare_key_span Let_def)
    have "\<forall>y \<in> set (inorder r). key < fst (?k y)" using True ok(3,5) by fastforce
    then show ?thesis
      using xy True adjacent_left [OF xy(2), of "inorder r" c]
      by (intro exI [of _ xs] exI [of _ "ys @ p # inorder r"]) auto
  next
    case False
    then have gt: "snd (?k p) < key"
      using Node.prems(2) by (auto simp: compare_key_span Let_def split: if_splits)
    then obtain xs ys where xy: "inorder r = xs @ ys" "adjacent xs ys (Some p) q"
      "\<forall>x \<in> set xs. snd (?k x) < key" "\<forall>y \<in> set ys. key < fst (?k y)"
      using Node.IH(2) [OF ok(2), of "Some p"] Node.prems(2) False
      by (auto simp: compare_key_span Let_def)
    have "\<forall>x \<in> set (inorder l). snd (?k x) < key" using gt ok(3,4) by fastforce
    then show ?thesis
      using xy gt adjacent_right [OF xy(2), of "inorder l" c]
      by (intro exI [of _ "inorder l @ p # xs"] exI [of _ ys]) auto
  qed
qed

lemma rb_link_Some:
  assumes "ranges_ok (map (key_span type s) (inorder t))" "rb_link s type new t = Some t'"
  shows "\<exists>xs ys. inorder t = xs @ ys \<and> inorder t' = xs @ new # ys \<and>
           (\<forall>p \<in> set xs. snd (key_span type s p) < range_low (node_of s new)) \<and>
           (\<forall>p \<in> set ys. range_low (node_of s new) < fst (key_span type s p))"
  using assms
proof (induction t arbitrary: t')
  case Leaf
  then show ?case by auto
next
  case (Node l p r)
  let ?k = "key_span type s" and ?key = "range_low (node_of s new)"
  have ok: "ranges_ok (map ?k (inorder l))" "ranges_ok (map ?k (inorder r))"
    "fst (?k p) \<le> snd (?k p)" "\<forall>x \<in> set (inorder l). snd (?k x) < fst (?k p)"
    "\<forall>x \<in> set (inorder r). snd (?k p) < fst (?k x)"
    using Node.prems(1) by (auto simp: range_simps)
  consider (left) l' where "?key < fst (?k p)" "rb_link s type new l = Some l'" "t' = Node l' p r"
    | (right) r' where "snd (?k p) < ?key" "rb_link s type new r = Some r'" "t' = Node l p r'"
    using Node.prems(2) by (auto simp: compare_key_span Let_def split: if_splits)
  then show ?case
  proof cases
    case left
    obtain xs ys where xy: "inorder l = xs @ ys" "inorder l' = xs @ new # ys"
      "\<forall>x \<in> set xs. snd (?k x) < ?key" "\<forall>y \<in> set ys. ?key < fst (?k y)"
      using Node.IH(1) [OF ok(1) left(2)] by auto
    have "\<forall>y \<in> set (inorder r). ?key < fst (?k y)" using left(1) ok(3,5) by fastforce
    then show ?thesis
      using xy left by (intro exI [of _ xs] exI [of _ "ys @ p # inorder r"]) auto
  next
    case right
    obtain xs ys where xy: "inorder r = xs @ ys" "inorder r' = xs @ new # ys"
      "\<forall>x \<in> set xs. snd (?k x) < ?key" "\<forall>y \<in> set ys. ?key < fst (?k y)"
      using Node.IH(2) [OF ok(2) right(2)] by auto
    have "\<forall>x \<in> set (inorder l). snd (?k x) < ?key" using right(1) ok(3,4) by fastforce
    then show ?thesis
      using xy right by (intro exI [of _ "inorder l @ p # xs"] exI [of _ ys]) auto
  qed
qed

lemma rb_link_None:
  assumes "rb_link s type new t = None"
  shows "\<exists>p \<in> set (inorder t). fst (key_span type s p) \<le> range_low (node_of s new) \<and>
           range_low (node_of s new) \<le> snd (key_span type s p)"
  using assms by (induction t) (auto simp: compare_key_span Let_def split: if_splits)

lemma split_unique:
  assumes "xs @ ys = xs' @ ys'"
    and "\<forall>x \<in> set xs. P x" "\<forall>y \<in> set ys. \<not> P y"
    and "\<forall>x \<in> set xs'. P x" "\<forall>y \<in> set ys'. \<not> P y"
  shows "xs = xs' \<and> ys = ys'"
proof -
  have "takeWhile P (us @ vs) = us"
    if "\<forall>x \<in> set us. P x" "\<forall>y \<in> set vs. \<not> P y" for us vs
    using that by (cases vs) (auto simp: takeWhile_append)
  then have "xs = xs'" using assms by metis
  then show ?thesis using assms(1) by simp
qed

lemma insert_range_node_fits:
  assumes lib: "rb_lib_ok E" and type: "type \<noteq> NODE_DIR"
    and t: "inorder t = xs @ ys" and ok: "ranges_ok (map (span s) (inorder t))"
    and xs: "\<forall>p \<in> set xs. snd (span s p) < range_low (node_of s new)"
    and ys: "\<forall>p \<in> set ys. range_low (node_of s new) < fst (span s p)"
  shows "\<exists>t'. nova_insert_range_node E s t new type = Inr t' \<and> inorder t' = xs @ new # ys"
proof -
  let ?key = "range_low (node_of s new)"
  note ks = key_span_block [OF type, of s]
  have le: "fst (span s p) \<le> snd (span s p)" if "p \<in> set (inorder t)" for p
    using ranges_ok_le [OF ok, of "span s p"] that by auto
  have "rb_link s type new t \<noteq> None"
    using rb_link_None [of s type new t] t xs ys by (force simp: ks)
  then obtain t' where t': "rb_link s type new t = Some t'" by auto
  from rb_link_Some [OF _ t'] ok obtain xs' ys' where
    xy: "inorder t = xs' @ ys'" "inorder t' = xs' @ new # ys'"
      "\<forall>p \<in> set xs'. snd (span s p) < ?key" "\<forall>p \<in> set ys'. ?key < fst (span s p)"
    by (auto simp: ks)
  have "xs = xs' \<and> ys = ys'"
  proof (rule split_unique [where P = "\<lambda>p. snd (span s p) < ?key"])
    show "\<forall>y \<in> set ys. \<not> snd (span s y) < ?key" using ys le t by force
    show "\<forall>y \<in> set ys'. \<not> snd (span s y) < ?key" using xy le by force
  qed (use xs xy t in auto)
  then show ?thesis
    using lib t' xy by (auto simp: nova_insert_range_node_def rb_lib_ok_def)
qed

lemma insert_range_node_in_use:
  assumes "ranges_ok (map (span s) (inorder t))" "type \<noteq> NODE_DIR"
    and "p \<in> set (inorder t)" "fst (span s p) \<le> range_low (node_of s new)"
    and "range_low (node_of s new) \<le> snd (span s p)"
  shows "nova_insert_range_node E s t new type = Inl EINVAL"
proof (cases "rb_link s type new t")
  case (Some t')
  from rb_link_Some [OF _ Some] assms(1,2) obtain xs ys where
    "inorder t = xs @ ys" "\<forall>p \<in> set xs. snd (span s p) < range_low (node_of s new)"
      "\<forall>p \<in> set ys. range_low (node_of s new) < fst (span s p)"
    by (auto simp: key_span_block)
  then show ?thesis using assms(3-5) by fastforce
qed (simp add: nova_insert_range_node_def)

lemma find_range_node_cases:
  assumes inv: "tree_inv E s t" and type: "type \<noteq> NODE_DIR"
  shows "if key \<in> tree_blocks s t
         then \<exists>p \<in> set (inorder t). nova_find_range_node E s t key type r = (True, Some p) \<and>
                fst (span s p) \<le> key \<and> key \<le> snd (span s p)
         else \<exists>xs ys q. inorder t = xs @ ys \<and> adjacent xs ys None q \<and>
                nova_find_range_node E s t key type r = (False, q) \<and>
                (\<forall>p \<in> set xs. snd (span s p) < key) \<and> (\<forall>p \<in> set ys. key < fst (span s p))"
proof -
  have ok: "ranges_ok (map (span s) (inorder t))" and
    cs: "nova_range_node_checksum_ok E (node_of s p)" if "p \<in> set (inorder t)" for p
    using inv that by (auto simp: tree_inv_def nodes_inv_def list_all_iff node_ok_def)
  have ok: "ranges_ok (map (span s) (inorder t))"
    using inv by (simp add: tree_inv_def nodes_inv_def)
  note ks = key_span_block [OF type, of s]
  obtain f q where f: "find_descend s key type t None = (f, q)" by fastforce
  show ?thesis
  proof (cases f)
    case True
    with f find_descend_found [of s key type t None q] obtain p where
      p: "q = Some p" "p \<in> set (inorder t)" "fst (span s p) \<le> key" "key \<le> snd (span s p)"
      by (auto simp: ks)
    then have "key \<in> tree_blocks s t"
      by (auto simp: tree_blocks_def in_blocks_of)
    then show ?thesis
      using p f True cs by (auto simp: nova_find_range_node_def)
  next
    case False
    with f find_descend_not_found [of type s t key None q] ok obtain xs ys where
      xy: "inorder t = xs @ ys" "adjacent xs ys None q"
        "\<forall>p \<in> set xs. snd (span s p) < key" "\<forall>p \<in> set ys. key < fst (span s p)"
      by (auto simp: ks)
    then have "key \<notin> tree_blocks s t"
      by (fastforce simp: tree_blocks_def in_blocks_of)
    moreover have "nova_find_range_node E s t key type r = (False, q)"
    proof (cases q)
      case None
      then show ?thesis using f False by (simp add: nova_find_range_node_def)
    next
      case (Some p)
      then have "p \<in> set (xs @ ys)"
        using xy(2) by (auto simp: adjacent_def last_option_conv hd_option_conv split: if_splits)
      then have "p \<in> set (inorder t)"
        by (simp only: xy(1))
      then show ?thesis using f False Some cs by (simp add: nova_find_range_node_def)
    qed
    ultimately show ?thesis using xy by auto
  qed
qed

lemma find_free_slot_ok:
  assumes inv: "tree_inv E s t" and "low \<le> high" "{low..high} \<inter> tree_blocks s t = {}"
  shows "\<exists>xs ys. inorder t = xs @ ys \<and> (\<forall>p \<in> set xs. snd (span s p) < low) \<and>
           (\<forall>p \<in> set ys. high < fst (span s p)) \<and>
           nova_find_free_slot E s t low high = Inr (last_option xs, hd_option ys)"
proof -
  have "low \<notin> tree_blocks s t" using assms(2,3) by auto
  with find_range_node_cases [OF inv, of NODE_BLOCK low None] obtain xs ys q where
    xy: "inorder t = xs @ ys" and adj: "adjacent xs ys None q"
    and find: "nova_find_range_node E s t low NODE_BLOCK None = (False, q)"
    and below: "\<forall>p \<in> set xs. snd (span s p) < low"
    and above: "\<forall>p \<in> set ys. low < fst (span s p)"
    by auto
  have inv': "distinct (xs @ ys)" "ranges_ok (map (span s) (xs @ ys))"
    "\<And>p. p \<in> set (xs @ ys) \<Longrightarrow> nova_range_node_checksum_ok E (node_of s p)"
    using inv xy by (auto simp: tree_inv_def nodes_inv_def list_all_iff node_ok_def)
  have above': "high < fst (span s p)" if "p \<in> set ys" for p
  proof (rule ccontr)
    assume "\<not> high < fst (span s p)"
    moreover have "fst (span s p) \<le> snd (span s p)"
      using ranges_ok_le [OF inv'(2), of "span s p"] that by auto
    ultimately have "fst (span s p) \<in> {low..high} \<inter> tree_blocks s t"
      using that above xy by (force simp: tree_blocks_def in_blocks_of)
    then show False using assms(3) by simp
  qed
  from adj consider (empty) "xs = []" "ys = []" "q = None"
    | (left) us p where "xs = us @ [p]" "q = Some p"
    | (right) p vs where "ys = p # vs" "q = Some p"
    by (cases xs rule: rev_cases; cases ys) (auto simp: adjacent_def)
  then have "nova_find_free_slot E s t low high = Inr (last_option xs, hd_option ys)"
  proof cases
    case empty
    then show ?thesis by (simp add: nova_find_free_slot_def find)
  next
    case left
    have "rb_next p t = hd_option ys"
      using left xy inv'(1) next_in_append [of p us ys] by (simp add: rb_next_def)
    moreover have "range_high (node_of s p) < low" using below left by (simp add: span_low_high)
    ultimately show ?thesis
      using left inv'(3) by (cases ys) (auto simp: nova_find_free_slot_def find)
  next
    case right
    have "rb_prev p t = last_option xs"
      using right xy inv'(1) prev_in_append [of p vs xs] by (simp add: rb_prev_def)
    moreover have "high < range_low (node_of s p)" "low \<le> range_high (node_of s p)"
      using above' [of p] right ranges_ok_le [OF inv'(2), of "span s p"] assms(2)
      by (auto simp: span_low_high)
    ultimately show ?thesis
      using right inv'(3) by (cases xs rule: rev_cases) (auto simp: nova_find_free_slot_def find)
  qed
  then show ?thesis using xy below above' by blast
qed

lemma find_free_slot_in_use:
  assumes "tree_inv E s t" "low \<in> tree_blocks s t"
  shows "nova_find_free_slot E s t low high = Inl EINVAL"
  using find_range_node_cases [OF assms(1), of NODE_BLOCK low None] assms(2)
  by (auto simp: nova_find_free_slot_def)

subsection \<open>Lemmas: erasing and destroying\<close>

lemma rb_erase_inorder:
  assumes "rb_lib_ok E" "distinct (inorder t)" "inorder t = xs @ p # ys"
  shows "inorder (rb_erase E p t) = xs @ ys"
proof -
  have "p \<in> set_tree t" using assms(3) by (metis in_set_conv_decomp set_inorder)
  then have "inorder (rb_erase E p t) = remove1 p (xs @ p # ys)"
    using assms by (auto simp: rb_lib_ok_def)
  then show ?thesis using assms(2,3) by (simp add: remove1_append)
qed

lemma destroy_nodes_all:
  assumes "rb_lib_ok E" "distinct (inorder t)" "inorder t = ps"
  shows "inorder (snd (destroy_nodes E ps s t)) = [] \<and>
         live (fst (destroy_nodes E ps s t)) = live s - set ps"
  using assms(2,3)
proof (induction ps arbitrary: s t)
  case Nil
  then show ?case by simp
next
  case (Cons p ps)
  have "inorder (rb_erase E p t) = ps"
    using rb_erase_inorder [OF assms(1) Cons.prems(1), of "[]" p ps] Cons.prems(2) by simp
  then show ?case using Cons by auto
qed

end
