(* ===== verification/Pmem.thy ===== *)
theory Pmem
  imports Range_Tree
begin

text \<open>
  Persistent memory as NOVA sees it: a byte for every offset from the start of the device
  (\<^verbatim>\<open>nova_get_block\<close> adds the base address, \<^verbatim>\<open>nova_get_addr_off\<close> subtracts it, so a pointer into
  the device is its offset and the null pointer is offset 0), and the trace of the stores,
  cache-line write-backs and fences that reached it, newest first. The trace is what the
  instrumentation of this repository records of NOVA.

  The write-ordering helpers of \<^verbatim>\<open>nova_def.h\<close> and the copy and fill helpers of \<^verbatim>\<open>nova.h\<close>.
\<close>

subsection \<open>State\<close>

record pm =
  mem :: "nat \<Rightarrow> u8"
  trace :: "pm_event list"

definition CACHELINE_SIZE :: nat where "CACHELINE_SIZE = 64"
definition PAGE_SIZE :: nat where "PAGE_SIZE = 4096"
definition PAGE_SHIFT :: nat where "PAGE_SHIFT = 12"

subsection \<open>Reading and writing bytes\<close>

definition put :: "nat \<Rightarrow> u8 list \<Rightarrow> (nat \<Rightarrow> u8) \<Rightarrow> (nat \<Rightarrow> u8)" where
  "put a bs m = (\<lambda>x. if a \<le> x \<and> x < a + length bs then bs ! (x - a) else m x)"

definition get_bytes :: "(nat \<Rightarrow> u8) \<Rightarrow> nat \<Rightarrow> nat \<Rightarrow> u8 list" where
  "get_bytes m a n = map m [a..<a + n]"

fun le_nat :: "u8 list \<Rightarrow> nat" where
  "le_nat [] = 0"
| "le_nat (b # bs) = unat b + 256 * le_nat bs"

definition read_le :: "nat \<Rightarrow> pm \<Rightarrow> nat \<Rightarrow> nat" where
  "read_le n P a = le_nat (get_bytes (mem P) a n)"

definition store :: "nat \<Rightarrow> u8 list \<Rightarrow> pm \<Rightarrow> pm" where
  "store a bs P = P\<lparr>mem := put a bs (mem P), trace := Store a bs # trace P\<rparr>"

definition nt_store :: "nat \<Rightarrow> u8 list \<Rightarrow> pm \<Rightarrow> pm" where
  "nt_store a bs P = P\<lparr>mem := put a bs (mem P), trace := NtStore a bs # trace P\<rparr>"

definition write_le :: "nat \<Rightarrow> nat \<Rightarrow> nat \<Rightarrow> pm \<Rightarrow> pm" where
  "write_le n a v P = store a (le_bytes n v) P"

subsection \<open>Write ordering\<close>

definition PERSISTENT_BARRIER :: "pm \<Rightarrow> pm" where
  "PERSISTENT_BARRIER P = P\<lparr>trace := Sfence # trace P\<rparr>"

text \<open>
  The loop of \<open>nova_flush_buffer\<close>. The C counter is 32 bits wide; it does not wrap for the
  lengths the file system flushes, at most two pages.
\<close>

function flush_lines :: "bool \<Rightarrow> nat \<Rightarrow> nat \<Rightarrow> nat \<Rightarrow> pm \<Rightarrow> pm" where
  "flush_lines clwb buf i len P =
     (if i < len then
        flush_lines clwb buf (i + CACHELINE_SIZE) len
          (P\<lparr>trace := (if clwb then Clwb (buf + i) else Clflush (buf + i)) # trace P\<rparr>)
      else P)"
  by pat_completeness auto
termination
  by (relation "measure (\<lambda>(c, b, i, len, P). len - i)") (auto simp: CACHELINE_SIZE_def)

definition nova_flush_buffer :: "bool \<Rightarrow> nat \<Rightarrow> nat \<Rightarrow> bool \<Rightarrow> pm \<Rightarrow> pm" where
  "nova_flush_buffer clwb buf len fence P =
     (let len' = u32_trunc (len + (buf AND (CACHELINE_SIZE - 1)));
          P' = flush_lines clwb buf 0 len' P
      in if fence then PERSISTENT_BARRIER P' else P')"

subsection \<open>Copying and filling\<close>

definition memcpy_to_pmem_nocache :: "nat \<Rightarrow> u8 list \<Rightarrow> pm \<Rightarrow> pm" where
  "memcpy_to_pmem_nocache dst bs P = nt_store dst bs P"

text \<open>
  \<open>nova_memcpy_atomic\<close>: one store of 1, 2, 4 or 8 bytes; any other size stores nothing.
\<close>

definition nova_memcpy_atomic :: "nat \<Rightarrow> u8 list \<Rightarrow> nat \<Rightarrow> pm \<Rightarrow> pm" where
  "nova_memcpy_atomic dst src sz P =
     (if sz = 1 then store dst (take 1 src) P
      else if sz = 2 then store dst (take 2 src) P
      else if sz = 4 then store dst (take 4 src) P
      else if sz = 8 then store dst (take 8 src) P
      else P)"

text \<open>
  \<open>memset_nt\<close>: the inline assembly works on \<^verbatim>\<open>edx\<close>, the low 32 bits of the length: lines of
  eight quad words, then single quad words, then at most one double word.
\<close>

fun movnti_qwords :: "nat \<Rightarrow> nat \<Rightarrow> u8 list \<Rightarrow> pm \<Rightarrow> pm" where
  "movnti_qwords 0 rdi qword P = P"
| "movnti_qwords (Suc n) rdi qword P = movnti_qwords n (rdi + 8) qword (nt_store rdi qword P)"

fun movnti_lines :: "nat \<Rightarrow> nat \<Rightarrow> u8 list \<Rightarrow> pm \<Rightarrow> pm" where
  "movnti_lines 0 rdi qword P = P"
| "movnti_lines (Suc n) rdi qword P = movnti_lines n (rdi + 64) qword (movnti_qwords 8 rdi qword P)"

definition memset_nt :: "nat \<Rightarrow> nat \<Rightarrow> nat \<Rightarrow> pm \<Rightarrow> pm" where
  "memset_nt dest dword len P =
     (let dw = le_bytes 4 dword; qword = dw @ dw;
          edx = u32_trunc len;
          lines = edx div 64; edx1 = edx mod 64;
          P1 = movnti_lines lines dest qword P;
          rdi1 = dest + 64 * lines;
          qwords = edx1 div 8; edx2 = edx1 mod 8;
          P2 = movnti_qwords qwords rdi1 qword P1;
          rdi2 = rdi1 + 8 * qwords
      in if edx2 div 4 = 0 then P2 else nt_store rdi2 dw P2)"

subsection \<open>Offsets\<close>

definition nova_get_block_off :: "nat \<Rightarrow> nat" where
  "nova_get_block_off blocknr = push_bit PAGE_SHIFT blocknr mod 2 ^ 64"

definition nova_get_blocknr :: "nat \<Rightarrow> nat" where
  "nova_get_blocknr block = drop_bit PAGE_SHIFT block"

definition nova_get_numblocks :: "nat \<Rightarrow> nat" where
  "nova_get_numblocks btype =
     (if btype = 0 then 1 else if btype = 1 then 512 else 0x40000)"

declare flush_lines.simps [simp del]

subsection \<open>Lemmas: bytes\<close>

lemma length_le_bytes [simp]: "length (le_bytes n v) = n"
  by (induction n arbitrary: v) simp_all

lemma le_nat_le_bytes: "le_nat (le_bytes n v) = v mod 256 ^ n"
proof (induction n arbitrary: v)
  case 0
  then show ?case by simp
next
  case (Suc n)
  have "unat (of_nat v :: u8) = v mod 256"
    by (simp add: unat_of_nat)
  then show ?case
    using Suc by (simp add: mod_mult2_eq)
qed

lemma le_bytes_le_nat: "le_bytes (length bs) (le_nat bs) = bs"
proof (induction bs)
  case (Cons b bs)
  have "unat b < 256" using unsigned_less [of b] by simp
  moreover have "(of_nat (unat b + 256 * k) :: u8) = b" for k
  proof -
    have z: "(of_nat 256 :: u8) = 0" by simp
    show ?thesis unfolding of_nat_add of_nat_mult z by simp
  qed
  ultimately show ?case using Cons by (simp add: div_add1_eq)
qed simp

lemma length_get_bytes [simp]: "length (get_bytes m a n) = n"
  by (simp add: get_bytes_def)

lemma nth_get_bytes [simp]: "i < n \<Longrightarrow> get_bytes m a n ! i = m (a + i)"
  by (simp add: get_bytes_def)

lemma get_bytes_append: "get_bytes m a (n + k) = get_bytes m a n @ get_bytes m (a + n) k"
  by (rule nth_equalityI) (auto simp: nth_append)

lemma get_put_same [simp]: "n = length bs \<Longrightarrow> get_bytes (put a bs m) a n = bs"
  by (rule nth_equalityI) (auto simp: put_def)

lemma get_put_other:
  "a + n \<le> b \<or> b + length bs \<le> a \<Longrightarrow> get_bytes (put b bs m) a n = get_bytes m a n"
  by (rule nth_equalityI) (auto simp: put_def)

lemma put_put: "put (a + length xs) ys (put a xs m) = put a (xs @ ys) m"
  by (rule ext) (auto simp: put_def nth_append)

lemma put_Nil [simp]: "put a [] m = m"
  by (rule ext) (auto simp: put_def)

lemma mem_simps [simp]:
  "mem (store a bs P) = put a bs (mem P)"
  "mem (nt_store a bs P) = put a bs (mem P)"
  "mem (write_le n a v P) = put a (le_bytes n v) (mem P)"
  "mem (memcpy_to_pmem_nocache a bs P) = put a bs (mem P)"
  "mem (PERSISTENT_BARRIER P) = mem P"
  by (simp_all add: store_def nt_store_def write_le_def memcpy_to_pmem_nocache_def
      PERSISTENT_BARRIER_def)

lemma mem_flush_lines [simp]: "mem (flush_lines c buf i len P) = mem P"
proof (induction c buf i len P rule: flush_lines.induct)
  case (1 c buf i len P)
  then show ?case by (simp add: flush_lines.simps [of c buf i len P])
qed

lemma mem_flush_buffer [simp]: "mem (nova_flush_buffer c buf len f P) = mem P"
  by (simp add: nova_flush_buffer_def Let_def)

lemma read_write_same [simp]: "read_le n (write_le n a v P) a = v mod 256 ^ n"
  by (simp add: read_le_def le_nat_le_bytes)

lemma read_write_other:
  "a + n \<le> b \<or> b + k \<le> a \<Longrightarrow> read_le n (write_le k b v P) a = read_le n P a"
  by (simp add: read_le_def get_put_other)

lemma read_le_mem: "mem P = mem Q \<Longrightarrow> read_le n P a = read_le n Q a"
  by (simp add: read_le_def)

subsection \<open>Lemmas: flushing and filling\<close>

definition line_of :: "nat \<Rightarrow> nat" where
  "line_of a = a div CACHELINE_SIZE"

definition flushed_lines :: "pm_event set \<Rightarrow> nat set" where
  "flushed_lines evs = {line_of a | a. Clwb a \<in> evs \<or> Clflush a \<in> evs}"

lemma Collect_Suc: "Q 0 \<Longrightarrow> {f k | k. Q k} = insert (f (0 :: nat)) {f (Suc k) | k. Q (Suc k)}"
  by (auto intro: exI [of _ "Suc _"]) (metis not0_implies_Suc)

lemma flush_lines_trace:
  "\<exists>evs. trace (flush_lines c buf i len P) = evs @ trace P \<and>
     set evs = {(if c then Clwb (buf + i + 64 * k) else Clflush (buf + i + 64 * k)) | k.
                  i + 64 * k < len}"
proof (induction c buf i len P rule: flush_lines.induct)
  case (1 c buf i len P)
  let ?ev = "\<lambda>k. if c then Clwb (buf + i + 64 * k) else Clflush (buf + i + 64 * k)"
  show ?case
  proof (cases "i < len")
    case True
    let ?P = "P\<lparr>trace := (if c then Clwb (buf + i) else Clflush (buf + i)) # trace P\<rparr>"
    obtain evs where evs: "trace (flush_lines c buf (i + CACHELINE_SIZE) len ?P) = evs @ trace ?P"
      and set_evs: "set evs = {?ev (Suc k) | k. i + 64 * Suc k < len}"
      using "1.IH" [OF True] by (auto simp: CACHELINE_SIZE_def algebra_simps cong: if_cong)
    have "{?ev k | k. i + 64 * k < len} = insert (?ev 0) {?ev (Suc k) | k. i + 64 * Suc k < len}"
      by (rule Collect_Suc) (use True in simp)
    then show ?thesis
      using evs set_evs True
      by (intro exI [of _ "evs @ [?ev 0]"]) (simp add: flush_lines.simps [of c buf i len P])
  next
    case False
    then show ?thesis by (simp add: flush_lines.simps [of c buf i len P])
  qed
qed

lemma mem_movnti_qwords:
  "length q = 8 \<Longrightarrow>
     mem (movnti_qwords n rdi q P) = put rdi (concat (replicate n q)) (mem P)"
  by (induction n arbitrary: rdi P) (simp_all add: put_put [symmetric, of _ q])

lemma mem_movnti_lines:
  "length q = 8 \<Longrightarrow>
     mem (movnti_lines n rdi q P) = put rdi (concat (replicate (8 * n) q)) (mem P)"
proof (induction n arbitrary: rdi P)
  case (Suc n)
  let ?l = "concat (replicate 8 q)"
  have "length ?l = 64" using Suc.prems by (simp add: length_concat sum_list_replicate)
  moreover have "concat (replicate (8 * Suc n) q) = ?l @ concat (replicate (8 * n) q)"
    by (simp add: replicate_add [symmetric] concat_append [symmetric] del: concat_append)
  ultimately show ?case
    using Suc put_put [of rdi ?l] by (simp add: mem_movnti_qwords)
qed simp

lemma concat_replicate_dbl: "concat (replicate n (xs @ xs)) = concat (replicate (2 * n) xs)"
  by (induction n) simp_all

lemma flushed_lines_Collect:
  "flushed_lines {} = {}"
  "set evs = {(if c then Clwb (f k) else Clflush (f k)) | k. Q k} \<Longrightarrow>
     flushed_lines (set evs) = {line_of (f k) | k. Q k}"
  by (auto simp: flushed_lines_def split: if_splits)

lemma memset_fill:
  assumes "4 dvd len" "len < 2 ^ 32"
  shows "mem (memset_nt dest dword len P) =
           put dest (concat (replicate (len div 4) (le_bytes 4 dword))) (mem P)"
proof -
  let ?dw = "le_bytes 4 dword"
  let ?l = "len div 64" and ?q = "len mod 64 div 8" and ?d = "len mod 64 mod 8 div 4"
  define A where "A = concat (replicate (16 * ?l) ?dw)"
  define B where "B = concat (replicate (2 * ?q) ?dw)"
  have len: "length A = 64 * ?l" "length B = 8 * ?q"
    by (simp_all add: A_def B_def length_concat sum_list_replicate)
  have split: "len div 4 = 16 * ?l + (2 * ?q + ?d)" "?d = 0 \<or> ?d = 1"
  proof -
    obtain m where m: "len = 4 * m" using assms(1) by (rule dvdE)
    have "len mod 64 = 4 * (m mod 16)" using mult_mod_right [of 4 m 16] by (simp add: m)
    moreover have "4 * k div 8 = k div 2" "4 * k mod 8 = 4 * (k mod 2)" for k :: nat
      using div_mult_mult1 [of 4 k 2] mult_mod_right [of 4 k 2] by simp_all
    ultimately show "len div 4 = 16 * ?l + (2 * ?q + ?d)" "?d = 0 \<or> ?d = 1"
      using div_mult_mult1 [of 4 m 16] by (auto simp: m)
  qed
  have "mem (memset_nt dest dword len P) = put dest (A @ B @ concat (replicate ?d ?dw)) (mem P)"
    using split(2) put_put [of dest A B] put_put [of dest "A @ B" ?dw] len assms(2)
    by (auto simp: memset_nt_def Let_def u32_trunc_exact mem_movnti_lines mem_movnti_qwords
        concat_replicate_dbl A_def B_def add.assoc)
  then show ?thesis
    by (simp add: split(1) replicate_add A_def B_def)
qed

subsection \<open>Lemmas: the events of a flush\<close>

lemma flush_buffer_events:
  assumes "0 < len \<or> buf mod 64 = 0" "len + 63 < 2 ^ 32"
  obtains evs where
    "trace (nova_flush_buffer clwb buf len fence P) = (if fence then [Sfence] else []) @ evs @ trace P"
    "set evs \<subseteq> range Clwb \<union> range Clflush"
    "flushed_lines (set evs) = line_of ` {buf..<buf + len}"
proof -
  let ?len = "len + buf mod 64"
  have trunc: "u32_trunc ?len = ?len"
    using assms mod_less_divisor [of 64 buf] by (intro u32_trunc_exact) linarith
  obtain evs where evs: "trace (flush_lines clwb buf 0 ?len P) = evs @ trace P"
    "set evs = {(if clwb then Clwb (buf + 64 * k) else Clflush (buf + 64 * k)) | k. 64 * k < ?len}"
    using flush_lines_trace [of clwb buf 0 ?len P] by auto
  have "{line_of (buf + 64 * k) | k. 64 * k < ?len} = line_of ` {buf..<buf + len}" (is "?A = ?B")
  proof (rule set_eqI, rule iffI)
    fix x assume "x \<in> ?A"
    then obtain k where k: "x = (buf + 64 * k) div 64" "64 * k < ?len"
      by (auto simp: line_of_def CACHELINE_SIZE_def)
    let ?y = "max buf (64 * (buf div 64 + k))"
    have "0 < len" using k(2) assms(1) by (cases "len = 0") simp_all
    moreover have "64 * (buf div 64) + 64 * k < buf + len"
      using k(2) mult_div_mod_eq [of 64 buf] by linarith
    ultimately have "?y < buf + len" by simp
    moreover have "?y div 64 = x" using k by (auto simp: max_def)
    ultimately have "?y div 64 = x" "?y < buf + len" by simp_all
    then show "x \<in> ?B" by (force simp: line_of_def CACHELINE_SIZE_def)
  next
    fix x assume "x \<in> ?B"
    then obtain y where y: "buf \<le> y" "y < buf + len" "x = y div 64"
      by (auto simp: line_of_def CACHELINE_SIZE_def)
    let ?k = "y div 64 - buf div 64"
    have "buf div 64 \<le> y div 64" using y(1) by (rule div_le_mono)
    moreover have "buf = 64 * (buf div 64) + buf mod 64" "64 * (y div 64) \<le> y" by simp_all
    then have "64 * ?k < ?len" unfolding diff_mult_distrib2 using y(1,2) by linarith
    ultimately have "x = (buf + 64 * ?k) div 64" "64 * ?k < ?len" using y(3) by simp_all
    then show "x \<in> ?A" by (auto simp: line_of_def CACHELINE_SIZE_def)
  qed
  moreover have "trace (nova_flush_buffer clwb buf len fence P) =
      (if fence then [Sfence] else []) @ evs @ trace P"
    by (simp add: nova_flush_buffer_def trunc Let_def CACHELINE_SIZE_def PERSISTENT_BARRIER_def evs(1))
  moreover have "set evs \<subseteq> range Clwb \<union> range Clflush"
    unfolding evs(2) by auto
  ultimately show ?thesis
    using that [of evs] flushed_lines_Collect(2) [OF evs(2)] by simp
qed

subsection \<open>Properties\<close>



text \<open>
  C11: \<open>memset_nt\<close> fills a buffer whose length is a multiple of four and fits 32 bits with the
  double word, byte for byte, and touches nothing else: the three unrolled loops of the
  assembly are one fill.
\<close>

theorem memset_nt_fills:
  assumes "4 dvd len" "len < 2 ^ 32"
  shows "mem (memset_nt dest dword len P) =
           put dest (concat (replicate (len div 4) (le_bytes 4 dword))) (mem P)"
  using assms by (rule memset_fill)

theorem memset_nt_fills_witness:
  "mem (memset_nt 8 7 12 \<lparr>mem = \<lambda>_. 1, trace = []\<rparr>) 16 = 7 \<and>
   mem (memset_nt 8 7 12 \<lparr>mem = \<lambda>_. 1, trace = []\<rparr>) 20 = 1"
proof -
  have fill: "concat (replicate (12 div 4) (le_bytes 4 7)) = [7, 0, 0, 0, 7, 0, 0, 0, 7, 0, 0, 0]"
    by code_simp
  have "mem (memset_nt 8 7 12 \<lparr>mem = \<lambda>_. 1, trace = []\<rparr>) =
      put 8 [7, 0, 0, 0, 7, 0, 0, 0, 7, 0, 0, 0] (\<lambda>_. 1)"
    by (subst memset_nt_fills) (simp_all only: fill pm.simps, simp_all)
  then show ?thesis by (simp add: put_def nth_Cons')
qed

text \<open>
  @@ \<open>memset_nt\<close> reads the length from a 32-bit register: a request for a multiple of four
  gigabytes fills nothing.
\<close>

theorem memset_nt_wraps: "memset_nt dest dword (2 ^ 32 * n) P = P"
  by (simp add: memset_nt_def u32_trunc_def Let_def)

end
