(* ===== verification/Nova_Sb.thy ===== *)
theory Nova_Sb
  imports Pmem
begin

text \<open>
  The in-memory state of a mounted file system: \<^verbatim>\<open>struct nova_sb_info\<close> of \<^verbatim>\<open>super.h\<close> with the
  per-CPU free lists of \<^verbatim>\<open>balloc.h\<close> and the per-CPU inode maps of \<^verbatim>\<open>nova.h\<close>. The slab cache the
  range nodes live in and the persistent memory belong to the same state. The fields that only
  the VFS glue reads (mount options, processes, snapshots) are left out; locks are not part of
  the state, an operation that takes a lock is one step.
\<close>

definition NOVA_STRIPE_SHIFT :: nat where "NOVA_STRIPE_SHIFT = 9"
definition NOVA_STRIPE_SIZE :: nat where "NOVA_STRIPE_SIZE = 512"
definition NOVA_DATA_CSUM_LEN :: nat where "NOVA_DATA_CSUM_LEN = 4"

record free_list =
  block_free_tree :: "ptr tree"
  first_node :: "ptr option"
  last_node :: "ptr option"
  index :: nat
  csum_start :: nat
  replica_csum_start :: nat
  num_csum_blocks :: nat
  parity_start :: nat
  replica_parity_start :: nat
  num_parity_blocks :: nat
  block_start :: nat
  block_end :: nat
  num_free_blocks :: nat
  num_blocknode :: nat
  alloc_log_count :: nat
  alloc_data_count :: nat
  free_log_count :: nat
  free_data_count :: nat
  alloc_log_pages :: nat
  alloc_data_pages :: nat
  freed_log_pages :: nat
  freed_data_pages :: nat

record inode_map =
  inode_inuse_tree :: "ptr tree"
  num_range_node_inode :: nat
  first_inode_range :: "ptr option"
  allocated :: int
  freed :: int

record sb_info =
  replica_reserved_inodes_addr :: nat
  num_blocks :: nat
  blocksize :: nat
  initsize :: nat
  s_inodes_used_count :: nat
  head_reserved_blocks :: nat
  tail_reserved_blocks :: nat
  cpus :: nat
  s_epoch_id :: nat
  mount_snapshot_epoch_id :: nat
  zero_csum :: "u32 list"
  zero_parity :: "u8 list"
  inode_maps :: "inode_map list"
  map_id :: nat
  free_lists :: "free_list list"
  per_list_blocks :: nat
  nodes :: slab
  pmem :: pm

datatype nova_alloc_direction = ALLOC_FROM_HEAD | ALLOC_FROM_TAIL
datatype alloc_type = LOG | DATA

definition kcalloc_free_list :: free_list where
  "kcalloc_free_list =
     \<lparr>block_free_tree = Leaf, first_node = None, last_node = None, index = 0,
      csum_start = 0, replica_csum_start = 0, num_csum_blocks = 0,
      parity_start = 0, replica_parity_start = 0, num_parity_blocks = 0,
      block_start = 0, block_end = 0, num_free_blocks = 0, num_blocknode = 0,
      alloc_log_count = 0, alloc_data_count = 0, free_log_count = 0, free_data_count = 0,
      alloc_log_pages = 0, alloc_data_pages = 0, freed_log_pages = 0, freed_data_pages = 0\<rparr>"

text \<open>Indexing the array of free lists; an index outside the array has no defined result.\<close>

definition nova_get_free_list :: "sb_info \<Rightarrow> int \<Rightarrow> free_list res" where
  "nova_get_free_list sbi cpu =
     (if 0 \<le> cpu \<and> nat cpu < length (free_lists sbi)
      then Inr (free_lists sbi ! nat cpu) else Inl EOOPS)"

definition set_free_list :: "int \<Rightarrow> free_list \<Rightarrow> slab \<Rightarrow> sb_info \<Rightarrow> sb_info" where
  "set_free_list cpu fl s sbi =
     sbi\<lparr>free_lists := (free_lists sbi)[nat cpu := fl], nodes := s\<rparr>"

definition nova_get_cpuid :: "nat \<Rightarrow> sb_info \<Rightarrow> nat" where
  "nova_get_cpuid smp_processor_id sbi = smp_processor_id mod cpus sbi"

lemma set_free_list_simps [simp]:
  "num_blocks (set_free_list c fl s sbi) = num_blocks sbi"
  "cpus (set_free_list c fl s sbi) = cpus sbi"
  "per_list_blocks (set_free_list c fl s sbi) = per_list_blocks sbi"
  "inode_maps (set_free_list c fl s sbi) = inode_maps sbi"
  "pmem (set_free_list c fl s sbi) = pmem sbi"
  "nodes (set_free_list c fl s sbi) = s"
  "free_lists (set_free_list c fl s sbi) = (free_lists sbi)[nat c := fl]"
  by (simp_all add: set_free_list_def)

end
