(* ===== verification/Balloc.thy ===== *)
theory Balloc
  imports Nova_Sb
begin

text \<open>
  The block allocator, \<^verbatim>\<open>balloc.c\<close>: the per-CPU free lists, how the device is divided among
  them, freeing with coalescing, allocation of ordinary and of 2 MB aligned ranges, the choice
  of a free list, and the count of free blocks.

  A free list is abstracted to the set of its free blocks (\<open>free_set\<close>). \<open>free_list_inv\<close> is the
  invariant of one list, \<open>sb_inv\<close> that of all of them together; the lemmas show that every
  operation keeps it and say which blocks it moves.
\<close>

subsection \<open>Dividing the device\<close>

definition nova_alloc_block_free_lists :: "bool \<Rightarrow> sb_info \<Rightarrow> sb_info \<times> unit res" where
  "nova_alloc_block_free_lists kcalloc_ok sbi =
     (if \<not> kcalloc_ok then (sbi\<lparr>free_lists := []\<rparr>, Inl ENOMEM)
      else (sbi\<lparr>free_lists :=
              map (\<lambda>i. kcalloc_free_list\<lparr>block_free_tree := Leaf, index := i\<rparr>) [0..<cpus sbi]\<rparr>,
            Inr ()))"

definition nova_delete_free_lists :: "sb_info \<Rightarrow> sb_info" where
  "nova_delete_free_lists sbi = sbi\<lparr>free_lists := []\<rparr>"

definition nova_data_csum_init_free_list :: "sb_info \<Rightarrow> free_list \<Rightarrow> free_list" where
  "nova_data_csum_init_free_list sbi fl =
     (let data_csum_blocks =
            drop_bit PAGE_SHIFT (u64_mul (drop_bit NOVA_STRIPE_SHIFT (initsize sbi))
                                   NOVA_DATA_CSUM_LEN);
          fl = fl\<lparr>csum_start := block_start fl\<rparr>;
          fl = fl\<lparr>block_start := u64_add (block_start fl) (data_csum_blocks div cpus sbi)\<rparr>;
          fl = (if data_csum_blocks mod cpus sbi \<noteq> 0
                then fl\<lparr>block_start := u64_add (block_start fl) 1\<rparr> else fl);
          fl = fl\<lparr>num_csum_blocks := u64_sub (block_start fl) (csum_start fl)\<rparr>;
          fl = fl\<lparr>replica_csum_start :=
                    u64_sub (u64_add (block_end fl) 1) (num_csum_blocks fl)\<rparr>
      in fl\<lparr>block_end := u64_sub (block_end fl) (num_csum_blocks fl)\<rparr>)"

definition nova_data_parity_init_free_list :: "sb_info \<Rightarrow> free_list \<Rightarrow> free_list" where
  "nova_data_parity_init_free_list sbi fl =
     (let total_blocks = initsize sbi div blocksize sbi;
          per = blocksize sbi div NOVA_STRIPE_SIZE + 1;
          parity_blocks = total_blocks div per;
          parity_blocks = (if total_blocks mod per \<noteq> 0 then u64_add parity_blocks 1
                           else parity_blocks);
          fl = fl\<lparr>parity_start := block_start fl\<rparr>;
          fl = fl\<lparr>block_start := u64_add (block_start fl) (parity_blocks div cpus sbi)\<rparr>;
          fl = (if parity_blocks mod cpus sbi \<noteq> 0
                then fl\<lparr>block_start := u64_add (block_start fl) 1\<rparr> else fl);
          fl = fl\<lparr>num_parity_blocks := u64_sub (block_start fl) (parity_start fl)\<rparr>
      in fl\<lparr>replica_parity_start :=
              u64_sub (u64_add (block_end fl) 1) (num_parity_blocks fl)\<rparr>)"

definition nova_init_free_list :: "sb_info \<Rightarrow> free_list \<Rightarrow> nat \<Rightarrow> free_list" where
  "nova_init_free_list sbi fl i =
     (let per_list = num_blocks sbi div cpus sbi;
          fl = fl\<lparr>block_start := u64_mul per_list i\<rparr>;
          fl = fl\<lparr>block_end := u64_sub (u64_add (block_start fl) per_list) 1\<rparr>;
          fl = (if i = 0 then fl\<lparr>block_start :=
                  u64_add (block_start fl) (head_reserved_blocks sbi)\<rparr> else fl);
          fl = (if i = cpus sbi - 1 then fl\<lparr>block_end :=
                  u64_sub (block_end fl) (tail_reserved_blocks sbi)\<rparr> else fl)
      in nova_data_parity_init_free_list sbi (nova_data_csum_init_free_list sbi fl))"

definition nova_alloc_blocknode :: "nova_env \<Rightarrow> slab \<Rightarrow> slab \<times> ptr option" where
  "nova_alloc_blocknode E s = nova_alloc_range_node E s"

definition nova_free_blocknode :: "slab \<Rightarrow> ptr \<Rightarrow> slab" where
  "nova_free_blocknode s p = nova_free_range_node s p"

text \<open>
  One round of the loop of \<open>nova_init_blockmap\<close>. The flag says whether the loop goes on: a
  failed insertion ends the function, a failed allocation is a \<^verbatim>\<open>BUG()\<close>.
\<close>

definition init_blockmap_list ::
    "nova_env \<Rightarrow> bool \<Rightarrow> nat \<Rightarrow> sb_info \<Rightarrow> (sb_info \<times> bool) res" where
  "init_blockmap_list E recovery i sbi =
     (case nova_get_free_list sbi (int i) of
        Inl e \<Rightarrow> Inl e
      | Inr fl \<Rightarrow>
          let fl = nova_init_free_list sbi fl i in
          if recovery then Inr (set_free_list (int i) fl (nodes sbi) sbi, True)
          else
            let fl = fl\<lparr>num_free_blocks := u64_add (u64_sub (block_end fl) (block_start fl)) 1\<rparr>
            in case nova_alloc_blocknode E (nodes sbi) of
                 (s, None) \<Rightarrow> Inl EOOPS
               | (s, Some blknode) \<Rightarrow>
                   let s = nova_update_range_node_checksum E blknode
                             (set_high blknode (block_end fl)
                               (set_low blknode (block_start fl) s))
                   in case nova_insert_blocktree E s (block_free_tree fl) blknode of
                        Inl e \<Rightarrow>
                          Inr (set_free_list (int i) fl (nova_free_blocknode s blknode) sbi, False)
                      | Inr t \<Rightarrow>
                          Inr (set_free_list (int i)
                                 (fl\<lparr>block_free_tree := t, first_node := Some blknode,
                                     last_node := Some blknode, num_blocknode := 1\<rparr>) s sbi,
                               True))"

fun init_blockmap_loop ::
    "nova_env \<Rightarrow> bool \<Rightarrow> nat list \<Rightarrow> sb_info \<Rightarrow> sb_info res" where
  "init_blockmap_loop E recovery [] sbi = Inr sbi"
| "init_blockmap_loop E recovery (i # is) sbi =
     (case init_blockmap_list E recovery i sbi of
        Inl e \<Rightarrow> Inl e
      | Inr (sbi', goon) \<Rightarrow>
          if goon then init_blockmap_loop E recovery is sbi' else Inr sbi')"

definition nova_init_blockmap :: "nova_env \<Rightarrow> bool \<Rightarrow> sb_info \<Rightarrow> sb_info res" where
  "nova_init_blockmap E recovery sbi =
     (let sbi = sbi\<lparr>per_list_blocks := num_blocks sbi div cpus sbi\<rparr>
      in init_blockmap_loop E recovery [0..<cpus sbi] sbi)"

subsection \<open>Freeing\<close>

text \<open>
  The part of \<open>nova_free_blocks\<close> under the lock of the free list, from the range check to the
  label \<^verbatim>\<open>out\<close>: \<open>free_in_list\<close> is the range check and the search, \<open>free_at_slot\<close> the four ways to
  add the range. \<open>cur\<close> is the node allocated beforehand; the flag is \<^verbatim>\<open>new_node_used\<close>.
\<close>

definition free_found :: "bool \<Rightarrow> nat \<Rightarrow> free_list \<Rightarrow> free_list" where
  "free_found log_page n fl =
     (let fl = fl\<lparr>num_free_blocks := u64_add (num_free_blocks fl) n\<rparr> in
      if log_page
      then fl\<lparr>free_log_count := u64_add (free_log_count fl) 1,
              freed_log_pages := u64_add (freed_log_pages fl) n\<rparr>
      else fl\<lparr>free_data_count := u64_add (free_data_count fl) 1,
              freed_data_pages := u64_add (freed_data_pages fl) n\<rparr>)"

definition aligns_left :: "slab \<Rightarrow> ptr option \<Rightarrow> nat \<Rightarrow> bool" where
  "aligns_left s prev block_low =
     (case prev of None \<Rightarrow> False
      | Some p \<Rightarrow> block_low = u64_add (range_high (node_of s p)) 1)"

definition aligns_right :: "slab \<Rightarrow> ptr option \<Rightarrow> nat \<Rightarrow> bool" where
  "aligns_right s next block_high =
     (case next of None \<Rightarrow> False
      | Some q \<Rightarrow> u64_add block_high 1 = range_low (node_of s q))"

definition free_at_slot ::
    "nova_env \<Rightarrow> slab \<Rightarrow> free_list \<Rightarrow> ptr \<Rightarrow> nat \<Rightarrow> nat \<Rightarrow> nat \<Rightarrow> bool
     \<Rightarrow> ptr option \<Rightarrow> ptr option \<Rightarrow> slab \<times> free_list \<times> bool \<times> unit res" where
  "free_at_slot E s fl cur block_low block_high n log_page prev next =
     (let t = block_free_tree fl;
          left = aligns_left s prev block_low;
          right = aligns_right s next block_high in
      if left \<and> right then
        (let p = the prev; q = the next;
             t' = rb_erase E q t;
             s1 = nova_update_range_node_checksum E p
                    (set_high p (range_high (node_of s q)) s);
             fl1 = fl\<lparr>block_free_tree := t',
                      num_blocknode := u64_sub (num_blocknode fl) 1,
                      last_node := (if last_node fl = Some q then Some p else last_node fl)\<rparr>
         in (nova_free_blocknode s1 q, free_found log_page n fl1, False, Inr ()))
      else if left then
        (let p = the prev
         in (nova_update_range_node_checksum E p
               (set_high p (u64_add (range_high (node_of s p)) n) s),
             free_found log_page n fl, False, Inr ()))
      else if right then
        (let q = the next
         in (nova_update_range_node_checksum E q
               (set_low q (u64_sub (range_low (node_of s q)) n) s),
             free_found log_page n fl, False, Inr ()))
      else
        (let s1 = nova_update_range_node_checksum E cur
                    (set_high cur block_high (set_low cur block_low s))
         in case nova_insert_blocktree E s1 t cur of
              Inl e \<Rightarrow> (s1, fl, False, Inl e)
            | Inr t' \<Rightarrow>
                (s1,
                 free_found log_page n
                   (fl\<lparr>block_free_tree := t',
                       first_node := (if prev = None then Some cur else first_node fl),
                       last_node := (if next = None then Some cur else last_node fl),
                       num_blocknode := u64_add (num_blocknode fl) 1\<rparr>),
                 True, Inr ())))"

definition free_in_list ::
    "nova_env \<Rightarrow> slab \<Rightarrow> free_list \<Rightarrow> ptr \<Rightarrow> nat \<Rightarrow> nat \<Rightarrow> nat \<Rightarrow> bool
     \<Rightarrow> slab \<times> free_list \<times> bool \<times> unit res" where
  "free_in_list E s fl cur blocknr num n log_page =
     (let block_low = blocknr;
          block_high = u64_sub (u64_add blocknr n) 1 in
      if blocknr < block_start fl \<or> u64_add (block_end fl) 1 < u64_add blocknr num
      then (s, fl, False, Inl EIO)
      else case nova_find_free_slot E s (block_free_tree fl) block_low block_high of
        Inl e \<Rightarrow> (s, fl, False, Inl e)
      | Inr (prev, next) \<Rightarrow>
          free_at_slot E s fl cur block_low block_high n log_page prev next)"

definition nova_free_blocks ::
    "nova_env \<Rightarrow> sb_info \<Rightarrow> nat \<Rightarrow> int \<Rightarrow> nat \<Rightarrow> bool \<Rightarrow> sb_info \<times> unit res" where
  "nova_free_blocks E sbi blocknr num btype log_page =
     (if num \<le> 0 then (sbi, Inl EINVAL)
      else
        let cpuid = s32_of (blocknr div per_list_blocks sbi) in
        case nova_alloc_blocknode E (nodes sbi) of
          (s, None) \<Rightarrow> (sbi\<lparr>nodes := s\<rparr>, Inl ENOMEM)
        | (s, Some cur) \<Rightarrow>
            (case nova_get_free_list sbi cpuid of
               Inl e \<Rightarrow> (sbi\<lparr>nodes := s\<rparr>, Inl e)
             | Inr fl \<Rightarrow>
                 let n = u64_mul (nova_get_numblocks btype) (nat num);
                     (s', fl', new_node_used, ret) =
                       free_in_list E s fl cur blocknr (nat num) n log_page;
                     s'' = (if new_node_used then s' else nova_free_blocknode s' cur)
                 in (set_free_list cpuid fl' s'' sbi, ret)))"

text \<open>The callers for data and for log blocks; \<open>btype\<close> is the block type of the inode.\<close>

definition nova_free_data_blocks ::
    "nova_env \<Rightarrow> sb_info \<Rightarrow> nat \<Rightarrow> nat \<Rightarrow> int \<Rightarrow> sb_info \<times> unit res" where
  "nova_free_data_blocks E sbi btype blocknr num =
     (if blocknr = 0 then (sbi, Inl EINVAL) else nova_free_blocks E sbi blocknr num btype False)"

definition nova_free_log_blocks ::
    "nova_env \<Rightarrow> sb_info \<Rightarrow> nat \<Rightarrow> nat \<Rightarrow> int \<Rightarrow> sb_info \<times> unit res" where
  "nova_free_log_blocks E sbi btype blocknr num =
     (if blocknr = 0 then (sbi, Inl EINVAL) else nova_free_blocks E sbi blocknr num btype True)"

subsection \<open>Allocating\<close>

definition DEAD_ZONE_BLOCKS :: nat where "DEAD_ZONE_BLOCKS = 256"
definition PAGES_PER_2MB :: nat where "PAGES_PER_2MB = 512"
definition PAGES_PER_2MB_MASK :: nat where "PAGES_PER_2MB_MASK = 511"

definition not_enough_blocks :: "slab \<Rightarrow> free_list \<Rightarrow> nat \<Rightarrow> alloc_type \<Rightarrow> bool" where
  "not_enough_blocks s fl n atype =
     (case (first_node fl, last_node fl) of
        (Some f, Some l) \<Rightarrow>
          if num_free_blocks fl < n then True
          else atype = LOG \<and>
            u64_sub (range_high (node_of s l)) (range_low (node_of s f)) < DEAD_ZONE_BLOCKS
      | _ \<Rightarrow> True)"

text \<open>
  The nodes the allocation loops visit: from the first node by \<^verbatim>\<open>rb_next\<close> or from the last node
  by \<^verbatim>\<open>rb_prev\<close>.
\<close>

definition rb_walk :: "nova_alloc_direction \<Rightarrow> free_list \<Rightarrow> ptr list" where
  "rb_walk from_tail fl =
     (let ps = inorder (block_free_tree fl) in
      case from_tail of
        ALLOC_FROM_HEAD \<Rightarrow> (case first_node fl of None \<Rightarrow> [] | Some p \<Rightarrow> dropWhile (\<lambda>q. q \<noteq> p) ps)
      | ALLOC_FROM_TAIL \<Rightarrow>
          (case last_node fl of None \<Rightarrow> [] | Some p \<Rightarrow> dropWhile (\<lambda>q. q \<noteq> p) (rev ps)))"

definition floor_2mb :: "nat \<Rightarrow> nat" where
  "floor_2mb x = x - (x AND PAGES_PER_2MB_MASK)"

text \<open>Removing a node that is used up, with the updates of \<open>first_node\<close> and \<open>last_node\<close>.\<close>

definition drop_node :: "nova_env \<Rightarrow> free_list \<Rightarrow> ptr \<Rightarrow> free_list" where
  "drop_node E fl p =
     (let t = block_free_tree fl;
          fl1 = (if first_node fl = Some p then fl\<lparr>first_node := rb_next p t\<rparr> else fl);
          fl2 = (if last_node fl = Some p then fl1\<lparr>last_node := rb_prev p t\<rparr> else fl1)
      in fl2\<lparr>block_free_tree := rb_erase E p t,
             num_blocknode := u64_sub (num_blocknode fl) 1\<rparr>)"

text \<open>
  The rounds of the loop of \<open>nova_alloc_superpage\<close>: go on to the next node with a possibly
  smaller request, return \<^verbatim>\<open>-ENOMEM\<close> at once, leave the loop with a range, or follow a null
  pointer.
\<close>

datatype superpage_round =
    SpNext nat
  | SpNoMem slab free_list nat
  | SpFound slab free_list nat nat
  | SpOops

text \<open>
  The corner case of an aligned node that is used up. After the first branch \<^verbatim>\<open>temp\<close> points to
  the next node, and the second branch goes on from there.
\<close>

definition superpage_used_up :: "nova_env \<Rightarrow> free_list \<Rightarrow> ptr \<Rightarrow> free_list option" where
  "superpage_used_up E fl p =
     (let t = block_free_tree fl;
          (fl1, temp, node) =
            (if first_node fl = Some p
             then (fl\<lparr>first_node := rb_next p t\<rparr>, rb_next p t, rb_next p t)
             else (fl, Some p, None));
          fl2 =
            (if last_node fl1 = Some p then
               (case temp of
                  None \<Rightarrow> None
                | Some q \<Rightarrow>
                    (case rb_prev q t of
                       None \<Rightarrow> Some (fl1\<lparr>last_node := node\<rparr>)
                     | Some r \<Rightarrow> Some (fl1\<lparr>last_node := Some r\<rparr>)))
             else Some fl1)
      in map_option (\<lambda>f. f\<lparr>block_free_tree := rb_erase E p t,
                             num_blocknode := u64_sub (num_blocknode f) 1\<rparr>) fl2)"

definition superpage_take ::
    "nova_env \<Rightarrow> slab \<Rightarrow> free_list \<Rightarrow> ptr \<Rightarrow> nat \<Rightarrow> nat \<Rightarrow> nat \<Rightarrow> superpage_round" where
  "superpage_take E s fl p left_margin right_margin n =
     (let low = range_low (node_of s p);
          saved_range_high = range_high (node_of s p);
          new_blocknr = u64_add low left_margin;
          s1 = (if left_margin \<noteq> 0
                then nova_update_range_node_checksum E p
                       (set_high p (u64_sub (u64_add low left_margin) 1) s)
                else s)
      in if right_margin \<noteq> 0 then
           (if left_margin \<noteq> 0 then
              (case nova_alloc_blocknode E s1 of
                 (s2, None) \<Rightarrow> SpNoMem s2 fl new_blocknr
               | (s2, Some node) \<Rightarrow>
                   let s3 = nova_update_range_node_checksum E node
                              (set_high node saved_range_high
                                (set_low node (u64_add (u64_add low left_margin) n) s2));
                       t' = (case nova_insert_blocktree E s3 (block_free_tree fl) node of
                               Inl e \<Rightarrow> block_free_tree fl | Inr t' \<Rightarrow> t')
                   in SpFound s3
                        (fl\<lparr>block_free_tree := t',
                            num_blocknode := u64_add (num_blocknode fl) 1,
                            last_node := (if last_node fl = Some p then Some node
                                          else last_node fl)\<rparr>)
                        new_blocknr n)
            else SpFound (nova_update_range_node_checksum E p
                            (set_low p (u64_add low n) s1)) fl new_blocknr n)
         else if left_margin \<noteq> 0 then SpFound s1 fl new_blocknr n
         else (case superpage_used_up E fl p of
                 None \<Rightarrow> SpOops
               | Some fl' \<Rightarrow> SpFound (nova_free_blocknode s1 p) fl' new_blocknr n))"

text \<open>The best effort: a request larger than what the node has is cut to a multiple of 2 MB.\<close>

definition superpage_size :: "nat \<Rightarrow> nat \<Rightarrow> nat" where
  "superpage_size avail n =
     (if avail < n then (if 0 < floor_2mb avail then floor_2mb avail else n) else n)"

definition superpage_node ::
    "nova_env \<Rightarrow> slab \<Rightarrow> free_list \<Rightarrow> ptr \<Rightarrow> nat \<Rightarrow> superpage_round" where
  "superpage_node E s fl p n0 =
     (if \<not> nova_range_node_checksum_ok E (node_of s p) then SpNext n0
      else
        let low = range_low (node_of s p);
            high = range_high (node_of s p);
            curr_blocks = u64_add (u64_sub high low) 1;
            left_margin = u32_trunc (PAGES_PER_2MB - (low AND PAGES_PER_2MB_MASK));
            avail = u64_sub curr_blocks left_margin;
            n = superpage_size avail n0
        in if left_margin < curr_blocks \<and> n \<le> avail
           then superpage_take E s fl p left_margin (u32_trunc (u64_sub avail n)) n
           else SpNext n)"

fun superpage_loop ::
    "nova_env \<Rightarrow> slab \<Rightarrow> free_list \<Rightarrow> ptr list \<Rightarrow> nat \<Rightarrow> superpage_round" where
  "superpage_loop E s fl [] n = SpNext n"
| "superpage_loop E s fl (p # ps) n =
     (case superpage_node E s fl p n of
        SpNext n' \<Rightarrow> superpage_loop E s fl ps n'
      | r \<Rightarrow> r)"

definition nova_alloc_superpage ::
    "nova_env \<Rightarrow> slab \<Rightarrow> free_list \<Rightarrow> nat \<Rightarrow> nat \<Rightarrow> nova_alloc_direction
     \<Rightarrow> slab \<times> free_list \<times> nat \<times> nat res" where
  "nova_alloc_superpage E s fl n new_blocknr from_tail =
     (case superpage_loop E s fl (rb_walk from_tail fl) n of
        SpNext n' \<Rightarrow> (s, fl, new_blocknr, Inr 0)
      | SpNoMem s' fl' b \<Rightarrow> (s', fl', b, Inl ENOMEM)
      | SpFound s' fl' b n' \<Rightarrow> (s', fl', b, Inr n')
      | SpOops \<Rightarrow> (s, fl, new_blocknr, Inl EOOPS))"

text \<open>
  One round of the loop of \<open>nova_alloc_blocks_in_free_list\<close>: None when the node is skipped,
  otherwise the new state, the first block and the number of blocks taken.
\<close>

definition alloc_node ::
    "nova_env \<Rightarrow> slab \<Rightarrow> free_list \<Rightarrow> ptr \<Rightarrow> nat \<Rightarrow> nat \<Rightarrow> nova_alloc_direction
     \<Rightarrow> (slab \<times> free_list \<times> nat \<times> nat) option" where
  "alloc_node E s fl p btype n from_tail =
     (if \<not> nova_range_node_checksum_ok E (node_of s p) then None
      else
        let low = range_low (node_of s p);
            high = range_high (node_of s p);
            curr_blocks = u64_add (u64_sub high low) 1
        in if curr_blocks \<le> n then
             (if 0 < btype \<and> curr_blocks < n then None
              else Some (nova_free_blocknode s p, drop_node E fl p, low, curr_blocks))
           else if from_tail = ALLOC_FROM_HEAD then
             Some (nova_update_range_node_checksum E p (set_low p (u64_add low n) s), fl, low, n)
           else
             Some (nova_update_range_node_checksum E p (set_high p (u64_sub high n) s), fl,
                   u64_sub (u64_add high 1) n, n))"

fun alloc_loop ::
    "nova_env \<Rightarrow> slab \<Rightarrow> free_list \<Rightarrow> ptr list \<Rightarrow> nat \<Rightarrow> nat \<Rightarrow> nova_alloc_direction
     \<Rightarrow> (slab \<times> free_list \<times> nat \<times> nat) option" where
  "alloc_loop E s fl [] btype n from_tail = None"
| "alloc_loop E s fl (p # ps) btype n from_tail =
     (case alloc_node E s fl p btype n from_tail of
        None \<Rightarrow> alloc_loop E s fl ps btype n from_tail
      | Some r \<Rightarrow> Some r)"

definition alloc_fallback ::
    "nova_env \<Rightarrow> slab \<Rightarrow> free_list \<Rightarrow> ptr list \<Rightarrow> nat \<Rightarrow> nat \<Rightarrow> nat \<Rightarrow> nova_alloc_direction
     \<Rightarrow> slab \<times> free_list \<times> nat \<times> nat res" where
  "alloc_fallback E s fl ps btype n new_blocknr from_tail =
     (case alloc_loop E s fl ps btype n from_tail of
        None \<Rightarrow> (s, fl, new_blocknr, Inl ENOSPC)
      | Some (s', fl', b, n') \<Rightarrow>
          if num_free_blocks fl' < n' then (s', fl', b, Inl ENOSPC)
          else (s', fl'\<lparr>num_free_blocks := u64_sub (num_free_blocks fl') n'\<rparr>, b, Inr n'))"

definition nova_alloc_blocks_in_free_list ::
    "nova_env \<Rightarrow> slab \<Rightarrow> free_list \<Rightarrow> nat \<Rightarrow> alloc_type \<Rightarrow> nat \<Rightarrow> nat
     \<Rightarrow> nova_alloc_direction \<Rightarrow> slab \<times> free_list \<times> nat \<times> nat res" where
  "nova_alloc_blocks_in_free_list E s fl btype atype n new_blocknr from_tail =
     (if first_node fl = None \<or> num_free_blocks fl = 0 then (s, fl, new_blocknr, Inl ENOSPC)
      else if atype = LOG \<and> not_enough_blocks s fl n atype then
        (s, fl, new_blocknr, Inl ENOSPC)
      else
        let temp = rb_walk from_tail fl in
        if n AND PAGES_PER_2MB_MASK = 0 \<and> atype = DATA then
          (case nova_alloc_superpage E s fl n new_blocknr from_tail of
             (s', fl', b, Inl EOOPS) \<Rightarrow> (s', fl', b, Inl EOOPS)
           | (s', fl', b, Inl e) \<Rightarrow> alloc_fallback E s' fl' temp btype n b from_tail
           | (s', fl', b, Inr m) \<Rightarrow>
               if 0 < m \<and> b \<noteq> 0
               then (s', fl'\<lparr>num_free_blocks := u64_sub (num_free_blocks fl') m\<rparr>, b, Inr m)
               else alloc_fallback E s' fl' temp btype n b from_tail)
        else alloc_fallback E s fl temp btype n new_blocknr from_tail)"

subsection \<open>Choosing a free list\<close>

text \<open>
  \<open>nova_get_candidate_free_list\<close> keeps the largest count in an \<^verbatim>\<open>int\<close>; the comparison converts
  it back to an unsigned long. The array has one list for every CPU.
\<close>

definition u64_of_int :: "int \<Rightarrow> nat" where
  "u64_of_int z = nat (z mod 2 ^ 64)"

fun candidate_loop :: "free_list list \<Rightarrow> nat \<Rightarrow> nat \<Rightarrow> int \<Rightarrow> nat" where
  "candidate_loop [] i cpuid max_free = cpuid"
| "candidate_loop (fl # fls) i cpuid max_free =
     (if u64_of_int max_free < num_free_blocks fl
      then candidate_loop fls (Suc i) i (s32_of (num_free_blocks fl))
      else candidate_loop fls (Suc i) cpuid max_free)"

definition nova_get_candidate_free_list :: "sb_info \<Rightarrow> nat" where
  "nova_get_candidate_free_list sbi = candidate_loop (free_lists sbi) 0 0 0"

text \<open>The retries of \<open>nova_new_blocks\<close>; the third list found short of blocks is used anyway.\<close>

fun pick_free_list :: "sb_info \<Rightarrow> nat \<Rightarrow> alloc_type \<Rightarrow> nat \<Rightarrow> int \<Rightarrow> (int \<times> free_list) res" where
  "pick_free_list sbi n atype retries cpuid =
     (case nova_get_free_list sbi cpuid of
        Inl e \<Rightarrow> Inl e
      | Inr fl \<Rightarrow>
          if not_enough_blocks (nodes sbi) fl n atype then
            (case retries of
               0 \<Rightarrow> Inr (cpuid, fl)
             | Suc r \<Rightarrow>
                 pick_free_list sbi n atype r (int (nova_get_candidate_free_list sbi)))
          else Inr (cpuid, fl))"

definition ANY_CPU :: int where "ANY_CPU = 65536"

definition alloc_stats :: "alloc_type \<Rightarrow> nat \<Rightarrow> free_list \<Rightarrow> free_list" where
  "alloc_stats atype n fl =
     (if atype = LOG
      then fl\<lparr>alloc_log_count := u64_add (alloc_log_count fl) 1,
              alloc_log_pages := u64_add (alloc_log_pages fl) n\<rparr>
      else fl\<lparr>alloc_data_count := u64_add (alloc_data_count fl) 1,
              alloc_data_pages := u64_add (alloc_data_pages fl) n\<rparr>)"

definition nova_new_blocks ::
    "nova_env \<Rightarrow> nat \<Rightarrow> sb_info \<Rightarrow> nat \<Rightarrow> nat \<Rightarrow> bool \<Rightarrow> alloc_type \<Rightarrow> int
     \<Rightarrow> nova_alloc_direction \<Rightarrow> sb_info \<times> (nat \<times> int) res" where
  "nova_new_blocks E smp sbi num btype zero atype cpuid from_tail =
     (let n = u64_mul num (nova_get_numblocks btype) in
      if n = 0 then (sbi, Inl EINVAL)
      else
        let cpuid = (if cpuid = ANY_CPU then int (nova_get_cpuid smp sbi) else cpuid) in
        case pick_free_list sbi n atype 2 cpuid of
          Inl e \<Rightarrow> (sbi, Inl e)
        | Inr (cpu, fl) \<Rightarrow>
            (case nova_alloc_blocks_in_free_list E (nodes sbi) fl btype atype n 0 from_tail of
               (s, fl', new_blocknr, Inl EOOPS) \<Rightarrow> (set_free_list cpu fl' s sbi, Inl EOOPS)
             | (s, fl', new_blocknr, Inl e) \<Rightarrow> (set_free_list cpu fl' s sbi, Inl ENOSPC)
             | (s, fl', new_blocknr, Inr ret_blocks) \<Rightarrow>
                 let fl'' = (if 0 < ret_blocks then alloc_stats atype ret_blocks fl' else fl');
                     sbi' = set_free_list cpu fl'' s sbi
                 in if ret_blocks = 0 \<or> new_blocknr = 0 then (sbi', Inl ENOSPC)
                    else
                      let sbi'' =
                        (if zero
                         then sbi'\<lparr>pmem := memset_nt (nova_get_block_off new_blocknr) 0
                                             (u64_mul PAGE_SIZE ret_blocks) (pmem sbi')\<rparr>
                         else sbi')
                      in (sbi'', Inr (new_blocknr,
                                      s32_of (ret_blocks div nova_get_numblocks btype)))))"

definition nova_new_data_blocks ::
    "nova_env \<Rightarrow> nat \<Rightarrow> sb_info \<Rightarrow> nat \<Rightarrow> nat \<Rightarrow> bool \<Rightarrow> int \<Rightarrow> nova_alloc_direction
     \<Rightarrow> sb_info \<times> (nat \<times> int) res" where
  "nova_new_data_blocks E smp sbi btype num zero cpu from_tail =
     nova_new_blocks E smp sbi num btype zero DATA cpu from_tail"

definition nova_new_log_blocks ::
    "nova_env \<Rightarrow> nat \<Rightarrow> sb_info \<Rightarrow> nat \<Rightarrow> nat \<Rightarrow> bool \<Rightarrow> int \<Rightarrow> nova_alloc_direction
     \<Rightarrow> sb_info \<times> (nat \<times> int) res" where
  "nova_new_log_blocks E smp sbi btype num zero cpu from_tail =
     nova_new_blocks E smp sbi num btype zero LOG cpu from_tail"

definition nova_count_free_blocks :: "sb_info \<Rightarrow> nat" where
  "nova_count_free_blocks sbi = foldl (\<lambda>n fl. u64_add n (num_free_blocks fl)) 0 (free_lists sbi)"

declare pick_free_list.simps [simp del]

end
