(* ===== verification/Balloc_Inv.thy ===== *)
theory Balloc_Inv
  imports Balloc
begin

text \<open>
  Correctness of the block allocator. A free list stands for the set of its free blocks
  (\<open>free_set\<close>); \<open>free_list_inv\<close> ties the tree, the cached first and last node and the two
  counters together. All updates of a list are instances of one lemma: a run of neighbouring
  nodes is replaced by another run that stays between the same neighbours
  (\<open>free_list_replace\<close>).
\<close>

subsection \<open>The invariant of a free list\<close>

definition fl_nodes :: "free_list \<Rightarrow> ptr list" where
  "fl_nodes fl = inorder (block_free_tree fl)"

definition free_set :: "slab \<Rightarrow> free_list \<Rightarrow> nat set" where
  "free_set s fl = tree_blocks s (block_free_tree fl)"

definition free_list_inv :: "nova_env \<Rightarrow> slab \<Rightarrow> free_list \<Rightarrow> bool" where
  "free_list_inv E s fl \<longleftrightarrow>
     nodes_inv E s (fl_nodes fl) \<and>
     first_node fl = hd_option (fl_nodes fl) \<and>
     last_node fl = last_option (fl_nodes fl) \<and>
     num_blocknode fl = length (fl_nodes fl) \<and>
     num_free_blocks fl = total_size (map (span s) (fl_nodes fl)) \<and>
     free_set s fl \<subseteq> {block_start fl..block_end fl} \<and>
     block_end fl < 2 ^ 32"

text \<open>An update of the slab that leaves the nodes in \<open>A\<close> alone.\<close>

definition agree :: "slab \<Rightarrow> slab \<Rightarrow> ptr set \<Rightarrow> bool" where
  "agree s s' A \<longleftrightarrow> (\<forall>q \<in> A. node_of s' q = node_of s q \<and> q \<in> live s')"

lemma free_set_blocks: "free_set s fl = blocks_of (map (span s) (fl_nodes fl))"
  by (simp add: free_set_def tree_blocks_def fl_nodes_def)

lemma agree_span: "agree s s' A \<Longrightarrow> q \<in> A \<Longrightarrow> span s' q = span s q"
  by (simp add: agree_def span_def)

lemma agree_subset: "agree s s' A \<Longrightarrow> B \<subseteq> A \<Longrightarrow> agree s s' B"
  by (auto simp: agree_def)

lemma agree_trans: "agree s s' A \<Longrightarrow> agree s' s'' A \<Longrightarrow> agree s s'' A"
  by (simp add: agree_def)

lemma agree_map_span: "agree s s' (set ps) \<Longrightarrow> map (span s') ps = map (span s) ps"
  by (auto simp: agree_span)

lemma nodes_inv_agree: "nodes_inv E s ps \<Longrightarrow> agree s s' (set ps) \<Longrightarrow> nodes_inv E s' ps"
  by (rule nodes_inv_cong [where s = s]) (auto simp: agree_def span_def node_ok_def)

lemma nodes_inv_replace:
  assumes "nodes_inv E s (xs @ ps @ ys)" "agree s s' (set xs \<union> set ys)" "nodes_inv E s' qs"
    and "set qs \<inter> (set xs \<union> set ys) = {}"
    and "\<forall>x \<in> set xs. \<forall>q \<in> set qs. snd (span s x) < fst (span s' q)"
    and "\<forall>q \<in> set qs. \<forall>y \<in> set ys. snd (span s' q) < fst (span s y)"
  shows "nodes_inv E s' (xs @ qs @ ys)"
proof -
  have "nodes_inv E s' xs" "nodes_inv E s' ys"
    using assms(1,2) nodes_inv_agree [of E s xs s'] nodes_inv_agree [of E s ys s']
    by (auto simp: nodes_inv_append agree_def)
  moreover have "span s' q = span s q" if "q \<in> set xs \<union> set ys" for q
    using assms(2) that by (rule agree_span)
  ultimately show ?thesis
    using assms(1,3-6) by (auto simp: nodes_inv_append)
qed

lemma nodes_inv_apart:
  assumes "nodes_inv E s (xs @ ps @ ys)"
  shows "blocks_of (map (span s) ps) \<inter> blocks_of (map (span s) (xs @ ys)) = {}"
proof (rule ccontr)
  assume "\<not> ?thesis"
  then obtain b p q where b: "p \<in> set ps" "q \<in> set xs \<union> set ys"
    "fst (span s p) \<le> b" "b \<le> snd (span s p)" "fst (span s q) \<le> b" "b \<le> snd (span s q)"
    unfolding disjoint_iff in_blocks_of_map set_append by blast
  have "snd (span s q) < fst (span s p) \<or> snd (span s p) < fst (span s q)"
    using assms b(1,2) by (auto simp: nodes_inv_append)
  then show False using b by linarith
qed

text \<open>
  What a step of a free list leaves alone: nodes outside \<open>A\<close>, and the bounds of the list. The
  nodes it uses afterwards are in \<open>A\<close>, and no other node is allocated.
\<close>

definition list_step ::
    "nova_env \<Rightarrow> ptr set \<Rightarrow> slab \<Rightarrow> free_list \<Rightarrow> slab \<Rightarrow> free_list \<Rightarrow> bool" where
  "list_step E A s fl s' fl' \<longleftrightarrow>
     free_list_inv E s' fl' \<and> agree s s' (live s - A) \<and> set (fl_nodes fl') \<subseteq> A \<and>
     live s' \<subseteq> live s \<union> A \<and> (finite (live s) \<longrightarrow> finite (live s')) \<and>
     block_start fl' = block_start fl \<and> block_end fl' = block_end fl"

text \<open>
  Replacing the run \<open>ps\<close> of neighbouring nodes by \<open>qs\<close>: the new list has the invariant when its
  fields are those of the new sequence, and its blocks change by exactly the blocks of the two
  runs.
\<close>

lemma free_list_replace:
  assumes inv: "free_list_inv E s fl" and fl: "fl_nodes fl = xs @ ps @ ys"
    and fl': "fl_nodes fl' = xs @ qs @ ys"
    and A: "set (fl_nodes fl) \<union> set qs \<subseteq> A" "live s' \<subseteq> live s \<union> A"
      "finite (live s) \<longrightarrow> finite (live s')"
    and slab: "agree s s' (live s - (set ps \<union> set qs))" "nodes_inv E s' qs"
      "set qs \<inter> (set xs \<union> set ys) = {}"
      "\<forall>x \<in> set xs. \<forall>q \<in> set qs. snd (span s x) < fst (span s' q)"
      "\<forall>q \<in> set qs. \<forall>y \<in> set ys. snd (span s' q) < fst (span s y)"
    and fields: "first_node fl' = hd_option (xs @ qs @ ys)"
      "last_node fl' = last_option (xs @ qs @ ys)"
      "num_blocknode fl' = length (xs @ qs @ ys)"
      "num_free_blocks fl' + total_size (map (span s) ps) =
         num_free_blocks fl + total_size (map (span s') qs)"
      "block_start fl' = block_start fl" "block_end fl' = block_end fl"
    and bounds: "blocks_of (map (span s') qs) \<subseteq> {block_start fl..block_end fl}"
  shows "list_step E A s fl s' fl' \<and>
    free_set s' fl' = free_set s fl - blocks_of (map (span s) ps) \<union> blocks_of (map (span s') qs)"
proof -
  have old: "nodes_inv E s (xs @ ps @ ys)" using inv fl by (simp add: free_list_inv_def)
  then have agr: "agree s s' (set xs \<union> set ys)"
    using slab(1,3) by (elim agree_subset) (auto simp: nodes_inv_def)
  have new: "nodes_inv E s' (xs @ qs @ ys)"
    using old agr slab(2-) by (rule nodes_inv_replace)
  have same: "map (span s') xs = map (span s) xs" "map (span s') ys = map (span s) ys"
    using agree_span [OF agr] by auto
  have "blocks_of (map (span s) ps) \<inter> blocks_of (map (span s) (xs @ ys)) = {}"
    using old by (rule nodes_inv_apart)
  then have set_eq: "free_set s' fl' =
      free_set s fl - blocks_of (map (span s) ps) \<union> blocks_of (map (span s') qs)"
    by (auto simp: free_set_blocks fl fl' range_simps same)
  moreover have "free_list_inv E s' fl'"
    using inv new fields bounds set_eq
    by (auto simp: free_list_inv_def fl fl' range_simps same)
  moreover have "agree s s' (live s - A)" "set (fl_nodes fl') \<subseteq> A"
    using slab(1) A by (auto simp: fl fl' elim: agree_subset)
  ultimately show ?thesis
    using A(2,3) fields(5,6) by (simp add: list_step_def)
qed

subsection \<open>Bounds\<close>

lemma free_list_node:
  assumes "free_list_inv E s fl" "p \<in> set (fl_nodes fl)"
  shows "fst (span s p) \<le> snd (span s p)" "block_start fl \<le> fst (span s p)"
    "snd (span s p) \<le> block_end fl" "snd (span s p) < 2 ^ 32" "p \<in> live s" "node_ok E s p"
    "{fst (span s p)..snd (span s p)} \<subseteq> free_set s fl"
proof -
  have "ranges_ok (map (span s) (fl_nodes fl))"
    using assms(1) by (simp add: free_list_inv_def nodes_inv_def)
  then show le: "fst (span s p) \<le> snd (span s p)"
    using assms(2) ranges_ok_le [of _ "span s p"] by simp
  show sub: "{fst (span s p)..snd (span s p)} \<subseteq> free_set s fl"
    using assms(2) by (auto simp: free_set_blocks in_blocks_of_map)
  have "free_set s fl \<subseteq> {block_start fl..block_end fl}" "block_end fl < 2 ^ 32"
    using assms(1) by (auto simp: free_list_inv_def)
  moreover from this sub have "{fst (span s p)..snd (span s p)} \<subseteq> {block_start fl..block_end fl}"
    by blast
  ultimately show "block_start fl \<le> fst (span s p)" "snd (span s p) \<le> block_end fl"
    "snd (span s p) < 2 ^ 32" using le by auto
  show "p \<in> live s" "node_ok E s p"
    using assms by (auto simp: free_list_inv_def nodes_inv_def list_all_iff)
qed

lemma free_list_counts:
  assumes "free_list_inv E s fl"
  shows "num_free_blocks fl = card (free_set s fl)"
    "num_free_blocks fl \<le> 2 ^ 32" "num_blocknode fl \<le> 2 ^ 32"
proof -
  have ok: "ranges_ok (map (span s) (fl_nodes fl))"
    using assms by (simp add: free_list_inv_def nodes_inv_def)
  show card: "num_free_blocks fl = card (free_set s fl)"
    using assms card_blocks_of [OF ok] by (simp add: free_list_inv_def free_set_blocks)
  have "free_set s fl \<subseteq> {..<2 ^ 32}" using assms by (auto simp: free_list_inv_def)
  then have "card (free_set s fl) \<le> 2 ^ 32"
    using card_mono [of "{..<2 ^ 32 :: nat}"] by auto
  then show "num_free_blocks fl \<le> 2 ^ 32" using card by simp
  then show "num_blocknode fl \<le> 2 ^ 32"
    using length_le_total [OF ok] assms by (simp add: free_list_inv_def)
qed

lemma free_list_pos:
  assumes "free_list_inv E s fl" "fl_nodes fl \<noteq> []"
  shows "0 < num_free_blocks fl"
proof -
  have "length (fl_nodes fl) \<le> num_free_blocks fl" "0 < length (fl_nodes fl)"
    using assms length_le_total [of "map (span s) (fl_nodes fl)"]
    by (simp_all add: free_list_inv_def nodes_inv_def)
  then show ?thesis by linarith
qed

lemma free_list_inv_distinct: "free_list_inv E s fl \<Longrightarrow> distinct (fl_nodes fl)"
  by (simp add: free_list_inv_def nodes_inv_def)

subsection \<open>Freeing into a list\<close>

lemma free_found_simps [simp]:
  "block_free_tree (free_found l n fl) = block_free_tree fl"
  "first_node (free_found l n fl) = first_node fl"
  "last_node (free_found l n fl) = last_node fl"
  "num_blocknode (free_found l n fl) = num_blocknode fl"
  "block_start (free_found l n fl) = block_start fl"
  "block_end (free_found l n fl) = block_end fl"
  "num_free_blocks (free_found l n fl) = u64_add (num_free_blocks fl) n"
  "fl_nodes (free_found l n fl) = fl_nodes fl"
  by (simp_all add: free_found_def Let_def fl_nodes_def)

lemma requests_simps [simp]:
  "requests (set_low p v s) = requests s"
  "requests (set_high p v s) = requests s"
  "requests (nova_update_range_node_checksum E p s) = requests s"
  "requests (nova_free_range_node s p) = requests s"
  by (simp_all add: set_low_def set_high_def nova_update_range_node_checksum_def
      nova_free_range_node_def)

lemma alloc_blocknode_total:
  assumes "kmem_zalloc E (requests s) (live s) \<noteq> None"
  obtains s1 p where "nova_alloc_blocknode E s = (s1, Some p)"
  using assms by (auto simp: nova_alloc_blocknode_def nova_alloc_range_node_def Let_def)

lemma node_of_simps [simp]:
  "q \<noteq> p \<Longrightarrow> node_of (set_low p v s) q = node_of s q"
  "q \<noteq> p \<Longrightarrow> node_of (set_high p v s) q = node_of s q"
  "q \<noteq> p \<Longrightarrow> node_of (nova_update_range_node_checksum E p s) q = node_of s q"
  "node_of (nova_free_range_node s p) q = node_of s q"
  by (simp_all add: set_low_def set_high_def nova_update_range_node_checksum_def
      nova_free_range_node_def)

lemma free_merge:
  assumes lib: "rb_lib_ok E" and inv: "free_list_inv E s fl"
    and fl: "fl_nodes fl = xs @ p # q # ys"
    and gap: "snd (span s p) + 1 + n = fst (span s q)" "0 < n"
    and s': "s' = nova_free_blocknode (nova_update_range_node_checksum E p
               (set_high p (snd (span s q)) s)) q"
    and fl': "fl' = free_found l n (fl\<lparr>block_free_tree := rb_erase E q (block_free_tree fl),
                num_blocknode := u64_sub (num_blocknode fl) 1,
                last_node := (if last_node fl = Some q then Some p else last_node fl)\<rparr>)"
  shows "list_step E (set (fl_nodes fl)) s fl s' fl' \<and>
         free_set s' fl' = free_set s fl \<union> {snd (span s p) + 1..<fst (span s q)}"
proof -
  have dist: "distinct (xs @ p # q # ys)" using inv fl free_list_inv_distinct by metis
  have p: "p \<in> set (fl_nodes fl)" and q: "q \<in> set (fl_nodes fl)" by (simp_all add: fl)
  note p = free_list_node [OF inv p] and q = free_list_node [OF inv q]
  note cnt = free_list_counts [OF inv]
  have nodes': "fl_nodes fl' = xs @ [p] @ ys"
    using rb_erase_inorder [OF lib, of "block_free_tree fl" "xs @ [p]" q ys] dist fl
    by (simp add: fl' fl_nodes_def)
  have spans: "span s' p = (fst (span s p), snd (span s q))" "p \<in> live s'" "node_ok E s' p"
    using dist p by (auto simp: s' nova_free_blocknode_def)
  have agr: "agree s s' (live s - {p, q})"
    by (auto simp: agree_def s' nova_free_blocknode_def)
  have old: "nodes_inv E s (xs @ p # q # ys)" using inv fl by (simp add: free_list_inv_def)
  have "list_step E (set (fl_nodes fl)) s fl s' fl' \<and> free_set s' fl' =
      free_set s fl - blocks_of (map (span s) [p, q]) \<union> blocks_of (map (span s') [p])"
  proof (rule free_list_replace [OF inv _ nodes'])
    show "num_free_blocks fl' + total_size (map (span s) [p, q]) =
        num_free_blocks fl + total_size (map (span s') [p])"
      using cnt gap p(1) q(1) q(4) by (simp add: fl' range_simps range_size_def spans)
    show "last_node fl' = last_option (xs @ [p] @ ys)"
      using inv dist by (auto simp: fl' free_list_inv_def fl end_options dest: last_option_in)
    show "num_blocknode fl' = length (xs @ [p] @ ys)"
      using inv cnt(3) by (simp add: fl' free_list_inv_def fl)
  qed (use inv agr old dist p q spans in \<open>auto simp: fl fl' free_list_inv_def nodes_inv_append nodes_inv_simps s' nova_free_blocknode_def end_options range_simps\<close>)
  moreover have "{fst (span s p)..snd (span s q)} = {fst (span s p)..snd (span s p)} \<union>
      {snd (span s p) + 1..<fst (span s q)} \<union> {fst (span s q)..snd (span s q)}"
    using gap p(1) q(1) by auto
  ultimately show ?thesis
    using p(7) q(7) by (auto simp: range_simps spans)
qed

text \<open>A node that grows or shrinks in place.\<close>

lemma resize_node:
  assumes inv: "free_list_inv E s fl" and fl: "fl_nodes fl = xs @ p # ys"
    and s': "agree s s' (live s - {p})" "live s' = live s" "node_ok E s' p" "span s' p = (l, h)"
    and lh: "l \<le> h" "\<forall>x \<in> set xs. snd (span s x) < l" "\<forall>y \<in> set ys. h < fst (span s y)"
      "block_start fl \<le> l" "h \<le> block_end fl"
    and fl': "fl_nodes fl' = fl_nodes fl" "first_node fl' = first_node fl"
      "last_node fl' = last_node fl" "num_blocknode fl' = num_blocknode fl"
      "block_start fl' = block_start fl" "block_end fl' = block_end fl"
      "num_free_blocks fl' + range_size (span s p) = num_free_blocks fl + range_size (l, h)"
  shows "list_step E (set (fl_nodes fl)) s fl s' fl' \<and>
         free_set s' fl' = free_set s fl - {fst (span s p)..snd (span s p)} \<union> {l..h}"
proof -
  have nodes: "nodes_inv E s (xs @ p # ys)" using inv fl by (simp add: free_list_inv_def)
  have "list_step E (set (fl_nodes fl)) s fl s' fl' \<and> free_set s' fl' =
      free_set s fl - blocks_of (map (span s) [p]) \<union> blocks_of (map (span s') [p])"
  proof (rule free_list_replace [OF inv, of xs _ ys])
    show "agree s s' (live s - (set [p] \<union> set [p]))" using s'(1) by simp
    show "nodes_inv E s' [p]"
      using s' lh nodes by (auto simp: nodes_inv_simps nodes_inv_append)
  qed (use inv s' lh fl' nodes in
      \<open>auto simp: fl free_list_inv_def nodes_inv_append nodes_inv_simps range_simps end_options\<close>)
  then show ?thesis by (simp add: s' range_simps)
qed

lemma insert_node:
  assumes lib: "rb_lib_ok E" and inv: "free_list_inv E s fl" and fl: "fl_nodes fl = xs @ ys"
    and cur: "cur \<in> live s" "cur \<notin> set (fl_nodes fl)"
    and lh: "l \<le> h" "\<forall>x \<in> set xs. snd (span s x) < l" "\<forall>y \<in> set ys. h < fst (span s y)"
      "block_start fl \<le> l" "h \<le> block_end fl"
    and s': "s' = nova_update_range_node_checksum E cur (set_high cur h (set_low cur l s))"
  shows "\<exists>t'. nova_insert_blocktree E s' (block_free_tree fl) cur = Inr t' \<and>
    inorder t' = xs @ cur # ys \<and>
    (\<forall>fl'. block_free_tree fl' = t' \<longrightarrow>
       first_node fl' = hd_option (xs @ cur # ys) \<longrightarrow>
       last_node fl' = last_option (xs @ cur # ys) \<longrightarrow>
       num_blocknode fl' = num_blocknode fl + 1 \<longrightarrow>
       block_start fl' = block_start fl \<longrightarrow> block_end fl' = block_end fl \<longrightarrow>
       num_free_blocks fl' = num_free_blocks fl + range_size (l, h) \<longrightarrow>
       list_step E (insert cur (set (fl_nodes fl))) s fl s' fl' \<and>
       free_set s' fl' = free_set s fl \<union> {l..h})"
proof -
  have nodes: "nodes_inv E s (xs @ ys)" using inv fl by (simp add: free_list_inv_def)
  have spans: "span s' q = (if q = cur then (l, h) else span s q)" for q by (simp add: s')
  have agr: "agree s s' (live s - {cur})" "live s' = live s" "node_ok E s' cur"
    by (auto simp: s' agree_def)
  have map_eq: "map (span s') (xs @ ys) = map (span s) (xs @ ys)"
    using cur fl by (auto simp: spans)
  have low: "range_low (node_of s' cur) = l" using spans [of cur] by (simp add: span_def)
  have "\<exists>t'. nova_insert_range_node E s' (block_free_tree fl) cur NODE_BLOCK = Inr t' \<and>
      inorder t' = xs @ cur # ys"
  proof (rule insert_range_node_fits [OF lib])
    show "inorder (block_free_tree fl) = xs @ ys" using fl by (simp add: fl_nodes_def)
    show "ranges_ok (map (span s') (inorder (block_free_tree fl)))"
      using nodes fl by (simp add: nodes_inv_def fl_nodes_def map_eq del: map_append)
    show "\<forall>p \<in> set xs. snd (span s' p) < range_low (node_of s' cur)"
      "\<forall>p \<in> set ys. range_low (node_of s' cur) < fst (span s' p)"
      using lh cur fl by (auto simp: low spans)
  qed simp
  then obtain t' where t': "nova_insert_blocktree E s' (block_free_tree fl) cur = Inr t'"
    "inorder t' = xs @ cur # ys" by (auto simp: nova_insert_blocktree_def)
  moreover have "list_step E (insert cur (set (fl_nodes fl))) s fl s' fl' \<and>
      free_set s' fl' = free_set s fl - blocks_of (map (span s) []) \<union> blocks_of (map (span s') [cur])"
    if "block_free_tree fl' = t'" "first_node fl' = hd_option (xs @ cur # ys)"
      "last_node fl' = last_option (xs @ cur # ys)" "num_blocknode fl' = num_blocknode fl + 1"
      "block_start fl' = block_start fl" "block_end fl' = block_end fl"
      "num_free_blocks fl' = num_free_blocks fl + range_size (l, h)" for fl'
  proof (rule free_list_replace [OF inv, of xs _ ys])
    show "fl_nodes fl' = xs @ [cur] @ ys" using that(1) t' by (simp add: fl_nodes_def)
  qed (use that inv agr lh nodes cur in \<open>auto simp: fl free_list_inv_def
        nodes_inv_append nodes_inv_simps range_simps spans\<close>)
  ultimately show ?thesis
    by (intro exI [of _ t']) (simp add: range_simps spans)
qed

lemma grow_high:
  assumes inv: "free_list_inv E s fl" and fl: "fl_nodes fl = xs @ p # ys"
    and n: "0 < n" "snd (span s p) + n \<le> block_end fl"
      "\<forall>y \<in> set ys. snd (span s p) + n < fst (span s y)"
    and s': "s' = nova_update_range_node_checksum E p (set_high p (snd (span s p) + n) s)"
  shows "list_step E (set (fl_nodes fl)) s fl s' (free_found l n fl) \<and>
         free_set s' (free_found l n fl) =
           free_set s fl \<union> {snd (span s p) + 1..<snd (span s p) + 1 + n}"
proof -
  have "p \<in> set (fl_nodes fl)" by (simp add: fl)
  note p = free_list_node [OF inv this] and cnt = free_list_counts [OF inv]
  have nodes: "nodes_inv E s (xs @ p # ys)" using inv fl by (simp add: free_list_inv_def)
  have "list_step E (set (fl_nodes fl)) s fl s' (free_found l n fl) \<and>
      free_set s' (free_found l n fl) = free_set s fl - {fst (span s p)..snd (span s p)} \<union>
        {fst (span s p)..snd (span s p) + n}"
    by (rule resize_node [OF inv fl])
      (use p n cnt nodes inv in \<open>auto simp: s' agree_def range_size_def nodes_inv_append
        nodes_inv_simps free_list_inv_def\<close>)
  moreover have "{fst (span s p)..snd (span s p) + n} = {fst (span s p)..snd (span s p)} \<union>
      {snd (span s p) + 1..<snd (span s p) + 1 + n}" using p(1) by auto
  ultimately show ?thesis using p(7) by auto
qed

lemma grow_low:
  assumes inv: "free_list_inv E s fl" and fl: "fl_nodes fl = xs @ p # ys"
    and n: "0 < n" "block_start fl + n \<le> fst (span s p)"
      "\<forall>x \<in> set xs. snd (span s x) < fst (span s p) - n"
    and s': "s' = nova_update_range_node_checksum E p (set_low p (fst (span s p) - n) s)"
  shows "list_step E (set (fl_nodes fl)) s fl s' (free_found l n fl) \<and>
         free_set s' (free_found l n fl) =
           free_set s fl \<union> {fst (span s p) - n..<fst (span s p)}"
proof -
  have "p \<in> set (fl_nodes fl)" by (simp add: fl)
  note p = free_list_node [OF inv this] and cnt = free_list_counts [OF inv]
  have nodes: "nodes_inv E s (xs @ p # ys)" using inv fl by (simp add: free_list_inv_def)
  have "list_step E (set (fl_nodes fl)) s fl s' (free_found l n fl) \<and>
      free_set s' (free_found l n fl) = free_set s fl - {fst (span s p)..snd (span s p)} \<union>
        {fst (span s p) - n..snd (span s p)}"
    by (rule resize_node [OF inv fl])
      (use p n cnt nodes inv in \<open>auto simp: s' agree_def range_size_def nodes_inv_append
        nodes_inv_simps free_list_inv_def\<close>)
  moreover have "{fst (span s p) - n..snd (span s p)} = {fst (span s p)..snd (span s p)} \<union>
      {fst (span s p) - n..<fst (span s p)}" using p(1) by auto
  ultimately show ?thesis using p(7) by auto
qed

lemma list_step_mono: "list_step E A s fl s' fl' \<Longrightarrow> A \<subseteq> B \<Longrightarrow> list_step E B s fl s' fl'"
  by (auto simp: list_step_def agree_def)

definition freed_ok ::
    "nova_env \<Rightarrow> slab \<Rightarrow> free_list \<Rightarrow> ptr \<Rightarrow> nat set \<Rightarrow> slab \<times> free_list \<times> bool \<times> unit res \<Rightarrow> bool"
  where
  "freed_ok E s fl cur B r \<longleftrightarrow>
     (case r of (s', fl', used, ret) \<Rightarrow>
        ret = Inr () \<and> list_step E (insert cur (set (fl_nodes fl))) s fl s' fl' \<and>
        free_set s' fl' = free_set s fl \<union> B \<and> used = (cur \<in> set (fl_nodes fl')))"

lemma freed_ok_old:
  assumes "cur \<notin> set (fl_nodes fl)"
    and "list_step E (set (fl_nodes fl)) s fl s' fl' \<and> free_set s' fl' = free_set s fl \<union> B"
  shows "freed_ok E s fl cur B (s', fl', False, Inr ())"
proof -
  have "list_step E (insert cur (set (fl_nodes fl))) s fl s' fl'"
    using assms(2) by (auto intro: list_step_mono)
  then show ?thesis using assms by (auto simp: freed_ok_def list_step_def)
qed

lemma nodes_last_gap:
  assumes "nodes_inv E s xs" "\<forall>p \<in> set xs. snd (span s p) < b"
  shows "(\<exists>us p. xs = us @ [p] \<and> b = snd (span s p) + 1) \<or>
         (\<forall>x \<in> set xs. snd (span s x) + 1 < b)"
  using assms by (cases xs rule: rev_cases) (force simp: nodes_inv_append nodes_inv_simps)+

lemma nodes_first_gap:
  assumes "nodes_inv E s ys" "\<forall>p \<in> set ys. e \<le> fst (span s p)"
  shows "(\<exists>q vs. ys = q # vs \<and> e = fst (span s q)) \<or> (\<forall>y \<in> set ys. e < fst (span s y))"
  using assms by (cases ys) (force simp: nodes_inv_simps)+

text \<open>The slot the search finds, and what the four branches of the code ask of it.\<close>

lemma free_slot:
  assumes inv: "free_list_inv E s fl" and b: "0 < n" "block_start fl \<le> b" "b + n \<le> block_end fl + 1"
    and disj: "{b..<b + n} \<inter> free_set s fl = {}"
  obtains xs ys where "fl_nodes fl = xs @ ys" "\<forall>p \<in> set xs. snd (span s p) < b"
    "\<forall>p \<in> set ys. b + n \<le> fst (span s p)"
    "nova_find_free_slot E s (block_free_tree fl) b (b + n - 1) = Inr (last_option xs, hd_option ys)"
proof -
  have le: "b \<le> b + n - 1" and "{b..b + n - 1} = {b..<b + n}" using b by auto
  then have disj': "{b..b + n - 1} \<inter> tree_blocks s (block_free_tree fl) = {}"
    using disj by (simp add: free_set_def)
  have "tree_inv E s (block_free_tree fl)"
    using inv by (simp add: tree_inv_def free_list_inv_def fl_nodes_def)
  from find_free_slot_ok [OF this le disj'] obtain xs ys where
    "fl_nodes fl = xs @ ys" "\<forall>p \<in> set xs. snd (span s p) < b"
    "\<forall>p \<in> set ys. b + n - 1 < fst (span s p)"
    "nova_find_free_slot E s (block_free_tree fl) b (b + n - 1) = Inr (last_option xs, hd_option ys)"
    by (auto simp: fl_nodes_def)
  then show thesis by (intro that [of xs ys]) auto
qed

text \<open>The four branches of \<open>free_at_slot\<close>, one lemma each.\<close>

lemmas at_slot_unfold = free_at_slot_def Let_def simp_thms if_True if_False

lemma aligns_iff:
  assumes inv: "free_list_inv E s fl" and b: "0 < n" "b + n \<le> block_end fl + 1"
  shows "p \<in> set (fl_nodes fl) \<Longrightarrow> aligns_left s (Some p) b = (b = snd (span s p) + 1)"
    "aligns_right s (Some q) (b + n - 1) = (b + n = fst (span s q))"
    "aligns_left s None b = False" "aligns_right s None h = False"
proof -
  have be: "block_end fl < 2 ^ 32" using inv by (simp add: free_list_inv_def)
  show "aligns_right s (Some q) (b + n - 1) = (b + n = fst (span s q))"
    using b be by (simp add: aligns_right_def span_low_high)
  show "aligns_left s (Some p) b = (b = snd (span s p) + 1)" if "p \<in> set (fl_nodes fl)"
    using free_list_node(4) [OF inv that] by (simp add: aligns_left_def span_low_high)
qed (simp_all add: aligns_left_def aligns_right_def)

lemma free_at_slot_merge:
  assumes lib: "rb_lib_ok E" and inv: "free_list_inv E s fl" and cur: "cur \<notin> set (fl_nodes fl)"
    and fl: "fl_nodes fl = us @ p # q # vs" and b: "0 < n" "b + n \<le> block_end fl + 1"
    and gap: "b = snd (span s p) + 1" "b + n = fst (span s q)"
  shows "freed_ok E s fl cur {b..<b + n}
           (free_at_slot E s fl cur b (b + n - 1) n lp (Some p) (Some q))"
proof -
  have al: "aligns_left s (Some p) b = True" "aligns_right s (Some q) (b + n - 1) = True"
    unfolding aligns_iff(2) [OF inv b] using aligns_iff(1) [OF inv b, of p] gap fl by auto
  show ?thesis unfolding at_slot_unfold al option.sel span_low_high
    using free_merge [OF lib inv fl _ b(1) refl refl] gap by (intro freed_ok_old [OF cur]) simp
qed

lemma free_at_slot_left:
  assumes inv: "free_list_inv E s fl" and cur: "cur \<notin> set (fl_nodes fl)"
    and fl: "fl_nodes fl = us @ p # ys" and b: "0 < n" "b + n \<le> block_end fl + 1"
    and gap: "b = snd (span s p) + 1" "\<forall>y \<in> set ys. b + n < fst (span s y)"
  shows "freed_ok E s fl cur {b..<b + n}
           (free_at_slot E s fl cur b (b + n - 1) n lp (Some p) (hd_option ys))"
proof -
  have be: "block_end fl < 2 ^ 32" using inv by (simp add: free_list_inv_def)
  have al: "aligns_left s (Some p) b = True" "aligns_right s (hd_option ys) (b + n - 1) = False"
    using aligns_iff(1,2,4) [OF inv b] gap fl by (cases ys; force)+
  have high: "u64_add (snd (span s p)) n = snd (span s p) + n" using b gap be by simp
  have "\<forall>y \<in> set ys. snd (span s p) + n < fst (span s y)" using gap by auto
  from grow_high [OF inv fl b(1) _ this refl, of lp] b gap show ?thesis
    unfolding at_slot_unfold al option.sel span_low_high high
    by (intro freed_ok_old [OF cur]) simp
qed

lemma free_at_slot_right:
  assumes inv: "free_list_inv E s fl" and cur: "cur \<notin> set (fl_nodes fl)"
    and fl: "fl_nodes fl = xs @ q # vs"
    and b: "0 < n" "b + n \<le> block_end fl + 1" "block_start fl \<le> b"
    and gap: "b + n = fst (span s q)" "\<forall>x \<in> set xs. snd (span s x) + 1 < b"
  shows "freed_ok E s fl cur {b..<b + n}
           (free_at_slot E s fl cur b (b + n - 1) n lp (last_option xs) (Some q))"
proof -
  have al: "aligns_left s (last_option xs) b = False" "aligns_right s (Some q) (b + n - 1) = True"
    unfolding aligns_iff(2) [OF inv b(1,2)]
    using aligns_iff(1,3) [OF inv b(1,2)] gap fl by (cases xs rule: rev_cases; force)+
  have q: "q \<in> set (fl_nodes fl)" by (simp add: fl)
  have bq: "fst (span s q) - n = b" using gap by auto
  have low: "u64_sub (fst (span s q)) n = b"
    using gap free_list_node(1,4) [OF inv q] bq by simp
  have "\<forall>x \<in> set xs. snd (span s x) < fst (span s q) - n" using gap by auto
  from grow_low [OF inv fl b(1) _ this refl, of lp] b gap show ?thesis
    unfolding at_slot_unfold al option.sel span_low_high low bq
    by (intro freed_ok_old [OF cur]) simp
qed

lemma free_at_slot_new:
  assumes lib: "rb_lib_ok E" and inv: "free_list_inv E s fl"
    and cur: "cur \<in> live s" "cur \<notin> set (fl_nodes fl)" and fl: "fl_nodes fl = xs @ ys"
    and b: "0 < n" "b + n \<le> block_end fl + 1" "block_start fl \<le> b"
    and gap: "\<forall>x \<in> set xs. snd (span s x) + 1 < b" "\<forall>y \<in> set ys. b + n < fst (span s y)"
  shows "freed_ok E s fl cur {b..<b + n}
           (free_at_slot E s fl cur b (b + n - 1) n lp (last_option xs) (hd_option ys))"
proof -
  have al: "aligns_left s (last_option xs) b = False"
    using aligns_iff(1,3) [OF inv b(1,2)] gap fl by (cases xs rule: rev_cases; force)
  have ar: "aligns_right s (hd_option ys) (b + n - 1) = False"
    using aligns_iff(2,4) [OF inv b(1,2)] gap fl by (cases ys; force)
  let ?s = "nova_update_range_node_checksum E cur (set_high cur (b + n - 1) (set_low cur b s))"
  have "b \<le> b + n - 1" "\<forall>x \<in> set xs. snd (span s x) < b"
    "\<forall>y \<in> set ys. b + n - 1 < fst (span s y)" "b + n - 1 \<le> block_end fl"
    "range_size (b, b + n - 1) = n" "{b..b + n - 1} = {b..<b + n}"
    using b gap by (auto simp: range_size_def)
  from insert_node [OF lib inv fl cur this(1-3) b(3) this(4) refl, unfolded this(5,6)]
  obtain t' where t': "nova_insert_blocktree E ?s (block_free_tree fl) cur = Inr t'"
    "inorder t' = xs @ cur # ys" and
    step: "\<And>fl'. block_free_tree fl' = t' \<Longrightarrow> first_node fl' = hd_option (xs @ cur # ys) \<Longrightarrow>
     last_node fl' = last_option (xs @ cur # ys) \<Longrightarrow> num_blocknode fl' = num_blocknode fl + 1 \<Longrightarrow>
     block_start fl' = block_start fl \<Longrightarrow> block_end fl' = block_end fl \<Longrightarrow>
     num_free_blocks fl' = num_free_blocks fl + n \<Longrightarrow>
     list_step E (insert cur (set (fl_nodes fl))) s fl ?s fl' \<and>
     free_set ?s fl' = free_set s fl \<union> {b..<b + n}"
    by blast
  have ends: "first_node fl = hd_option (xs @ ys)" "last_node fl = last_option (xs @ ys)"
    and be: "block_end fl < 2 ^ 32" using inv fl by (simp_all add: free_list_inv_def)
  have n: "num_free_blocks fl + n < 2 ^ 64" "num_blocknode fl + 1 < 2 ^ 64"
    using free_list_counts [OF inv] b be by simp_all
  show ?thesis unfolding at_slot_unfold al ar t' sum.case freed_ok_def prod.case
    using ends t'(2) n
    by (intro conjI step [THEN conjunct1] step [THEN conjunct2])
      (auto simp: fl_nodes_def end_options)
qed

lemma free_in_list_ok:
  assumes lib: "rb_lib_ok E" and inv: "free_list_inv E s fl"
    and cur: "cur \<in> live s" "cur \<notin> set (fl_nodes fl)"
    and b: "0 < n" "num \<le> n" "block_start fl \<le> b" "b + n \<le> block_end fl + 1"
      "{b..<b + n} \<inter> free_set s fl = {}"
  shows "freed_ok E s fl cur {b..<b + n} (free_in_list E s fl cur b num n lp)"
proof -
  have be: "block_end fl < 2 ^ 32" using inv by (simp add: free_list_inv_def)
  have u64: "u64_sub (u64_add b n) 1 = b + n - 1"
    "\<not> u64_add (block_end fl) 1 < u64_add b num" using b be by auto
  obtain xs ys where fl: "fl_nodes fl = xs @ ys" and xs: "\<forall>p \<in> set xs. snd (span s p) < b"
    and ys: "\<forall>p \<in> set ys. b + n \<le> fst (span s p)"
    and slot: "nova_find_free_slot E s (block_free_tree fl) b (b + n - 1) =
                 Inr (last_option xs, hd_option ys)"
    using free_slot [OF inv b(1,3,4,5)] .
  have eq: "free_in_list E s fl cur b num n lp =
      free_at_slot E s fl cur b (b + n - 1) n lp (last_option xs) (hd_option ys)"
    unfolding free_in_list_def Let_def u64(1) slot using b(3) u64(2) by simp
  have nodes: "nodes_inv E s xs" "nodes_inv E s ys"
    using inv fl by (auto simp: free_list_inv_def nodes_inv_append)
  consider (merge) us p q vs where "xs = us @ [p]" "b = snd (span s p) + 1"
      "ys = q # vs" "b + n = fst (span s q)"
    | (left) us p where "xs = us @ [p]" "b = snd (span s p) + 1"
      "\<forall>y \<in> set ys. b + n < fst (span s y)"
    | (right) q vs where "ys = q # vs" "b + n = fst (span s q)"
      "\<forall>x \<in> set xs. snd (span s x) + 1 < b"
    | (alone) "\<forall>x \<in> set xs. snd (span s x) + 1 < b" "\<forall>y \<in> set ys. b + n < fst (span s y)"
    using nodes_last_gap [OF nodes(1) xs] nodes_first_gap [OF nodes(2) ys] by blast
  then show ?thesis unfolding eq
    by cases (use fl free_at_slot_merge [OF lib inv cur(2) _ b(1,4)]
        free_at_slot_left [OF inv cur(2) _ b(1,4)]
        free_at_slot_right [OF inv cur(2) _ b(1,4,3)]
        free_at_slot_new [OF lib inv cur fl b(1,4,3)] in auto)
qed

subsection \<open>Allocating from a list\<close>

text \<open>
  A range \<open>{b..<b + m}\<close> taken out of a list; the count of free blocks is lowered after the
  loops, so the statement is about the list with the lowered count.
\<close>

definition taken_ok ::
    "nova_env \<Rightarrow> ptr set \<Rightarrow> slab \<Rightarrow> free_list \<Rightarrow> slab \<Rightarrow> free_list \<Rightarrow> nat \<Rightarrow> nat \<Rightarrow> bool" where
  "taken_ok E A s fl s' fl' b m \<longleftrightarrow>
     0 < m \<and> {b..<b + m} \<subseteq> free_set s fl \<and> num_free_blocks fl' = num_free_blocks fl \<and>
     list_step E A s fl s' (fl'\<lparr>num_free_blocks := num_free_blocks fl - m\<rparr>) \<and>
     free_set s' fl' = free_set s fl - {b..<b + m}"

lemma free_set_cong [simp]: "free_set s (fl\<lparr>num_free_blocks := k\<rparr>) = free_set s fl"
  by (simp add: free_set_def)

lemma fl_nodes_cong [simp]: "fl_nodes (fl\<lparr>num_free_blocks := k\<rparr>) = fl_nodes fl"
  by (simp add: fl_nodes_def)

lemma drop_node_simps [simp]:
  "block_free_tree (drop_node E fl p) = rb_erase E p (block_free_tree fl)"
  "num_blocknode (drop_node E fl p) = u64_sub (num_blocknode fl) 1"
  "num_free_blocks (drop_node E fl p) = num_free_blocks fl"
  "block_start (drop_node E fl p) = block_start fl"
  "block_end (drop_node E fl p) = block_end fl"
  "first_node (drop_node E fl p) =
     (if first_node fl = Some p then rb_next p (block_free_tree fl) else first_node fl)"
  "last_node (drop_node E fl p) =
     (if last_node fl = Some p then rb_prev p (block_free_tree fl) else last_node fl)"
  by (simp_all add: drop_node_def Let_def)

lemma interval_sub: "l \<le> h \<Longrightarrow> {l..h} = {l..<l + (Suc h - l)}" for l h :: nat
  by auto

lemma drop_node_ok:
  assumes lib: "rb_lib_ok E" and inv: "free_list_inv E s fl" and p: "p \<in> set (fl_nodes fl)"
  shows "taken_ok E (set (fl_nodes fl)) s fl (nova_free_blocknode s p) (drop_node E fl p)
           (fst (span s p)) (range_size (span s p))"
proof -
  note node = free_list_node [OF inv p] and cnt = free_list_counts [OF inv]
  obtain xs ys where fl: "fl_nodes fl = xs @ p # ys" using split_list [OF p] by auto
  have dist: "distinct (xs @ p # ys)" using inv fl free_list_inv_distinct by metis
  have nodes: "nodes_inv E s (xs @ p # ys)" using inv fl by (simp add: free_list_inv_def)
  let ?fl = "(drop_node E fl p)\<lparr>num_free_blocks := num_free_blocks fl - range_size (span s p)\<rparr>"
  have walk: "rb_next p (block_free_tree fl) = hd_option ys"
    "rb_prev p (block_free_tree fl) = last_option xs"
    using dist fl next_in_append [of p xs ys] prev_in_append [of p ys xs]
    by (simp_all add: rb_next_def rb_prev_def fl_nodes_def)
  have le: "range_size (span s p) \<le> num_free_blocks fl"
    using inv p range_size_le_total [of "span s p"] by (simp add: free_list_inv_def)
  have "list_step E (set (fl_nodes fl)) s fl (nova_free_blocknode s p) ?fl \<and>
      free_set (nova_free_blocknode s p) ?fl =
        free_set s fl - blocks_of (map (span s) [p]) \<union>
        blocks_of (map (span (nova_free_blocknode s p)) [])"
  proof (rule free_list_replace [OF inv, of xs _ ys])
    show "fl_nodes ?fl = xs @ [] @ ys"
      using rb_erase_inorder [OF lib, of "block_free_tree fl" xs p ys] dist fl
      by (simp add: fl_nodes_def)
    show "first_node ?fl = hd_option (xs @ [] @ ys)" "last_node ?fl = last_option (xs @ [] @ ys)"
      using inv fl dist walk
      by (auto simp: free_list_inv_def end_options dest: hd_option_in last_option_in)
    show "num_blocknode ?fl = length (xs @ [] @ ys)"
      using inv fl cnt(3) by (simp add: free_list_inv_def)
    show "num_free_blocks ?fl + total_size (map (span s) [p]) =
        num_free_blocks fl + total_size (map (span (nova_free_blocknode s p)) [])"
      using le by (simp add: range_simps)
  qed (use nodes in \<open>auto simp: fl nova_free_blocknode_def agree_def nodes_inv_simps
        nodes_inv_append\<close>)
  then show ?thesis
    using node(1,7) interval_sub [OF node(1)]
    by (simp add: taken_ok_def range_size_def range_simps)
qed

lemma shrink_node:
  assumes inv: "free_list_inv E s fl" and p: "p \<in> set (fl_nodes fl)"
    and s': "agree s s' (live s - {p})" "live s' = live s" "node_ok E s' p" "span s' p = (l, h)"
    and lh: "l \<le> h" "fst (span s p) \<le> l" "h \<le> snd (span s p)"
    and m: "{fst (span s p)..snd (span s p)} - {l..h} = {b..<b + m}"
      "m + range_size (l, h) = range_size (span s p)" "0 < m"
  shows "taken_ok E (set (fl_nodes fl)) s fl s' fl b m"
proof -
  note node = free_list_node [OF inv p]
  obtain xs ys where fl: "fl_nodes fl = xs @ p # ys" using split_list [OF p] by auto
  have nodes: "nodes_inv E s (xs @ p # ys)" using inv fl by (simp add: free_list_inv_def)
  have "m \<le> num_free_blocks fl"
    using inv p m(2) range_size_le_total [of "span s p" "map (span s) (fl_nodes fl)"]
    by (simp add: free_list_inv_def)
  then have "list_step E (set (fl_nodes fl)) s fl s' (fl\<lparr>num_free_blocks := num_free_blocks fl - m\<rparr>) \<and>
      free_set s' (fl\<lparr>num_free_blocks := num_free_blocks fl - m\<rparr>) =
        free_set s fl - {fst (span s p)..snd (span s p)} \<union> {l..h}"
    by (intro resize_node [OF inv fl s' lh(1)])
      (use nodes lh m node in \<open>force simp: nodes_inv_append nodes_inv_simps\<close>)+
  moreover have "free_set s fl - {fst (span s p)..snd (span s p)} \<union> {l..h} = free_set s fl - {b..<b + m}"
    using m(1) node(7) lh by auto
  moreover have "{b..<b + m} \<subseteq> free_set s fl" using m(1) node(7) by blast
  ultimately show ?thesis using m(3) by (simp add: taken_ok_def)
qed

lemma alloc_node_ok:
  assumes lib: "rb_lib_ok E" and inv: "free_list_inv E s fl" and p: "p \<in> set (fl_nodes fl)"
    and n: "0 < n" and a: "alloc_node E s fl p btype n dir = Some (s', fl', b, m)"
  shows "taken_ok E (set (fl_nodes fl)) s fl s' fl' b m \<and> m \<le> n \<and> (0 < btype \<longrightarrow> m = n)"
proof -
  note node = free_list_node [OF inv p]
  let ?l = "fst (span s p)" and ?h = "snd (span s p)"
  have ok: "nova_range_node_checksum_ok E (node_of s p)" using node(6) by (simp add: node_ok_def)
  have size: "u64_add (u64_sub ?h ?l) 1 = range_size (span s p)"
    using node(1,4) by (simp add: range_size_def)
  note a = a [unfolded alloc_node_def Let_def span_low_high size]
  show ?thesis
  proof (cases "range_size (span s p) \<le> n")
    case True
    then have "s' = nova_free_blocknode s p" "fl' = drop_node E fl p" "b = ?l"
      "m = range_size (span s p)" "0 < btype \<longrightarrow> m = n"
      using a ok by (auto split: if_splits)
    then show ?thesis using True drop_node_ok [OF lib inv p] by simp
  next
    case False
    then have lt: "n < range_size (span s p)" by simp
    show ?thesis
    proof (cases "dir = ALLOC_FROM_HEAD")
      case True
      then have eq: "s' = nova_update_range_node_checksum E p (set_low p (u64_add ?l n) s)"
        "fl' = fl" "b = ?l" "m = n" using a ok lt by auto
      have low: "u64_add ?l n = ?l + n" using node(1,4) lt by (simp add: range_size_def)
      show ?thesis
        unfolding eq low by (intro conjI shrink_node [OF inv p, of _ "?l + n" ?h])
          (use lt n node(1) in \<open>auto simp: agree_def range_size_def\<close>)
    next
      case False
      then have eq: "s' = nova_update_range_node_checksum E p (set_high p (u64_sub ?h n) s)"
        "fl' = fl" "b = u64_sub (u64_add ?h 1) n" "m = n" using a ok lt by auto
      have high: "u64_sub ?h n = ?h - n" "u64_sub (u64_add ?h 1) n = ?h - n + 1"
        using node(1,4) lt by (auto simp: range_size_def)
      show ?thesis
        unfolding eq high by (intro conjI shrink_node [OF inv p, of _ ?l "?h - n"])
          (use lt n node(1) in \<open>auto simp: agree_def range_size_def\<close>)
    qed
  qed
qed

lemma alloc_loop_Some:
  "alloc_loop E s fl ps btype n dir = Some r \<Longrightarrow>
     \<exists>p \<in> set ps. alloc_node E s fl p btype n dir = Some r"
  by (induction ps) (auto split: option.splits)

lemma alloc_loop_None:
  "alloc_loop E s fl ps btype n dir = None \<longleftrightarrow>
     (\<forall>p \<in> set ps. alloc_node E s fl p btype n dir = None)"
  by (induction ps) (auto split: option.splits)

lemma walk_from_hd: "(case hd_option xs of None \<Rightarrow> [] | Some p \<Rightarrow> dropWhile (\<lambda>q. q \<noteq> p) xs) = xs"
  by (cases xs) auto

lemma rb_walk_all:
  assumes "free_list_inv E s fl"
  shows "rb_walk dir fl = (if dir = ALLOC_FROM_HEAD then fl_nodes fl else rev (fl_nodes fl))"
  using assms
  by (cases dir) (simp_all add: rb_walk_def free_list_inv_def Let_def last_option_def walk_from_hd
      fl_nodes_def [symmetric])

lemma set_rb_walk: "free_list_inv E s fl \<Longrightarrow> set (rb_walk dir fl) = set (fl_nodes fl)"
  by (simp add: rb_walk_all)

text \<open>The fallback allocation: what a success takes, and what a failure means.\<close>

lemma taken_ok_size:
  assumes "taken_ok E A s fl s' fl' b m" "free_list_inv E s fl"
  shows "m \<le> num_free_blocks fl" "u64_sub (num_free_blocks fl') m = num_free_blocks fl - m"
proof -
  have "card {b..<b + m} \<le> card (free_set s fl)"
    using assms(1) by (intro card_mono) (auto simp: taken_ok_def free_set_blocks)
  then show le: "m \<le> num_free_blocks fl" using free_list_counts(1) [OF assms(2)] by simp
  show "u64_sub (num_free_blocks fl') m = num_free_blocks fl - m"
    using assms(1) le free_list_counts(2) [OF assms(2)] by (simp add: taken_ok_def)
qed

definition alloc_ok ::
    "nova_env \<Rightarrow> ptr set \<Rightarrow> slab \<Rightarrow> free_list \<Rightarrow> nat \<Rightarrow> nat \<Rightarrow> slab \<times> free_list \<times> nat \<times> nat res
     \<Rightarrow> bool"
  where
  "alloc_ok E A s fl btype n r \<longleftrightarrow>
     (case r of
        (s', fl', b, Inr m) \<Rightarrow>
          0 < m \<and> m \<le> n \<and> {b..<b + m} \<subseteq> free_set s fl \<and>
          (0 < btype \<longrightarrow> 512 dvd n \<longrightarrow> 512 dvd m) \<and>
          list_step E A s fl s' fl' \<and> free_set s' fl' = free_set s fl - {b..<b + m}
      | (s', fl', b, Inl e) \<Rightarrow> e = ENOSPC \<and> s' = s \<and> fl' = fl)"

lemma alloc_fallback_ok:
  assumes lib: "rb_lib_ok E" and inv: "free_list_inv E s fl" and n: "0 < n"
    and ps: "set ps \<subseteq> set (fl_nodes fl)"
  shows "alloc_ok E (set (fl_nodes fl)) s fl btype n (alloc_fallback E s fl ps btype n b0 dir)"
proof (cases "alloc_loop E s fl ps btype n dir")
  case None
  then show ?thesis by (simp add: alloc_fallback_def alloc_ok_def)
next
  case (Some r)
  obtain s' fl' b m where r: "r = (s', fl', b, m)" by (cases r)
  obtain p where "p \<in> set ps" "alloc_node E s fl p btype n dir = Some (s', fl', b, m)"
    using alloc_loop_Some [OF Some] r by auto
  with alloc_node_ok [OF lib inv _ n] ps
  have ok: "taken_ok E (set (fl_nodes fl)) s fl s' fl' b m" "m \<le> n" "0 < btype \<longrightarrow> m = n"
    by blast+
  then show ?thesis
    using taken_ok_size [OF ok(1) inv] Some r
    by (auto simp: alloc_fallback_def alloc_ok_def taken_ok_def)
qed

lemma alloc_node_total:
  assumes "free_list_inv E s fl" "p \<in> set (fl_nodes fl)"
    and "0 < btype \<longrightarrow> n \<le> range_size (span s p)"
  shows "alloc_node E s fl p btype n dir \<noteq> None"
  using assms(3) free_list_node(1,4,6) [OF assms(1,2)]
  by (auto simp: alloc_node_def node_ok_def Let_def span_low_high range_size_def)

subsection \<open>Superpages\<close>

definition fresh_or :: "slab \<Rightarrow> free_list \<Rightarrow> ptr set" where
  "fresh_or s fl = set (fl_nodes fl) \<union> - live s"

definition left_margin_of :: "nat \<Rightarrow> nat" where
  "left_margin_of l = 512 - l mod 512"

lemma left_margin_bounds: "0 < left_margin_of l" "left_margin_of l \<le> 512"
  by (simp_all add: left_margin_of_def)

lemma left_margin_aligned: "512 dvd l + left_margin_of l"
proof -
  have "l + left_margin_of l = 512 * (l div 512) + 512"
    using mult_div_mod_eq [of 512 l] mod_less_divisor [of 512 l]
    unfolding left_margin_of_def by linarith
  then show ?thesis by simp
qed

lemma floor_2mb_props: "floor_2mb x \<le> x" "512 dvd floor_2mb x"
  by (simp_all add: floor_2mb_def PAGES_PER_2MB_MASK_def minus_mod_eq_mult_div)

text \<open>
  The state after a superpage is taken out of node \<open>p\<close>: the left margin stays in \<open>p\<close>, and a right
  margin, if there is one, moves to a new node.
\<close>

lemma superpage_split:
  assumes lib: "rb_lib_ok E" and kmem: "kmem_ok E" and inv: "free_list_inv E s fl"
    and p: "p \<in> set (fl_nodes fl)" "span s p = (l, h)"
    and b: "l < b" "0 < m" "b + m \<le> h"
    and s1: "s1 = nova_update_range_node_checksum E p (set_high p (b - 1) s)"
    and s2: "nova_alloc_blocknode E s1 = (s2, Some node)"
    and s3: "s3 = nova_update_range_node_checksum E node
               (set_high node h (set_low node (b + m) s2))"
    and fl': "fl' = fl\<lparr>block_free_tree :=
                  (case nova_insert_blocktree E s3 (block_free_tree fl) node of
                     Inl e \<Rightarrow> block_free_tree fl | Inr t' \<Rightarrow> t'),
                num_blocknode := u64_add (num_blocknode fl) 1,
                last_node := (if last_node fl = Some p then Some node else last_node fl)\<rparr>"
  shows "taken_ok E (fresh_or s fl) s fl s3 fl' b m"
proof -
  note nd = free_list_node [OF inv p(1)] and cnt = free_list_counts [OF inv]
  obtain xs ys where fl: "fl_nodes fl = xs @ p # ys" using split_list [OF p(1)] by auto
  have nodes: "nodes_inv E s (xs @ p # ys)" using inv fl by (simp add: free_list_inv_def)
  have live1: "live s1 = live s" by (simp add: s1)
  note al = alloc_range_node_Some [OF kmem s2 [unfolded nova_alloc_blocknode_def]]
  have fresh: "node \<notin> live s" "node \<notin> set (fl_nodes fl)" "live s3 = insert node (live s)"
    using al(1,3) inv by (auto simp: s3 live1 free_list_inv_def nodes_inv_def)
  have pn: "p \<noteq> node" using fresh p by auto
  have spans: "span s3 q = (if q = node then (b + m, h) else if q = p then (l, b - 1) else span s q)"
    for q using al(4) [of q] p(2) pn by (auto simp: s3 s1)
  have agr: "agree s s3 (live s - {p, node})" "node_ok E s3 p" "node_ok E s3 node"
    using al(6) al(5) [of p] fresh(3) pn by (auto simp: agree_def s3 s1)
  have lh: "l \<le> h" "h \<le> block_end fl" "block_start fl \<le> l" using nd p(2) by auto
  have nb: "snd (span s x) < l" if "x \<in> set xs" for x
    using nodes that p(2) by (auto simp: nodes_inv_append nodes_inv_simps)
  have na: "h < fst (span s y)" if "y \<in> set ys" for y
    using nodes that p(2) by (auto simp: nodes_inv_append nodes_inv_simps)
  have ne: "x \<noteq> node \<and> x \<noteq> p" if "x \<in> set xs \<union> set ys" for x
    using that fresh fl nodes by (auto simp: nodes_inv_append nodes_inv_simps)
  have na': "b - 1 < fst (span s y)" if "y \<in> set ys" for y using na [OF that] b by simp
  have na2: "b + m < fst (span s y)" if "y \<in> set ys" for y using na [OF that] b by simp
  have nb': "snd (span s x) < b + m" if "x \<in> set xs" for x using nb [OF that] b by simp
  have p3: "nodes_inv E s3 (xs @ [p] @ ys)"
  proof (rule nodes_inv_replace [where s = s and ps = "[p]"])
    show "agree s s3 (set xs \<union> set ys)"
      using agr(1) ne nodes by (elim agree_subset) (auto simp: nodes_inv_def)
  qed (use nodes agr b nb na' ne pn lh nd(5) fresh(3) in \<open>auto simp: spans nodes_inv_simps\<close>)
  have "\<exists>t'. nova_insert_blocktree E s3 (block_free_tree fl) node = Inr t' \<and>
      inorder t' = (xs @ [p]) @ node # ys" unfolding nova_insert_blocktree_def
  proof (rule insert_range_node_fits [OF lib])
    show "inorder (block_free_tree fl) = (xs @ [p]) @ ys" using fl by (simp add: fl_nodes_def)
    show "ranges_ok (map (span s3) (inorder (block_free_tree fl)))"
      using p3 fl by (simp add: nodes_inv_def fl_nodes_def)
  qed (use b nb' na2 ne lh pn in \<open>auto simp: spans span_low_high\<close>)
  then obtain t' where t': "nova_insert_blocktree E s3 (block_free_tree fl) node = Inr t'"
    "inorder t' = xs @ [p, node] @ ys" by auto
  have le: "range_size (l, h) \<le> num_free_blocks fl"
    using inv p range_size_le_total [of "span s p" "map (span s) (fl_nodes fl)"]
    by (auto simp: free_list_inv_def rev_image_eqI)
  let ?fl = "fl'\<lparr>num_free_blocks := num_free_blocks fl - m\<rparr>"
  have "list_step E (fresh_or s fl) s fl s3 ?fl \<and> free_set s3 ?fl =
      free_set s fl - blocks_of (map (span s) [p]) \<union> blocks_of (map (span s3) [p, node])"
  proof (rule free_list_replace [OF inv, of xs _ ys])
    show "fl_nodes ?fl = xs @ [p, node] @ ys" by (simp add: fl_nodes_def fl' t')
    show "num_free_blocks ?fl + total_size (map (span s) [p]) =
        num_free_blocks fl + total_size (map (span s3) [p, node])"
      using le p b pn by (simp add: range_simps spans range_size_def)
    show "num_blocknode ?fl = length (xs @ [p, node] @ ys)"
      using inv fl cnt(3) by (simp add: fl' free_list_inv_def)
    show "first_node ?fl = hd_option (xs @ [p, node] @ ys)"
      "last_node ?fl = last_option (xs @ [p, node] @ ys)"
      using inv fl ne by (auto simp: fl' free_list_inv_def end_options dest: last_option_in)
    show "set [p, node] \<inter> (set xs \<union> set ys) = {}" using ne by fastforce
    show "nodes_inv E s3 [p, node]"
      using agr b pn lh nd(5) fresh(3) by (auto simp: spans nodes_inv_simps)
  qed (use agr fresh fl b nb na nb' na' ne pn lh in
      \<open>auto simp: fl' fresh_or_def spans range_simps insert_commute\<close>)
  moreover have "{l..h} = {l..b - 1} \<union> {b..<b + m} \<union> {b + m..h}" using b by auto
  ultimately show ?thesis
    using nd(7) p(2) pn b by (auto simp: taken_ok_def range_simps spans fl')
qed

text \<open>The margins of a node as the loop computes them, with the wrap-around resolved.\<close>

lemma superpage_margins:
  assumes "l \<le> h" "h < 2 ^ 32"
  shows "u64_add (u64_sub h l) 1 = Suc h - l"
    "u32_trunc (PAGES_PER_2MB - (l AND PAGES_PER_2MB_MASK)) = left_margin_of l"
    "left_margin_of l < Suc h - l \<Longrightarrow> u64_sub (Suc h - l) (left_margin_of l) = Suc h - (l + left_margin_of l)"
    "u64_add l (left_margin_of l) = l + left_margin_of l"
    "u64_sub (l + left_margin_of l) 1 = l + left_margin_of l - 1"
  using assms left_margin_bounds [of l]
  by (simp_all add: PAGES_PER_2MB_def PAGES_PER_2MB_MASK_def left_margin_of_def)

lemma superpage_size_props:
  "0 < n \<Longrightarrow> 0 < superpage_size a n" "superpage_size a n \<le> n"
  "512 dvd n \<Longrightarrow> 512 dvd superpage_size a n"
  "a < superpage_size a n \<Longrightarrow> superpage_size a n = n"
  using floor_2mb_props [of a] by (auto simp: superpage_size_def)

lemma superpage_node_cases:
  assumes p: "node_ok E s p" "span s p = (l, h)" "l \<le> h" "h < 2 ^ 32" and n: "n < 2 ^ 63"
  obtains "superpage_node E s fl p n = SpNext n"
  | m where "0 < n \<longrightarrow> 0 < m" "m \<le> n" "512 dvd n \<longrightarrow> 512 dvd m" "l + left_margin_of l + m \<le> Suc h"
      "superpage_node E s fl p n =
         superpage_take E s fl p (left_margin_of l) (Suc h - (l + left_margin_of l + m)) m"
proof -
  have ok: "nova_range_node_checksum_ok E (node_of s p)" using p(1) by (simp add: node_ok_def)
  have low: "range_low (node_of s p) = l" "range_high (node_of s p) = h"
    using p(2) by (simp_all add: span_def)
  note mar = superpage_margins [OF p(3,4)] and lb = left_margin_bounds [of l]
  let ?L = "left_margin_of l" and ?size = "Suc h - l"
  let ?m = "superpage_size (u64_sub ?size ?L) n"
  have node: "superpage_node E s fl p n =
      (if ?L < ?size \<and> ?m \<le> u64_sub ?size ?L
       then superpage_take E s fl p ?L (u32_trunc (u64_sub (u64_sub ?size ?L) ?m)) ?m
       else SpNext ?m)"
    using ok by (simp only: superpage_node_def low mar(1,2) Let_def simp_thms if_False)
  show thesis
  proof (cases "?L < ?size")
    case True
    note sub = mar(3) [OF True]
    show thesis
    proof (cases "?m \<le> u64_sub ?size ?L")
      case True
      then have "l + ?L + ?m \<le> Suc h" using \<open>?L < ?size\<close> sub by simp
      moreover from this have "u32_trunc (u64_sub (u64_sub ?size ?L) ?m) = Suc h - (l + ?L + ?m)"
        using p(4) lb sub by simp
      ultimately show thesis
        using that(2) [of ?m] superpage_size_props node True \<open>?L < ?size\<close> by simp
    next
      case False
      then show thesis using that(1) node superpage_size_props(4) [of "u64_sub ?size ?L" n] by simp
    qed
  next
    case False
    then have "?m = n"
    proof (cases "?size = ?L")
      case True
      then show ?thesis using p by (simp add: superpage_size_def floor_2mb_def)
    next
      case neq: False
      then have "u64_sub ?size ?L = 2 ^ 64 - (?L - ?size)"
        using False lb by (intro u64_sub_wrap) auto
      moreover have "2 ^ 63 \<le> 2 ^ 64 - (?L - ?size)" using lb(2) by simp
      ultimately have "\<not> u64_sub ?size ?L < n" using n by linarith
      then show ?thesis by (simp only: superpage_size_def if_False)
    qed
    then show thesis using that(1) node False by simp
  qed
qed

lemma superpage_node_ok:
  assumes lib: "rb_lib_ok E" and kmem: "kmem_ok E" and inv: "free_list_inv E s fl"
    and p: "p \<in> set (fl_nodes fl)" and n: "0 < n" "n < 2 ^ 63"
  shows "case superpage_node E s fl p n of
           SpNext n' \<Rightarrow> n' = n
         | SpNoMem s' fl' b \<Rightarrow> kmem_zalloc E (requests s) (live s) = None
         | SpFound s' fl' b m \<Rightarrow>
             taken_ok E (fresh_or s fl) s fl s' fl' b m \<and> m \<le> n \<and> 512 dvd b \<and>
             (512 dvd n \<longrightarrow> 512 dvd m)
         | SpOops \<Rightarrow> False"
proof -
  note nd = free_list_node [OF inv p]
  obtain l h where span: "span s p = (l, h)" by fastforce
  have lh: "l \<le> h" "h < 2 ^ 32" using nd span by auto
  have low: "range_low (node_of s p) = l" "range_high (node_of s p) = h"
    using span by (simp_all add: span_def)
  note mar = superpage_margins [OF lh] and lb = left_margin_bounds [of l]
  note take_unf = superpage_take_def Let_def low mar(4,5)
  from nd(6) span lh n(2) show ?thesis
  proof (cases rule: superpage_node_cases [where fl = fl])
    case 1
    then show ?thesis by simp
  next
    case (2 m)
    let ?b = "l + left_margin_of l"
    let ?s1 = "nova_update_range_node_checksum E p (set_high p (?b - 1) s)"
    have b: "512 dvd ?b" by (rule left_margin_aligned)
    have bm: "u64_add ?b m = ?b + m" using 2(4) lh by simp
    show ?thesis
    proof (cases "?b + m = Suc h")
      case True
      have "taken_ok E (set (fl_nodes fl)) s fl ?s1 fl ?b m"
        by (rule shrink_node [OF inv p, of _ l "?b - 1"])
          (use span True n 2 lb in \<open>auto simp: agree_def range_size_def\<close>)
      then have "taken_ok E (fresh_or s fl) s fl ?s1 fl ?b m"
        by (auto simp: taken_ok_def fresh_or_def elim: list_step_mono)
      moreover have "superpage_node E s fl p n = SpFound ?s1 fl ?b m"
        using True lb(1) by (simp add: 2(5) [unfolded take_unf])
      ultimately show ?thesis using 2 b by simp
    next
      case False
      then have le: "?b + m \<le> h" using 2(4) by simp
      obtain s2 r where s2: "nova_alloc_blocknode E ?s1 = (s2, r)" by fastforce
      show ?thesis
      proof (cases r)
        case None
        then have "superpage_node E s fl p n = SpNoMem s2 fl ?b"
          using le lb(1) s2 by (simp add: 2(5) [unfolded take_unf])
        moreover have "kmem_zalloc E (requests s) (live s) = None"
          using s2 None by (simp add: nova_alloc_blocknode_def nova_alloc_range_node_def Let_def
              split: option.splits)
        ultimately show ?thesis by simp
      next
        case (Some node)
        note s2 = s2 [unfolded Some]
        let ?s3 = "nova_update_range_node_checksum E node
            (set_high node h (set_low node (?b + m) s2))"
        let ?fl = "fl\<lparr>block_free_tree :=
            (case nova_insert_blocktree E ?s3 (block_free_tree fl) node of
               Inl e \<Rightarrow> block_free_tree fl | Inr t' \<Rightarrow> t'),
            num_blocknode := u64_add (num_blocknode fl) 1,
            last_node := (if last_node fl = Some p then Some node else last_node fl)\<rparr>"
        have "taken_ok E (fresh_or s fl) s fl ?s3 ?fl ?b m"
          by (rule superpage_split [OF lib kmem inv p span _ _ le refl s2 refl refl])
            (use lb n 2 in auto)
        moreover have "superpage_node E s fl p n = SpFound ?s3 ?fl ?b m"
          using le lb(1) s2 bm by (simp add: 2(5) [unfolded take_unf] split del: if_split)
        ultimately show ?thesis using 2 b by simp
      qed
    qed
  qed
qed

lemma superpage_loop_ok:
  assumes lib: "rb_lib_ok E" and kmem: "kmem_ok E" and inv: "free_list_inv E s fl"
    and ps: "set ps \<subseteq> set (fl_nodes fl)" and n: "0 < n" "n < 2 ^ 63"
  shows "case superpage_loop E s fl ps n of
           SpNext n' \<Rightarrow> n' = n
         | SpNoMem s' fl' b \<Rightarrow> kmem_zalloc E (requests s) (live s) = None
         | SpFound s' fl' b m \<Rightarrow>
             taken_ok E (fresh_or s fl) s fl s' fl' b m \<and> m \<le> n \<and> 512 dvd b \<and>
             (512 dvd n \<longrightarrow> 512 dvd m)
         | SpOops \<Rightarrow> False"
  using ps
proof (induction ps)
  case Nil
  then show ?case by simp
next
  case (Cons p ps)
  then show ?case
    using superpage_node_ok [OF lib kmem inv _ n, of p]
    by (cases "superpage_node E s fl p n") auto
qed

lemma alloc_ok_mono: "alloc_ok E A s fl t n r \<Longrightarrow> A \<subseteq> B \<Longrightarrow> alloc_ok E B s fl t n r"
  by (auto simp: alloc_ok_def elim: list_step_mono split: sum.splits)

lemma taken_pos:
  assumes "taken_ok E A s fl s' fl' b m" "512 dvd b" "free_list_inv E s fl" "b \<noteq> 0 \<or> block_start fl > 0"
  shows "b \<noteq> 0"
proof -
  have "b \<in> free_set s fl" using assms(1) by (auto simp: taken_ok_def)
  then show ?thesis using assms(3,4) by (auto simp: free_list_inv_def)
qed

text \<open>
  Every allocation from a list takes a range of free blocks out of it and nothing else, or fails
  with \<^verbatim>\<open>ENOSPC\<close> and changes nothing, as long as the node for a right margin can be allocated.
\<close>

lemma alloc_in_free_list_ok:
  assumes lib: "rb_lib_ok E" and kmem: "kmem_ok E" and inv: "free_list_inv E s fl"
    and n: "0 < n" "n < 2 ^ 63" and start: "0 < block_start fl"
    and mem: "512 dvd n \<longrightarrow> atype = DATA \<longrightarrow> kmem_zalloc E (requests s) (live s) \<noteq> None"
  shows "alloc_ok E (fresh_or s fl) s fl btype n
           (nova_alloc_blocks_in_free_list E s fl btype atype n b0 dir)"
proof -
  let ?ps = "rb_walk dir fl"
  have ps: "set ?ps \<subseteq> set (fl_nodes fl)" using set_rb_walk [OF inv] by simp
  have fallback: "alloc_ok E (fresh_or s fl) s fl btype n (alloc_fallback E s fl ?ps btype n b dir)" for b
    using alloc_fallback_ok [OF lib inv n(1) ps] by (rule alloc_ok_mono) (auto simp: fresh_or_def)
  have and_dvd: "n AND PAGES_PER_2MB_MASK = 0 \<longleftrightarrow> 512 dvd n"
    by (simp add: PAGES_PER_2MB_MASK_def dvd_eq_mod_eq_0)
  have enospc: "alloc_ok E (fresh_or s fl) s fl btype n (s, fl, b, Inl ENOSPC)" for b
    by (simp add: alloc_ok_def)
  show ?thesis
  proof (cases "512 dvd n \<and> atype = DATA")
    case False
    then show ?thesis
      using fallback enospc unfolding nova_alloc_blocks_in_free_list_def and_dvd Let_def by auto
  next
    case True
    have "alloc_ok E (fresh_or s fl) s fl btype n
        (case nova_alloc_superpage E s fl n b0 dir of
             (s', fl', b, Inl EOOPS) \<Rightarrow> (s', fl', b, Inl EOOPS)
           | (s', fl', b, Inl e) \<Rightarrow> alloc_fallback E s' fl' ?ps btype n b dir
           | (s', fl', b, Inr m) \<Rightarrow>
               if 0 < m \<and> b \<noteq> 0
               then (s', fl'\<lparr>num_free_blocks := u64_sub (num_free_blocks fl') m\<rparr>, b, Inr m)
               else alloc_fallback E s' fl' ?ps btype n b dir)"
    proof (cases "superpage_loop E s fl ?ps n")
      case (SpNext n')
      then show ?thesis using fallback by (simp add: nova_alloc_superpage_def)
    next
      case (SpFound s' fl' b m)
      have tk: "taken_ok E (fresh_or s fl) s fl s' fl' b m" "m \<le> n" "512 dvd b"
        "512 dvd n \<longrightarrow> 512 dvd m"
        using superpage_loop_ok [OF lib kmem inv ps n] SpFound by auto
      then show ?thesis
        using taken_ok_size [OF tk(1) inv] taken_pos [OF tk(1,3) inv] start SpFound
        by (auto simp: nova_alloc_superpage_def alloc_ok_def taken_ok_def)
    qed (use superpage_loop_ok [OF lib kmem inv ps n] mem True in auto)
    then show ?thesis
      using enospc True unfolding nova_alloc_blocks_in_free_list_def and_dvd Let_def
      by (simp del: neq0_conv)
  qed
qed

text \<open>A data allocation of ordinary blocks succeeds whenever the list has a block.\<close>

lemma alloc_fallback_total:
  assumes lib: "rb_lib_ok E" and inv: "free_list_inv E s fl" and n: "0 < n"
    and ps: "set ps = set (fl_nodes fl)" "fl_nodes fl \<noteq> []"
  shows "\<exists>m. snd (snd (snd (alloc_fallback E s fl ps 0 n b0 dir))) = Inr m"
proof -
  have "alloc_loop E s fl ps 0 n dir \<noteq> None"
    using ps alloc_node_total [OF inv, of _ 0] by (auto simp: alloc_loop_None) (metis hd_in_set)
  then obtain s' fl' b m where r: "alloc_loop E s fl ps 0 n dir = Some (s', fl', b, m)" by auto
  then obtain p where "p \<in> set (fl_nodes fl)" "alloc_node E s fl p 0 n dir = Some (s', fl', b, m)"
    using alloc_loop_Some [OF r] ps(1) by auto
  then have tk: "taken_ok E (set (fl_nodes fl)) s fl s' fl' b m"
    using alloc_node_ok [OF lib inv _ n] by blast
  then show ?thesis
    using taken_ok_size [OF tk inv] r by (auto simp: alloc_fallback_def taken_ok_def)
qed

lemma alloc_in_free_list_total:
  assumes lib: "rb_lib_ok E" and kmem: "kmem_ok E" and inv: "free_list_inv E s fl"
    and n: "0 < n" "n < 2 ^ 63" and start: "0 < block_start fl" and nonempty: "fl_nodes fl \<noteq> []"
    and mem: "kmem_zalloc E (requests s) (live s) \<noteq> None"
  shows "\<exists>m. snd (snd (snd (nova_alloc_blocks_in_free_list E s fl 0 DATA n b0 dir))) = Inr m"
proof -
  let ?ps = "rb_walk dir fl"
  note ps = set_rb_walk [OF inv, of dir]
  have fallback: "\<exists>m. snd (snd (snd (alloc_fallback E s fl ?ps 0 n b dir))) = Inr m" for b
    using alloc_fallback_total [OF lib inv n(1) ps nonempty] .
  have "0 < num_free_blocks fl" "first_node fl \<noteq> None"
    using free_list_pos [OF inv nonempty] inv nonempty by (auto simp: free_list_inv_def)
  moreover have "\<exists>m. snd (snd (snd (case nova_alloc_superpage E s fl n b0 dir of
             (s', fl', b, Inl EOOPS) \<Rightarrow> (s', fl', b, Inl EOOPS)
           | (s', fl', b, Inl e) \<Rightarrow> alloc_fallback E s' fl' ?ps 0 n b dir
           | (s', fl', b, Inr m) \<Rightarrow>
               if 0 < m \<and> b \<noteq> 0
               then (s', fl'\<lparr>num_free_blocks := u64_sub (num_free_blocks fl') m\<rparr>, b, Inr m)
               else alloc_fallback E s' fl' ?ps 0 n b dir))) = Inr m"
  proof (cases "superpage_loop E s fl ?ps n")
    case (SpNext n')
    then show ?thesis using fallback by (simp add: nova_alloc_superpage_def)
  next
    case (SpFound s' fl' b m)
    then have tk: "taken_ok E (fresh_or s fl) s fl s' fl' b m" "512 dvd b"
      using superpage_loop_ok [OF lib kmem inv _ n, of ?ps] ps by auto
    then show ?thesis
      using taken_pos [OF tk inv] start SpFound by (simp add: nova_alloc_superpage_def taken_ok_def)
  qed (use superpage_loop_ok [OF lib kmem inv _ n, of ?ps] ps mem in auto)
  ultimately show ?thesis using fallback
    by (simp add: nova_alloc_blocks_in_free_list_def Let_def del: neq0_conv)
qed

end
