(* ===== verification/Block_Store.thy ===== *)
theory Block_Store
  imports Nova_Prelude
begin

text \<open>
  What the rest of the file system relies on when it allocates and frees blocks: \<open>take\<close> hands
  out a range of free blocks and removes exactly that range from the free blocks, \<open>give\<close> returns
  a range that is not free, and both keep the invariant of the allocator. A range that was
  handed out lies in one home region, which is what makes it possible to return it.

  The lemmas are about a client that keeps a list of the ranges it was given, and takes and
  returns ranges in any order: the ranges it holds never overlap each other nor a free block, no
  block is lost, and returning everything restores the free blocks.
\<close>

datatype 'a client_op = Take 'a | Give nat

definition range_blocks :: "nat \<times> nat \<Rightarrow> nat set" where
  "range_blocks r = {fst r..<fst r + snd r}"

definition held_blocks :: "(nat \<times> nat) list \<Rightarrow> nat set" where
  "held_blocks hs = (\<Union>r \<in> set hs. range_blocks r)"

fun held_apart :: "(nat \<times> nat) list \<Rightarrow> bool" where
  "held_apart [] = True"
| "held_apart (r # rs) \<longleftrightarrow> range_blocks r \<inter> held_blocks rs = {} \<and> held_apart rs"

definition remove_nth :: "nat \<Rightarrow> 'a list \<Rightarrow> 'a list" where
  "remove_nth k xs = take k xs @ drop (Suc k) xs"

lemma held_blocks_simps [simp]:
  "held_blocks [] = {}"
  "held_blocks (r # rs) = range_blocks r \<union> held_blocks rs"
  "held_blocks (xs @ ys) = held_blocks xs \<union> held_blocks ys"
  by (auto simp: held_blocks_def)

lemma held_apart_append:
  "held_apart (xs @ ys) \<longleftrightarrow> held_apart xs \<and> held_apart ys \<and> held_blocks xs \<inter> held_blocks ys = {}"
  by (induction xs) auto

lemma held_split:
  assumes "k < length hs"
  shows "hs = take k hs @ hs ! k # drop (Suc k) hs"
  using assms by (rule id_take_nth_drop)

lemma held_remove_nth:
  assumes "k < length hs" "held_apart hs"
  shows "held_apart (remove_nth k hs)" "range_blocks (hs ! k) \<inter> held_blocks (remove_nth k hs) = {}"
    "held_blocks hs = range_blocks (hs ! k) \<union> held_blocks (remove_nth k hs)"
    "set (remove_nth k hs) \<subseteq> set hs"
proof -
  define xs ys where "xs = take k hs" and "ys = drop (Suc k) hs"
  have hs: "hs = xs @ hs ! k # ys" using held_split [OF assms(1)] by (simp add: xs_def ys_def)
  have rm: "remove_nth k hs = xs @ ys" by (simp add: remove_nth_def xs_def ys_def)
  have ap: "held_apart (xs @ hs ! k # ys)" using assms(2) hs by simp
  show "held_apart (remove_nth k hs)" "range_blocks (hs ! k) \<inter> held_blocks (remove_nth k hs) = {}"
    using ap unfolding rm by (auto simp: held_apart_append)
  show "held_blocks hs = range_blocks (hs ! k) \<union> held_blocks (remove_nth k hs)"
    unfolding rm by (subst hs) auto
  show "set (remove_nth k hs) \<subseteq> set hs" unfolding rm using arg_cong [OF hs, of set] by auto
qed

text \<open>A client that holds ranges, and its steps over the two operations of a store.\<close>

fun client_step ::
    "('a \<Rightarrow> 's \<Rightarrow> 's \<times> (nat \<times> nat) option) \<Rightarrow> (nat \<Rightarrow> nat \<Rightarrow> 's \<Rightarrow> 's \<times> bool) \<Rightarrow> 'a client_op
     \<Rightarrow> 's \<times> (nat \<times> nat) list \<Rightarrow> 's \<times> (nat \<times> nat) list" where
  "client_step take_op give_op (Take r) (s, hs) =
     (case take_op r s of (s', None) \<Rightarrow> (s', hs) | (s', Some x) \<Rightarrow> (s', x # hs))"
| "client_step take_op give_op (Give k) (s, hs) =
     (if k < length hs
      then (fst (give_op (fst (hs ! k)) (snd (hs ! k)) s), remove_nth k hs) else (s, hs))"

locale block_store =
  fixes inv :: "'s \<Rightarrow> bool" and free :: "'s \<Rightarrow> nat set" and home :: "'s \<Rightarrow> nat \<Rightarrow> nat \<Rightarrow> bool"
    and take_op :: "'a \<Rightarrow> 's \<Rightarrow> 's \<times> (nat \<times> nat) option"
    and give_op :: "nat \<Rightarrow> nat \<Rightarrow> 's \<Rightarrow> 's \<times> bool"
  assumes take_inv: "inv s \<Longrightarrow> inv (fst (take_op r s))"
    and take_home: "inv s \<Longrightarrow> home (fst (take_op r s)) b m = home s b m"
    and take_None: "inv s \<Longrightarrow> snd (take_op r s) = None \<Longrightarrow> free (fst (take_op r s)) = free s"
    and take_Some: "inv s \<Longrightarrow> snd (take_op r s) = Some (b, m) \<Longrightarrow>
      0 < m \<and> home s b m \<and> {b..<b + m} \<subseteq> free s \<and>
      free (fst (take_op r s)) = free s - {b..<b + m}"
    and give_ok: "inv s \<Longrightarrow> 0 < m \<Longrightarrow> home s b m \<Longrightarrow> {b..<b + m} \<inter> free s = {} \<Longrightarrow>
      snd (give_op b m s) \<and> inv (fst (give_op b m s)) \<and>
      free (fst (give_op b m s)) = free s \<union> {b..<b + m} \<and>
      (\<forall>b' m'. home (fst (give_op b m s)) b' m' = home s b' m')"
begin

definition client_ok :: "nat set \<Rightarrow> 's \<times> (nat \<times> nat) list \<Rightarrow> bool" where
  "client_ok F st \<longleftrightarrow>
     inv (fst st) \<and> held_apart (snd st) \<and> held_blocks (snd st) \<inter> free (fst st) = {} \<and>
     held_blocks (snd st) \<union> free (fst st) = F \<and>
     (\<forall>(b, m) \<in> set (snd st). 0 < m \<and> home (fst st) b m)"

lemma client_ok_step:
  assumes "client_ok F st"
  shows "client_ok F (client_step take_op give_op op st)"
proof -
  obtain s hs where st: "st = (s, hs)" by (cases st)
  have ok: "inv s" "held_apart hs" "held_blocks hs \<inter> free s = {}" "held_blocks hs \<union> free s = F"
    "\<forall>(b, m) \<in> set hs. 0 < m \<and> home s b m"
    using assms by (auto simp: client_ok_def st)
  show ?thesis
  proof (cases op)
    case (Take r)
    obtain s' x where t: "take_op r s = (s', x)" by (cases "take_op r s")
    show ?thesis
    proof (cases x)
      case None
      then show ?thesis
        using ok take_inv [OF ok(1), of r] take_None [OF ok(1), of r] take_home [OF ok(1), of r] t
        by (simp add: client_ok_def st Take)
    next
      case (Some bm)
      obtain b m where bm: "bm = (b, m)" by (cases bm)
      show ?thesis
        using ok take_inv [OF ok(1), of r] take_Some [OF ok(1), of r b m] take_home [OF ok(1), of r]
          t Some bm
        by (auto simp: client_ok_def st Take range_blocks_def)
    qed
  next
    case (Give k)
    show ?thesis
    proof (cases "k < length hs")
      case True
      note rm = held_remove_nth [OF True ok(2)]
      obtain b m where bm: "hs ! k = (b, m)" by fastforce
      then have "(b, m) \<in> set hs" using nth_mem [OF True] by simp
      then have h: "0 < m" "home s b m" using ok(5) by auto
      have fr: "{b..<b + m} \<inter> free s = {}" using rm(3) ok(3) bm by (auto simp: range_blocks_def)
      note g = give_ok [OF ok(1) h fr]
      have "client_step take_op give_op op st = (fst (give_op b m s), remove_nth k hs)"
        using True bm by (simp add: st Give)
      then show ?thesis
        using g rm ok(3,4,5) bm by (auto simp: client_ok_def range_blocks_def)
    next
      case False
      then show ?thesis using assms by (simp add: st Give)
    qed
  qed
qed

lemma client_run:
  assumes "inv s"
  shows "client_ok (free s) (fold (client_step take_op give_op) ops (s, []))"
proof -
  have "client_ok F (fold (client_step take_op give_op) ops st)" if "client_ok F st" for F st
    using that by (induction ops arbitrary: st) (simp_all add: client_ok_step)
  moreover have "client_ok (free s) (s, [])" using assms by (simp add: client_ok_def)
  ultimately show ?thesis by blast
qed

text \<open>Returning everything restores the free blocks.\<close>

lemma client_drain:
  assumes "client_ok F st"
  shows "free (fst (fold (client_step take_op give_op) (replicate (length (snd st)) (Give 0)) st)) = F \<and>
         snd (fold (client_step take_op give_op) (replicate (length (snd st)) (Give 0)) st) = []"
  using assms
proof (induction "length (snd st)" arbitrary: st)
  case 0
  then show ?case by (auto simp: client_ok_def)
next
  case (Suc n)
  let ?st = "client_step take_op give_op (Give 0) st"
  have "n = length (snd ?st)"
    using Suc.hyps(2) by (cases st) (auto simp: remove_nth_def)
  moreover have "client_ok F ?st" using Suc.prems by (rule client_ok_step)
  ultimately have "free (fst (fold (client_step take_op give_op) (replicate n (Give 0)) ?st)) = F \<and>
      snd (fold (client_step take_op give_op) (replicate n (Give 0)) ?st) = []"
    using Suc.hyps(1) by metis
  then show ?case using Suc.hyps(2) by (metis fold_simps(2) replicate_Suc)
qed

end

end
