(* ===== verification/Balloc_Sb.thy ===== *)
theory Balloc_Sb
  imports Balloc_Inv Block_Store
begin

text \<open>
  The allocator over all CPUs: the invariant of the per-CPU free lists together, the
  correctness of \<open>nova_free_blocks\<close> and \<open>nova_new_blocks\<close>, and the contract of a block store
  that clients of the allocator rely on, with its interpretation on these two operations.
\<close>

subsection \<open>All free lists\<close>

definition list_bounds :: "sb_info \<Rightarrow> nat \<Rightarrow> bool" where
  "list_bounds sbi i \<longleftrightarrow>
     0 < block_start (free_lists sbi ! i) \<and>
     per_list_blocks sbi * i \<le> block_start (free_lists sbi ! i) \<and>
     block_end (free_lists sbi ! i) < per_list_blocks sbi * Suc i"

definition lists_inv :: "nova_env \<Rightarrow> sb_info \<Rightarrow> bool" where
  "lists_inv E sbi \<longleftrightarrow>
     cpus sbi = length (free_lists sbi) \<and> 0 < cpus sbi \<and> cpus sbi < 2 ^ 31 \<and>
     (\<forall>i < cpus sbi. free_list_inv E (nodes sbi) (free_lists sbi ! i) \<and> list_bounds sbi i) \<and>
     (\<forall>i < cpus sbi. \<forall>j < cpus sbi. i \<noteq> j \<longrightarrow>
        set (fl_nodes (free_lists sbi ! i)) \<inter> set (fl_nodes (free_lists sbi ! j)) = {})"

definition all_free :: "sb_info \<Rightarrow> nat set" where
  "all_free sbi = (\<Union>i < length (free_lists sbi). free_set (nodes sbi) (free_lists sbi ! i))"

definition home :: "sb_info \<Rightarrow> nat \<Rightarrow> nat \<Rightarrow> bool" where
  "home sbi b m \<longleftrightarrow>
     (\<exists>i < length (free_lists sbi).
        block_start (free_lists sbi ! i) \<le> b \<and> b + m \<le> block_end (free_lists sbi ! i) + 1)"

lemma get_free_list_nth:
  "i < length (free_lists sbi) \<Longrightarrow> nova_get_free_list sbi (int i) = Inr (free_lists sbi ! i)"
  by (simp add: nova_get_free_list_def)

lemma free_list_inv_agree:
  assumes "free_list_inv E s fl" "agree s s' (set (fl_nodes fl))"
  shows "free_list_inv E s' fl" "free_set s' fl = free_set s fl"
proof -
  have eq: "map (span s') (fl_nodes fl) = map (span s) (fl_nodes fl)"
    using assms(2) by (rule agree_map_span)
  show "free_set s' fl = free_set s fl" by (simp only: free_set_blocks eq)
  then show "free_list_inv E s' fl"
    using assms nodes_inv_agree [OF _ assms(2)] by (simp add: free_list_inv_def eq)
qed

text \<open>Two lists never share a block, because their ranges are apart.\<close>

lemma lists_disjoint:
  assumes inv: "lists_inv E sbi" and ij: "i < cpus sbi" "j < cpus sbi" "i \<noteq> j"
  shows "free_set (nodes sbi) (free_lists sbi ! i) \<inter> free_set (nodes sbi) (free_lists sbi ! j) = {}"
proof -
  have sub: "free_set (nodes sbi) (free_lists sbi ! k) \<subseteq>
      {per_list_blocks sbi * k..<per_list_blocks sbi * Suc k}" if "k < cpus sbi" for k
    using inv that by (force simp: lists_inv_def free_list_inv_def list_bounds_def)
  have "per_list_blocks sbi * Suc i \<le> per_list_blocks sbi * j \<or>
      per_list_blocks sbi * Suc j \<le> per_list_blocks sbi * i"
    using ij(3) by (metis Suc_leI mult_le_mono2 nat_neq_iff)
  then show ?thesis using sub [OF ij(1)] sub [OF ij(2)] by force
qed

text \<open>One list takes a step; the others stay as they are.\<close>

lemma lists_step:
  assumes inv: "lists_inv E sbi" and i: "i < cpus sbi"
    and step: "list_step E (fresh_or (nodes sbi) (free_lists sbi ! i))
                 (nodes sbi) (free_lists sbi ! i) s' fl'"
  defines "sbi' \<equiv> set_free_list (int i) fl' s' sbi"
  shows "lists_inv E sbi'"
    "all_free sbi' = (all_free sbi - free_set (nodes sbi) (free_lists sbi ! i)) \<union> free_set s' fl'"
    "home sbi' b m = home sbi b m"
    "finite (live (nodes sbi)) \<Longrightarrow> finite (live (nodes sbi'))"
proof -
  let ?s = "nodes sbi" and ?L = "free_lists sbi"
  have len: "length ?L = cpus sbi" and li: "free_list_inv E ?s (?L ! j)" if "j < cpus sbi" for j
    using inv that by (auto simp: lists_inv_def)
  have len: "length ?L = cpus sbi" using inv by (simp add: lists_inv_def)
  have st: "free_list_inv E s' fl'" "set (fl_nodes fl') \<subseteq> set (fl_nodes (?L ! i)) \<union> - live ?s"
    "block_start fl' = block_start (?L ! i)" "block_end fl' = block_end (?L ! i)"
    using step by (auto simp: list_step_def fresh_or_def)
  have live: "set (fl_nodes (?L ! j)) \<subseteq> live ?s" if "j < cpus sbi" for j
    using li [OF that] by (simp add: free_list_inv_def nodes_inv_def)
  have apart: "set (fl_nodes (?L ! i)) \<inter> set (fl_nodes (?L ! j)) = {}"
    if "j < cpus sbi" "j \<noteq> i" for j using inv i that by (simp add: lists_inv_def)
  have other: "free_list_inv E s' (?L ! j)" "free_set s' (?L ! j) = free_set ?s (?L ! j)"
    if "j < cpus sbi" "j \<noteq> i" for j
  proof -
    have "agree ?s s' (set (fl_nodes (?L ! j)))"
      using step live [OF that(1)] apart [OF that]
      by (auto simp: list_step_def fresh_or_def elim!: agree_subset)
    then show "free_list_inv E s' (?L ! j)" "free_set s' (?L ! j) = free_set ?s (?L ! j)"
      using free_list_inv_agree [OF li [OF that(1)]] by auto
  qed
  have disj: "set (fl_nodes fl') \<inter> set (fl_nodes (?L ! j)) = {}" if "j < cpus sbi" "j \<noteq> i" for j
    using st(2) apart [OF that] live [OF that(1)] by auto
  show "lists_inv E sbi'"
    using inv i len st other disj apart
    by (auto simp: lists_inv_def sbi'_def nth_list_update list_bounds_def Int_commute)
  have "all_free sbi' =
      (\<Union>j < cpus sbi. if j = i then free_set s' fl' else free_set ?s (?L ! j))"
    unfolding all_free_def sbi'_def set_free_list_simps length_list_update len
    by (rule SUP_cong) (auto simp: nth_list_update other(2) len)
  moreover have "(\<Union>j \<in> {..<cpus sbi} - {i}. free_set ?s (?L ! j)) =
      all_free sbi - free_set ?s (?L ! i)"
    using lists_disjoint [OF inv _ i] i by (fastforce simp: all_free_def len)
  ultimately show "all_free sbi' = (all_free sbi - free_set ?s (?L ! i)) \<union> free_set s' fl'"
    using i by auto
  show "home sbi' b m = home sbi b m"
    using i st by (auto simp: home_def sbi'_def len nth_list_update)
  show "finite (live (nodes sbi))  \<Longrightarrow> finite (live (nodes sbi'))"
    using step by (simp add: list_step_def sbi'_def)
qed

subsection \<open>Freeing\<close>

lemma alloc_blocknode_list:
  assumes kmem: "kmem_ok E" and inv: "free_list_inv E s fl"
    and al: "nova_alloc_blocknode E s = (s1, Some cur)"
  shows "agree s s1 (live s)" "free_list_inv E s1 fl" "free_set s1 fl = free_set s fl"
    "cur \<in> live s1" "cur \<notin> live s" "cur \<notin> set (fl_nodes fl)" "live s1 = insert cur (live s)"
proof -
  note a = alloc_range_node_Some [OF kmem al [unfolded nova_alloc_blocknode_def]]
  show agr: "agree s s1 (live s)" using a(1,3,6) by (fastforce simp: agree_def)
  have sub: "set (fl_nodes fl) \<subseteq> live s" using inv by (simp add: free_list_inv_def nodes_inv_def)
  with agr have "agree s s1 (set (fl_nodes fl))" by (rule agree_subset)
  then show "free_list_inv E s1 fl" "free_set s1 fl = free_set s fl"
    using free_list_inv_agree [OF inv] by auto
  show "cur \<in> live s1" "cur \<notin> live s" "cur \<notin> set (fl_nodes fl)" "live s1 = insert cur (live s)"
    using a(1,3) sub by auto
qed

lemma free_one_list:
  assumes lib: "rb_lib_ok E" and kmem: "kmem_ok E" and inv: "free_list_inv E s fl"
    and al: "nova_alloc_blocknode E s = (s1, Some cur)"
    and b: "0 < n" "num \<le> n" "block_start fl \<le> b" "b + n \<le> block_end fl + 1"
      "{b..<b + n} \<inter> free_set s fl = {}"
    and r: "free_in_list E s1 fl cur b num n lp = (s', fl', used, ret)"
    and s'': "s'' = (if used then s' else nova_free_blocknode s' cur)"
  shows "ret = Inr () \<and> list_step E (fresh_or s fl) s fl s'' fl' \<and>
         free_set s'' fl' = free_set s fl \<union> {b..<b + n}"
proof -
  note a = alloc_blocknode_list [OF kmem inv al]
  have ok: "ret = Inr ()" "list_step E (insert cur (set (fl_nodes fl))) s1 fl s' fl'"
    "free_set s' fl' = free_set s fl \<union> {b..<b + n}" "used = (cur \<in> set (fl_nodes fl'))"
    using free_in_list_ok [OF lib a(2,4,6) b(1-4), of lp] b(5) r a(3) by (auto simp: freed_ok_def)
  have live': "set (fl_nodes fl') \<subseteq> live s'"
    using ok(2) by (simp add: list_step_def free_list_inv_def nodes_inv_def)
  have "agree s' s'' (set (fl_nodes fl'))"
    using ok(4) live' by (auto simp: s'' agree_def nova_free_blocknode_def)
  then have fin: "free_list_inv E s'' fl'" "free_set s'' fl' = free_set s' fl'"
    using free_list_inv_agree ok(2) by (auto simp: list_step_def)
  have "agree s s'' (live s - set (fl_nodes fl))"
    using ok(2) a(1,5,7) by (auto simp: list_step_def agree_def s'' nova_free_blocknode_def)
  then have "list_step E (fresh_or s fl) s fl s'' fl'"
    using ok(2) fin(1) a(5,7)
    by (auto simp: list_step_def fresh_or_def s'' nova_free_blocknode_def elim!: agree_subset)
  then show ?thesis using ok(1,3) fin(2) by simp
qed

lemma home_cpu:
  assumes inv: "lists_inv E sbi" and i: "i < cpus sbi" and n: "0 < n"
    and b: "block_start (free_lists sbi ! i) \<le> b" "b + n \<le> block_end (free_lists sbi ! i) + 1"
  shows "s32_of (b div per_list_blocks sbi) = int i"
proof -
  have "per_list_blocks sbi * i \<le> b" "b < per_list_blocks sbi * Suc i"
    using inv i b n by (auto simp: lists_inv_def list_bounds_def)
  then have "b div per_list_blocks sbi = i"
    by (intro div_nat_eqI) (simp_all add: mult.commute)
  then show ?thesis using inv i by (simp add: lists_inv_def)
qed

text \<open>\<open>nova_free_blocks\<close> on a range that lies in one list, down to the part under its lock.\<close>

lemma free_blocks_unfold:
  assumes inv: "lists_inv E sbi" and mem: "kmem_zalloc E (requests (nodes sbi)) (live (nodes sbi)) \<noteq> None"
    and n: "0 < num" "n = nova_get_numblocks btype * nat num" "n < 2 ^ 64" and b: "home sbi b n"
  obtains i s1 cur where "i < cpus sbi" "length (free_lists sbi) = cpus sbi"
    "free_list_inv E (nodes sbi) (free_lists sbi ! i)" "0 < n" "nat num \<le> n"
    "block_start (free_lists sbi ! i) \<le> b" "b + n \<le> block_end (free_lists sbi ! i) + 1"
    "nova_alloc_blocknode E (nodes sbi) = (s1, Some cur)"
    "\<And>s' fl' used ret. free_in_list E s1 (free_lists sbi ! i) cur b (nat num) n lp =
         (s', fl', used, ret) \<Longrightarrow>
       nova_free_blocks E sbi b num btype lp =
         (set_free_list (int i) fl' (if used then s' else nova_free_blocknode s' cur) sbi, ret)"
proof -
  obtain i where i: "i < cpus sbi" and bi: "block_start (free_lists sbi ! i) \<le> b"
    "b + n \<le> block_end (free_lists sbi ! i) + 1"
    using b inv by (auto simp: home_def lists_inv_def)
  have len: "length (free_lists sbi) = cpus sbi"
    and fi: "free_list_inv E (nodes sbi) (free_lists sbi ! i)"
    using inv i by (auto simp: lists_inv_def)
  have num: "0 < n" "nat num \<le> n" using n by (auto simp: nova_get_numblocks_def)
  obtain s1 cur where al: "nova_alloc_blocknode E (nodes sbi) = (s1, Some cur)"
    using alloc_blocknode_total [OF mem] .
  have "nova_free_blocks E sbi b num btype lp =
      (set_free_list (int i) fl' (if used then s' else nova_free_blocknode s' cur) sbi, ret)"
    if "free_in_list E s1 (free_lists sbi ! i) cur b (nat num) n lp = (s', fl', used, ret)"
    for s' fl' used ret
    using that n(1,3) al home_cpu [OF inv i num(1) bi] i
    by (auto simp: nova_free_blocks_def get_free_list_nth len n(2) [symmetric] split del: if_split)
  then show thesis using that [OF i len fi num bi al] by blast
qed

lemma free_blocks_ok:
  assumes lib: "rb_lib_ok E" and kmem: "kmem_ok E" and inv: "lists_inv E sbi"
    and mem: "kmem_zalloc E (requests (nodes sbi)) (live (nodes sbi)) \<noteq> None"
    and n: "0 < num" "n = nova_get_numblocks btype * nat num" "n < 2 ^ 64"
    and b: "home sbi b n" "{b..<b + n} \<inter> all_free sbi = {}"
    and r: "nova_free_blocks E sbi b num btype lp = (sbi', ret)"
  shows "ret = Inr () \<and> lists_inv E sbi' \<and> all_free sbi' = all_free sbi \<union> {b..<b + n} \<and>
         (\<forall>b' m. home sbi' b' m = home sbi b' m) \<and> pmem sbi' = pmem sbi \<and>
         (finite (live (nodes sbi)) \<longrightarrow> finite (live (nodes sbi')))"
  using inv mem n b(1)
proof (rule free_blocks_unfold [where lp = lp])
  fix i s1 cur
  let ?fl = "free_lists sbi ! i" and ?s = "nodes sbi"
  assume i: "i < cpus sbi" and len: "length (free_lists sbi) = cpus sbi"
    and fi: "free_list_inv E ?s ?fl" and num: "0 < n" "nat num \<le> n"
    and bi: "block_start ?fl \<le> b" "b + n \<le> block_end ?fl + 1"
    and al: "nova_alloc_blocknode E ?s = (s1, Some cur)"
    and unf: "\<And>s' fl' used ret. free_in_list E s1 ?fl cur b (nat num) n lp = (s', fl', used, ret) \<Longrightarrow>
       nova_free_blocks E sbi b num btype lp =
         (set_free_list (int i) fl' (if used then s' else nova_free_blocknode s' cur) sbi, ret)"
  have disj: "{b..<b + n} \<inter> free_set ?s ?fl = {}"
    using b(2) i by (auto simp: all_free_def len)
  obtain s' fl' used ret' where
    fil: "free_in_list E s1 ?fl cur b (nat num) n lp = (s', fl', used, ret')"
    by (metis prod_cases4)
  let ?s'' = "if used then s' else nova_free_blocknode s' cur"
  note one = free_one_list [OF lib kmem fi al num bi disj fil refl]
  have eq: "sbi' = set_free_list (int i) fl' ?s'' sbi" "ret = ret'"
    using r unf [OF fil] by simp_all
  show ?thesis
    using one lists_step [OF inv i, of ?s'' fl'] disj i unfolding eq by (auto simp: all_free_def len)
qed

text \<open>A range whose first block is free already is refused, and nothing changes.\<close>

lemma alloc_free_undo:
  assumes kmem: "kmem_ok E" and inv: "free_list_inv E s fl"
    and al: "nova_alloc_blocknode E s = (s1, Some cur)"
  shows "list_step E (fresh_or s fl) s fl (nova_free_blocknode s1 cur) fl"
    "free_set (nova_free_blocknode s1 cur) fl = free_set s fl"
proof -
  note a = alloc_blocknode_list [OF kmem inv al]
  let ?s = "nova_free_blocknode s1 cur"
  have agr: "agree s ?s (live s)"
    using a(1,5) by (auto simp: agree_def nova_free_blocknode_def)
  have sub: "set (fl_nodes fl) \<subseteq> live s" using inv by (simp add: free_list_inv_def nodes_inv_def)
  note keep = free_list_inv_agree [OF inv agree_subset [OF agr sub]]
  show "free_set ?s fl = free_set s fl" by (rule keep)
  show "list_step E (fresh_or s fl) s fl ?s fl"
    using keep(1) agr a(5,7) by (auto simp: list_step_def fresh_or_def nova_free_blocknode_def
        elim!: agree_subset)
qed

lemma free_blocks_in_use:
  assumes kmem: "kmem_ok E" and inv: "lists_inv E sbi"
    and mem: "kmem_zalloc E (requests (nodes sbi)) (live (nodes sbi)) \<noteq> None"
    and n: "0 < num" "n = nova_get_numblocks btype * nat num" "n < 2 ^ 64"
    and b: "home sbi b n" "b \<in> all_free sbi"
    and r: "nova_free_blocks E sbi b num btype lp = (sbi', ret)"
  shows "ret = Inl EINVAL \<and> lists_inv E sbi' \<and> all_free sbi' = all_free sbi \<and>
         pmem sbi' = pmem sbi"
  using inv mem n b(1)
proof (rule free_blocks_unfold [where lp = lp])
  fix i s1 cur
  let ?fl = "free_lists sbi ! i" and ?s = "nodes sbi"
  assume i: "i < cpus sbi" and len: "length (free_lists sbi) = cpus sbi"
    and fi: "free_list_inv E ?s ?fl" and num: "0 < n" "nat num \<le> n"
    and bi: "block_start ?fl \<le> b" "b + n \<le> block_end ?fl + 1"
    and al: "nova_alloc_blocknode E ?s = (s1, Some cur)"
    and unf: "\<And>s' fl' used ret. free_in_list E s1 ?fl cur b (nat num) n lp = (s', fl', used, ret) \<Longrightarrow>
       nova_free_blocks E sbi b num btype lp =
         (set_free_list (int i) fl' (if used then s' else nova_free_blocknode s' cur) sbi, ret)"
  note a = alloc_blocknode_list [OF kmem fi al]
  obtain j where j: "j < cpus sbi" "b \<in> free_set ?s (free_lists sbi ! j)"
    using b(2) by (auto simp: all_free_def len)
  have "j = i"
  proof (rule ccontr)
    assume "j \<noteq> i"
    have "free_set ?s (free_lists sbi ! j) \<subseteq>
        {block_start (free_lists sbi ! j)..block_end (free_lists sbi ! j)}"
      using inv j by (simp add: lists_inv_def free_list_inv_def)
    then have "block_start (free_lists sbi ! j) \<le> b" "b + 1 \<le> block_end (free_lists sbi ! j) + 1"
      using j(2) by auto
    then show False
      using home_cpu [OF inv j(1), of 1 b] home_cpu [OF inv i num(1) bi] \<open>j \<noteq> i\<close> by simp
  qed
  then have "b \<in> tree_blocks s1 (block_free_tree ?fl)"
    using j a(3) by (simp add: free_set_def)
  moreover have "tree_inv E s1 (block_free_tree ?fl)"
    using a(2) by (simp add: free_list_inv_def tree_inv_def fl_nodes_def)
  ultimately have slot: "nova_find_free_slot E s1 (block_free_tree ?fl) b h = Inl EINVAL" for h
    by (intro find_free_slot_in_use)
  have "block_end ?fl < 2 ^ 32" using fi by (simp add: free_list_inv_def)
  then have "free_in_list E s1 ?fl cur b (nat num) n lp = (s1, ?fl, False, Inl EINVAL)"
    using bi num by (simp add: free_in_list_def slot)
  then have eq: "sbi' = set_free_list (int i) ?fl (nova_free_blocknode s1 cur) sbi"
    "ret = Inl EINVAL"
    using r unf by auto
  note undo = alloc_free_undo [OF kmem fi al]
  note step = lists_step [OF inv i undo(1)]
  have "free_set ?s ?fl \<subseteq> all_free sbi" using i by (auto simp: all_free_def len)
  then show ?thesis using step(1,2) undo(2) unfolding eq by auto
qed

subsection \<open>Choosing a list\<close>

lemma candidate_loop_lt:
  "cpuid < i \<or> cpuid = 0 \<and> i = 0 \<and> fls \<noteq> [] \<Longrightarrow> candidate_loop fls i cpuid m < i + length fls"
proof (induction fls i cpuid m rule: candidate_loop.induct)
  case (2 fl fls i cpuid m)
  then show ?case by (cases fls) auto
qed auto

lemma candidate_lt:
  assumes "lists_inv E sbi"
  shows "nova_get_candidate_free_list sbi < cpus sbi"
proof -
  have "free_lists sbi \<noteq> []" "cpus sbi = length (free_lists sbi)"
    using assms by (auto simp: lists_inv_def)
  then show ?thesis
    using candidate_loop_lt [of 0 0 "free_lists sbi" 0]
    by (simp add: nova_get_candidate_free_list_def)
qed

text \<open>With counts that fit an \<^verbatim>\<open>int\<close>, the candidate has the most free blocks.\<close>

lemma candidate_loop_max:
  assumes "\<forall>fl \<in> set fls. num_free_blocks fl < 2 ^ 31" "0 \<le> m" "m < 2 ^ 31"
    and "cpuid < length pre" "\<forall>fl \<in> set pre. int (num_free_blocks fl) \<le> m"
      "int (num_free_blocks (pre ! cpuid)) = m"
  shows "\<forall>fl \<in> set (pre @ fls).
           num_free_blocks fl \<le> num_free_blocks ((pre @ fls) ! candidate_loop fls (length pre) cpuid m)"
  using assms
proof (induction fls arbitrary: pre cpuid m)
  case Nil
  then show ?case by auto
next
  case (Cons fl fls)
  have m: "u64_of_int m = nat m" using Cons.prems(2,3) by (simp add: u64_of_int_def)
  show ?case
  proof (cases "nat m < num_free_blocks fl")
    case True
    have "\<forall>g \<in> set ((pre @ [fl]) @ fls). num_free_blocks g \<le> num_free_blocks
        (((pre @ [fl]) @ fls) ! candidate_loop fls (length (pre @ [fl])) (length pre)
           (int (num_free_blocks fl)))"
      by (rule Cons.IH) (use Cons.prems True in \<open>auto simp: nth_append\<close>)
    then show ?thesis using True m Cons.prems(1) by simp
  next
    case False
    have "\<forall>g \<in> set ((pre @ [fl]) @ fls). num_free_blocks g \<le> num_free_blocks
        (((pre @ [fl]) @ fls) ! candidate_loop fls (length (pre @ [fl])) cpuid m)"
      by (rule Cons.IH) (use Cons.prems False in \<open>auto simp: nth_append\<close>)
    then show ?thesis using False m by simp
  qed
qed

lemma pick_free_list_ok:
  assumes "lists_inv E sbi" "c < cpus sbi"
  shows "\<exists>c' < cpus sbi. pick_free_list sbi n at r (int c) = Inr (int c', free_lists sbi ! c') \<and>
           (not_enough_blocks (nodes sbi) (free_lists sbi ! c') n at \<longrightarrow>
              r = 0 \<and> c' = c \<or> c' = nova_get_candidate_free_list sbi)"
  using assms(2)
proof (induction r arbitrary: c)
  case 0
  then show ?case
    using assms(1) by (auto simp: pick_free_list.simps get_free_list_nth lists_inv_def)
next
  case (Suc r)
  have nth: "nova_get_free_list sbi (int c) = Inr (free_lists sbi ! c)"
    using Suc.prems assms(1) by (simp add: get_free_list_nth lists_inv_def)
  show ?case
  proof (cases "not_enough_blocks (nodes sbi) (free_lists sbi ! c) n at")
    case True
    then show ?thesis
      using Suc.IH [OF candidate_lt [OF assms(1)]] nth
      by (auto simp: pick_free_list.simps [of sbi n at "Suc r" "int c"])
  next
    case False
    then show ?thesis
      using Suc.prems nth
      by (intro exI [of _ c]) (simp add: pick_free_list.simps [of sbi n at "Suc r" "int c"])
  qed
qed

lemma candidate_max:
  assumes "lists_inv E sbi" "\<forall>fl \<in> set (free_lists sbi). num_free_blocks fl < 2 ^ 31"
    and "fl \<in> set (free_lists sbi)"
  shows "num_free_blocks fl \<le>
           num_free_blocks (free_lists sbi ! nova_get_candidate_free_list sbi)"
proof -
  obtain g gs where g: "free_lists sbi = g # gs" using assms(3) by (cases "free_lists sbi") auto
  have "nova_get_candidate_free_list sbi = candidate_loop gs 1 0 (int (num_free_blocks g))"
    using assms(2) by (auto simp: nova_get_candidate_free_list_def g u64_of_int_def)
  then show ?thesis
    using candidate_loop_max [of gs "int (num_free_blocks g)" 0 "[g]"] assms(2,3) g by auto
qed

subsection \<open>Allocating\<close>

lemma alloc_stats_simps [simp]:
  "fl_nodes (alloc_stats a n fl) = fl_nodes fl"
  "free_set s (alloc_stats a n fl) = free_set s fl"
  "block_start (alloc_stats a n fl) = block_start fl"
  "block_end (alloc_stats a n fl) = block_end fl"
  "free_list_inv E s (alloc_stats a n fl) = free_list_inv E s fl"
  "list_step E A s0 fl0 s (alloc_stats a n fl) = list_step E A s0 fl0 s fl"
  by (simp_all add: alloc_stats_def fl_nodes_def free_set_def free_list_inv_def list_step_def)

lemma set_free_list_id:
  "i < length (free_lists sbi) \<Longrightarrow> set_free_list (int i) (free_lists sbi ! i) (nodes sbi) sbi = sbi"
  by (simp add: set_free_list_def)

definition new_blocks_post ::
    "nova_env \<Rightarrow> sb_info \<Rightarrow> nat \<Rightarrow> nat \<Rightarrow> bool \<Rightarrow> sb_info \<times> (nat \<times> int) res \<Rightarrow> bool" where
  "new_blocks_post E sbi num btype zero r \<longleftrightarrow>
     (case r of
        (sbi', Inl e) \<Rightarrow> e = ENOSPC \<and> sbi' = sbi
      | (sbi', Inr (b, cnt)) \<Rightarrow>
          \<exists>m. 0 < m \<and> m \<le> num * nova_get_numblocks btype \<and>
              cnt = int (m div nova_get_numblocks btype) \<and>
              (btype \<le> 1 \<longrightarrow> nova_get_numblocks btype dvd m) \<and>
              {b..<b + m} \<subseteq> all_free sbi \<and> all_free sbi' = all_free sbi - {b..<b + m} \<and>
              home sbi b m \<and> (\<forall>b' m'. home sbi' b' m' = home sbi b' m') \<and> lists_inv E sbi' \<and>
              (finite (live (nodes sbi)) \<longrightarrow> finite (live (nodes sbi'))) \<and>
              pmem sbi' = (if zero then memset_nt (nova_get_block_off b) 0 (PAGE_SIZE * m) (pmem sbi)
                           else pmem sbi))"

lemma taken_home:
  assumes "lists_inv E sbi" "i < cpus sbi" "0 < m"
    and "{b..<b + m} \<subseteq> free_set (nodes sbi) (free_lists sbi ! i)"
  shows "home sbi b m" "0 < b" "m < 2 ^ 32"
proof -
  let ?fl = "free_lists sbi ! i"
  have "free_set (nodes sbi) ?fl \<subseteq> {block_start ?fl..block_end ?fl}"
    and fl: "block_end ?fl < 2 ^ 32" "0 < block_start ?fl" "length (free_lists sbi) = cpus sbi"
    using assms(1,2) by (auto simp: lists_inv_def free_list_inv_def list_bounds_def)
  then have "{b..<b + m} \<subseteq> {block_start ?fl..block_end ?fl}" using assms(4) by blast
  note fl = this fl
  moreover have "b \<in> {b..<b + m}" "b + m - 1 \<in> {b..<b + m}" using assms(3) by auto
  then have "b \<in> {block_start ?fl..block_end ?fl}" "b + m - 1 \<in> {block_start ?fl..block_end ?fl}"
    using fl(1) by blast+
  ultimately show "home sbi b m" "0 < b" "m < 2 ^ 32" using fl assms(2,3) by (auto simp: home_def)
qed

lemma new_blocks_ok:
  assumes lib: "rb_lib_ok E" and kmem: "kmem_ok E" and inv: "lists_inv E sbi"
    and mem: "kmem_zalloc E (requests (nodes sbi)) (live (nodes sbi)) \<noteq> None"
    and num: "0 < num" "num < 2 ^ 31" and cpu: "cpuid = ANY_CPU \<or> 0 \<le> cpuid \<and> nat cpuid < cpus sbi"
  shows "new_blocks_post E sbi num btype zero
           (nova_new_blocks E smp sbi num btype zero at cpuid dir)"
proof -
  let ?nb = "nova_get_numblocks btype"
  let ?n = "num * ?nb"
  have nb: "0 < ?nb" "?nb \<le> 2 ^ 18" "btype \<le> 1 \<Longrightarrow> ?nb = (if btype = 0 then 1 else 512)"
    by (auto simp: nova_get_numblocks_def)
  have "?n \<le> num * 2 ^ 18" using nb(2) by simp
  also have "\<dots> < 2 ^ 63" using num by simp
  finally have n: "0 < ?n" "?n < 2 ^ 63" "u64_mul num ?nb = ?n" using nb(1) num(1) by simp_all
  define c where "c = (if cpuid = ANY_CPU then nova_get_cpuid smp sbi else nat cpuid)"
  have c: "c < cpus sbi" "(if cpuid = ANY_CPU then int (nova_get_cpuid smp sbi) else cpuid) = int c"
    using cpu inv by (auto simp: c_def nova_get_cpuid_def lists_inv_def)
  obtain i where i: "i < cpus sbi" and
    pick: "pick_free_list sbi ?n at 2 (int c) = Inr (int i, free_lists sbi ! i)"
    using pick_free_list_ok [OF inv c(1)] by blast
  let ?fl = "free_lists sbi ! i" and ?s = "nodes sbi"
  have fi: "free_list_inv E ?s ?fl" "0 < block_start ?fl" and len: "length (free_lists sbi) = cpus sbi"
    using inv i by (auto simp: lists_inv_def list_bounds_def)
  obtain s' fl' b r where al: "nova_alloc_blocks_in_free_list E ?s ?fl btype at ?n 0 dir = (s', fl', b, r)"
    by (metis prod_cases4)
  have ok: "alloc_ok E (fresh_or ?s ?fl) ?s ?fl btype ?n (s', fl', b, r)"
    using alloc_in_free_list_ok [OF lib kmem fi(1) n(1,2) fi(2), of at btype 0 dir] mem al by simp
  show ?thesis
  proof (cases r)
    case (Inl e)
    then have "nova_new_blocks E smp sbi num btype zero at cpuid dir = (sbi, Inl ENOSPC)"
      using ok al n c(2) pick i len set_free_list_id [of i sbi]
      by (simp add: nova_new_blocks_def alloc_ok_def Let_def)
    then show ?thesis by (simp add: new_blocks_post_def)
  next
    case (Inr m)
    have m: "0 < m" "m \<le> ?n" "{b..<b + m} \<subseteq> free_set ?s ?fl" "0 < btype \<longrightarrow> 512 dvd ?n \<longrightarrow> 512 dvd m"
      "list_step E (fresh_or ?s ?fl) ?s ?fl s' fl'" "free_set s' fl' = free_set ?s ?fl - {b..<b + m}"
      using ok Inr by (auto simp: alloc_ok_def)
    note th = taken_home [OF inv i m(1,3)]
    have "m div ?nb \<le> num" using m(2) nb(1) by (metis div_le_mono nonzero_mult_div_cancel_right less_numeral_extra(3))
    then have cnt: "s32_of (m div ?nb) = int (m div ?nb)" using num by simp
    have pg: "u64_mul PAGE_SIZE m = PAGE_SIZE * m" using th(3) by (simp add: PAGE_SIZE_def)
    let ?sbi = "set_free_list (int i) (alloc_stats at m fl') s' sbi"
    have eq: "nova_new_blocks E smp sbi num btype zero at cpuid dir =
      ((if zero then ?sbi\<lparr>pmem := memset_nt (nova_get_block_off b) 0 (PAGE_SIZE * m) (pmem sbi)\<rparr>
        else ?sbi), Inr (b, int (m div ?nb)))"
      using al n c(2) pick Inr m(1) th(2) cnt pg by (simp add: nova_new_blocks_def Let_def)
    have dvd: "btype \<le> 1 \<longrightarrow> ?nb dvd m" using m(4) nb(3) by (cases "btype = 0") auto
    have step: "list_step E (fresh_or ?s ?fl) ?s ?fl s' (alloc_stats at m fl')" using m(5) by simp
    have "free_set ?s ?fl \<subseteq> all_free sbi" using i by (auto simp: all_free_def len)
    then have "all_free ?sbi = all_free sbi - {b..<b + m}" "{b..<b + m} \<subseteq> all_free sbi"
      using lists_step(2) [OF inv i step] m(3,6) by auto
    then show ?thesis
      unfolding eq new_blocks_post_def prod.case sum.case
      using m(1,2) dvd th(1) lists_step(1,3,4) [OF inv i step]
      by (intro exI [of _ m]) (auto simp: all_free_def home_def lists_inv_def list_bounds_def)
  qed
qed

lemma new_blocks_total:
  assumes lib: "rb_lib_ok E" and kmem: "kmem_ok E" and inv: "lists_inv E sbi"
    and mem: "kmem_zalloc E (requests (nodes sbi)) (live (nodes sbi)) \<noteq> None"
    and num: "0 < num" "num < 2 ^ 31" and cpu: "cpuid = ANY_CPU \<or> 0 \<le> cpuid \<and> nat cpuid < cpus sbi"
    and small: "\<forall>fl \<in> set (free_lists sbi). num_free_blocks fl < 2 ^ 31"
    and some_free: "all_free sbi \<noteq> {}"
  shows "\<exists>sbi' b cnt. nova_new_blocks E smp sbi num 0 zero DATA cpuid dir = (sbi', Inr (b, cnt))"
proof -
  define c where "c = (if cpuid = ANY_CPU then nova_get_cpuid smp sbi else nat cpuid)"
  have c: "c < cpus sbi" "(if cpuid = ANY_CPU then int (nova_get_cpuid smp sbi) else cpuid) = int c"
    using cpu inv by (auto simp: c_def nova_get_cpuid_def lists_inv_def)
  have len: "length (free_lists sbi) = cpus sbi" using inv by (simp add: lists_inv_def)
  obtain i where i: "i < cpus sbi" and
    pick: "pick_free_list sbi num DATA 2 (int c) = Inr (int i, free_lists sbi ! i)" and
    cand: "not_enough_blocks (nodes sbi) (free_lists sbi ! i) num DATA \<longrightarrow>
             i = nova_get_candidate_free_list sbi"
    using pick_free_list_ok [OF inv c(1), of num DATA 2] by auto
  let ?fl = "free_lists sbi ! i" and ?s = "nodes sbi"
  have fi: "free_list_inv E ?s ?fl" "0 < block_start ?fl"
    using inv i by (auto simp: lists_inv_def list_bounds_def)
  have "fl_nodes ?fl \<noteq> []"
  proof
    assume empty: "fl_nodes ?fl = []"
    then have "not_enough_blocks ?s ?fl num DATA"
      using fi(1) by (simp add: not_enough_blocks_def free_list_inv_def)
    with cand have max: "num_free_blocks fl \<le> num_free_blocks ?fl" if "fl \<in> set (free_lists sbi)" for fl
      using candidate_max [OF inv small that] by simp
    obtain j b where j: "j < cpus sbi" "b \<in> free_set ?s (free_lists sbi ! j)"
      using some_free by (auto simp: all_free_def len)
    then have "free_list_inv E ?s (free_lists sbi ! j)" "fl_nodes (free_lists sbi ! j) \<noteq> []"
      using inv by (auto simp: lists_inv_def free_set_blocks)
    then have "0 < num_free_blocks (free_lists sbi ! j)" by (rule free_list_pos)
    moreover have "num_free_blocks ?fl = 0" using fi(1) empty by (simp add: free_list_inv_def)
    ultimately show False using max [of "free_lists sbi ! j"] j len by simp
  qed
  moreover have "num < 2 ^ 63" using num by simp
  ultimately obtain m where
    m: "snd (snd (snd (nova_alloc_blocks_in_free_list E ?s ?fl 0 DATA num 0 dir))) = Inr m"
    using alloc_in_free_list_total [OF lib kmem fi(1) num(1) _ fi(2) _ mem] by blast
  obtain s' fl' b where al: "nova_alloc_blocks_in_free_list E ?s ?fl 0 DATA num 0 dir = (s', fl', b, Inr m)"
    using m by (metis prod.collapse)
  have "alloc_ok E (fresh_or ?s ?fl) ?s ?fl 0 num (s', fl', b, Inr m)"
    using alloc_in_free_list_ok [OF lib kmem fi(1) num(1) _ fi(2), of DATA 0 0 dir] mem al num by simp
  then have "0 < m" "{b..<b + m} \<subseteq> free_set ?s ?fl" by (auto simp: alloc_ok_def)
  then show ?thesis
    using taken_home(2) [OF inv i] al num c(2) pick
    by (simp add: nova_new_blocks_def nova_get_numblocks_def Let_def)
qed

subsection \<open>Counting\<close>

lemma count_free_foldl:
  "foldl (\<lambda>n fl. u64_add n (num_free_blocks fl)) k fls =
     (k + sum_list (map num_free_blocks fls)) mod 2 ^ 64" if "k < 2 ^ 64"
  using that
proof (induction fls arbitrary: k)
  case (Cons fl fls)
  have "u64_add k (num_free_blocks fl) < 2 ^ 64" by (simp add: u64_add_def)
  then show ?case using Cons.IH by (simp add: u64_add_def mod_add_left_eq add.assoc)
qed simp

lemma card_all_free:
  assumes inv: "lists_inv E sbi"
  shows "card (all_free sbi) = sum_list (map num_free_blocks (free_lists sbi))"
proof -
  let ?f = "\<lambda>i. free_set (nodes sbi) (free_lists sbi ! i)"
  have len: "length (free_lists sbi) = cpus sbi" using inv by (simp add: lists_inv_def)
  have "card (all_free sbi) = (\<Sum>i<cpus sbi. card (?f i))"
    unfolding all_free_def len
    by (rule card_UN_disjoint) (use lists_disjoint [OF inv] in \<open>auto simp: free_set_blocks\<close>)
  also have "\<dots> = (\<Sum>i<cpus sbi. num_free_blocks (free_lists sbi ! i))"
    using inv free_list_counts(1) by (intro sum.cong) (auto simp: lists_inv_def)
  also have "\<dots> = sum_list (map num_free_blocks (free_lists sbi))"
    by (simp add: sum_list_sum_nth len atLeast0LessThan)
  finally show ?thesis .
qed

lemma home_bound: "lists_inv E sbi \<Longrightarrow> home sbi b m \<Longrightarrow> m \<le> 2 ^ 32"
  by (fastforce simp: home_def lists_inv_def free_list_inv_def)

lemma home_low_bound: "lists_inv E sbi \<Longrightarrow> home sbi b m \<Longrightarrow> 0 < m \<Longrightarrow> b < 2 ^ 32"
  by (fastforce simp: home_def lists_inv_def free_list_inv_def)

subsection \<open>The allocator is a block store\<close>

text \<open>
  The state of the store is the file system together with the kernel services it runs on; a
  request is the number of blocks, their use, the direction and the CPU the caller runs on.
  Requests are for 4 KB blocks on any CPU, at most \<open>2 ^ 31 - 1\<close> of them, as callers pass the
  count in an \<^verbatim>\<open>int\<close>.
\<close>

definition kmem_total :: "nova_env \<Rightarrow> bool" where
  "kmem_total E \<longleftrightarrow> (\<forall>k S. finite S \<longrightarrow> kmem_zalloc E k S \<noteq> None)"

definition store_inv :: "nova_env \<times> sb_info \<Rightarrow> bool" where
  "store_inv st \<longleftrightarrow>
     rb_lib_ok (fst st) \<and> kmem_ok (fst st) \<and> kmem_total (fst st) \<and>
     finite (live (nodes (snd st))) \<and> lists_inv (fst st) (snd st)"

definition store_free :: "nova_env \<times> sb_info \<Rightarrow> nat set" where
  "store_free st = all_free (snd st)"

definition store_home :: "nova_env \<times> sb_info \<Rightarrow> nat \<Rightarrow> nat \<Rightarrow> bool" where
  "store_home st b m = home (snd st) b m"

definition store_take ::
    "nat \<times> alloc_type \<times> nova_alloc_direction \<times> nat \<Rightarrow> nova_env \<times> sb_info
     \<Rightarrow> (nova_env \<times> sb_info) \<times> (nat \<times> nat) option" where
  "store_take req st =
     (case (req, st) of ((num, atype, dir, smp), (E, sbi)) \<Rightarrow>
        (case nova_new_blocks E smp sbi (num mod 2 ^ 31) 0 False atype ANY_CPU dir of
           (sbi', Inl e) \<Rightarrow> ((E, sbi'), None)
         | (sbi', Inr (b, cnt)) \<Rightarrow> ((E, sbi'), Some (b, nat cnt))))"

definition store_give :: "nat \<Rightarrow> nat \<Rightarrow> nova_env \<times> sb_info \<Rightarrow> (nova_env \<times> sb_info) \<times> bool" where
  "store_give b m st =
     (case st of (E, sbi) \<Rightarrow>
        (case nova_free_blocks E sbi b (int m) 0 False of (sbi', r) \<Rightarrow> ((E, sbi'), r = Inr ())))"

lemma store_take_post:
  assumes "store_inv (E, sbi)"
  shows "case nova_new_blocks E smp sbi (num mod 2 ^ 31) 0 False atype ANY_CPU dir of
           (sbi', Inl e) \<Rightarrow> sbi' = sbi
         | (sbi', Inr (b, cnt)) \<Rightarrow>
             store_inv (E, sbi') \<and> 0 < nat cnt \<and> home sbi b (nat cnt) \<and>
             {b..<b + nat cnt} \<subseteq> all_free sbi \<and> all_free sbi' = all_free sbi - {b..<b + nat cnt} \<and>
             (\<forall>b' m'. home sbi' b' m' = home sbi b' m')"
proof (cases "num mod 2 ^ 31 = 0")
  case True
  then show ?thesis by (simp add: nova_new_blocks_def u64_mul_def)
next
  case False
  have inv: "rb_lib_ok E" "kmem_ok E" "lists_inv E sbi" "kmem_zalloc E (requests (nodes sbi)) (live (nodes sbi)) \<noteq> None"
    "finite (live (nodes sbi))" "kmem_total E"
    using assms by (auto simp: store_inv_def kmem_total_def)
  from new_blocks_ok [OF inv(1-4) _ _ disjI1 [OF refl], of "num mod 2 ^ 31" 0 False smp atype dir] False
  show ?thesis
    using inv by (auto simp: new_blocks_post_def store_inv_def nova_get_numblocks_def
        split: sum.splits prod.splits)
qed

interpretation nova_store: block_store store_inv store_free store_home store_take store_give
proof
  fix st :: "nova_env \<times> sb_info" and r :: "nat \<times> alloc_type \<times> nova_alloc_direction \<times> nat"
    and b m :: nat
  obtain E sbi where st: "st = (E, sbi)" by (cases st)
  obtain num atype dir smp where r: "r = (num, atype, dir, smp)" by (cases r)
  assume inv: "store_inv st"
  note post = store_take_post [OF inv [unfolded st], of smp num atype dir]
  note defs = store_take_def store_free_def store_home_def st r
  show "store_inv (fst (store_take r st))"
    using post inv by (auto simp: defs split: prod.splits sum.splits)
  show "store_home (fst (store_take r st)) b m = store_home st b m"
    using post by (auto simp: defs split: prod.splits sum.splits)
  show "store_free (fst (store_take r st)) = store_free st" if "snd (store_take r st) = None"
    using post that by (auto simp: defs split: prod.splits sum.splits)
  show "0 < m \<and> store_home st b m \<and> {b..<b + m} \<subseteq> store_free st \<and>
      store_free (fst (store_take r st)) = store_free st - {b..<b + m}"
    if "snd (store_take r st) = Some (b, m)"
    using post that by (auto simp: defs split: prod.splits sum.splits)
  show "snd (store_give b m st) \<and> store_inv (fst (store_give b m st)) \<and>
      store_free (fst (store_give b m st)) = store_free st \<union> {b..<b + m} \<and>
      (\<forall>b' m'. store_home (fst (store_give b m st)) b' m' = store_home st b' m')"
    if m: "0 < m" "store_home st b m" "{b..<b + m} \<inter> store_free st = {}"
  proof -
    obtain sbi' ret where g: "nova_free_blocks E sbi b (int m) 0 False = (sbi', ret)" by fastforce
    have "m < 2 ^ 64"
      using home_bound [of E sbi b m] inv m by (simp add: st store_inv_def store_home_def)
    then show ?thesis
      using free_blocks_ok [of E sbi "int m" m 0 b False sbi' ret] inv m g
      by (auto simp: store_give_def store_inv_def store_free_def store_home_def st kmem_total_def
          nova_get_numblocks_def)
  qed
qed

end
