(* ===== verification/Balloc_Init.thy ===== *)
theory Balloc_Init
  imports Balloc_Sb
begin

text \<open>
  Formatting: \<open>nova_alloc_block_free_lists\<close> and \<open>nova_init_blockmap\<close> divide the device among the
  CPUs. Every list gets its equal share without the reserved blocks at the head of the device
  and at its tail, without the two copies of its data checksums and without its parity blocks.
\<close>

subsection \<open>Where a list starts and ends\<close>

definition share :: "nat \<Rightarrow> nat \<Rightarrow> nat" where
  "share n k = n div k + (if n mod k \<noteq> 0 then 1 else 0)"

definition csum_share :: "sb_info \<Rightarrow> nat" where
  "csum_share sbi = share (initsize sbi div 512 * 4 div 4096) (cpus sbi)"

definition parity_share :: "sb_info \<Rightarrow> nat" where
  "parity_share sbi =
     share (share (initsize sbi div blocksize sbi) (blocksize sbi div 512 + 1)) (cpus sbi)"

definition list_start :: "sb_info \<Rightarrow> nat \<Rightarrow> nat" where
  "list_start sbi i =
     num_blocks sbi div cpus sbi * i + (if i = 0 then head_reserved_blocks sbi else 0) +
     csum_share sbi + parity_share sbi"

definition list_end :: "sb_info \<Rightarrow> nat \<Rightarrow> nat" where
  "list_end sbi i =
     num_blocks sbi div cpus sbi * Suc i - 1 -
     (if i = cpus sbi - 1 then tail_reserved_blocks sbi else 0) - csum_share sbi"

definition geometry_ok :: "sb_info \<Rightarrow> bool" where
  "geometry_ok sbi \<longleftrightarrow>
     0 < cpus sbi \<and> cpus sbi < 2 ^ 31 \<and> num_blocks sbi < 2 ^ 32 \<and> initsize sbi < 2 ^ 64 \<and>
     0 < blocksize sbi \<and> blocksize sbi < 2 ^ 32 \<and> 0 < head_reserved_blocks sbi \<and>
     head_reserved_blocks sbi + tail_reserved_blocks sbi + 2 * csum_share sbi + parity_share sbi
       < num_blocks sbi div cpus sbi"

lemma geometry_bounds:
  assumes g: "geometry_ok sbi" and i: "i < cpus sbi"
  defines "per \<equiv> num_blocks sbi div cpus sbi"
  shows "per * i + per \<le> num_blocks sbi" "per * i + per < 2 ^ 32"
    "0 < list_start sbi i" "per * i \<le> list_start sbi i" "list_start sbi i \<le> list_end sbi i"
    "list_end sbi i < per * Suc i" "list_end sbi i < 2 ^ 32"
proof -
  have "per * Suc i \<le> per * cpus sbi" using i by (intro mult_le_mono2) simp
  also have "\<dots> \<le> num_blocks sbi" by (simp add: per_def)
  finally show le: "per * i + per \<le> num_blocks sbi" by simp
  then show lt: "per * i + per < 2 ^ 32" using g by (simp add: geometry_ok_def)
  have room: "head_reserved_blocks sbi + tail_reserved_blocks sbi + 2 * csum_share sbi + parity_share sbi
       < per" "0 < head_reserved_blocks sbi" using g by (simp_all add: geometry_ok_def per_def)
  show "per * i \<le> list_start sbi i" by (simp add: list_start_def per_def)
  show "0 < list_start sbi i"
    using room by (cases "i = 0") (auto simp: list_start_def per_def [symmetric])
  show "list_start sbi i \<le> list_end sbi i"
    using room by (auto simp: list_start_def list_end_def per_def [symmetric])
  show "list_end sbi i < per * Suc i"
    using room by (auto simp: list_end_def per_def [symmetric])
  then show "list_end sbi i < 2 ^ 32" using lt by simp
qed

lemma reserved_outside:
  assumes g: "geometry_ok sbi" and i: "i < cpus sbi"
  shows "head_reserved_blocks sbi \<le> list_start sbi i"
    "list_end sbi i < num_blocks sbi - tail_reserved_blocks sbi"
proof -
  define per where "per = num_blocks sbi div cpus sbi"
  have room: "head_reserved_blocks sbi + tail_reserved_blocks sbi + 2 * csum_share sbi + parity_share sbi
       < per" using g by (simp add: geometry_ok_def per_def)
  have le: "per * j \<le> num_blocks sbi" if "j \<le> cpus sbi" for j
  proof -
    have "per * j \<le> per * cpus sbi" using that by simp
    also have "\<dots> \<le> num_blocks sbi" by (simp add: per_def)
    finally show ?thesis .
  qed
  show "head_reserved_blocks sbi \<le> list_start sbi i"
    using room by (cases i) (auto simp: list_start_def per_def [symmetric])
  show "list_end sbi i < num_blocks sbi - tail_reserved_blocks sbi"
  proof (cases "i = cpus sbi - 1")
    case True
    have "per \<le> per * Suc i" "per * Suc i \<le> num_blocks sbi" using le [of "Suc i"] i by simp_all
    then show ?thesis
      using room unfolding list_end_def per_def [symmetric] if_P [OF True] by linarith
  next
    case False
    then have "per * Suc (Suc i) \<le> num_blocks sbi" using i by (intro le) simp
    then show ?thesis using room False by (simp add: list_end_def per_def [symmetric])
  qed
qed

text \<open>The steps of \<open>nova_init_free_list\<close>, with the wrap-around resolved.\<close>

lemma csum_init_eq:
  assumes "initsize sbi < 2 ^ 64" "block_start f + csum_share sbi < 2 ^ 32"
    "block_end f < 2 ^ 32" "csum_share sbi \<le> block_end f"
  shows "nova_data_csum_init_free_list sbi f =
      f\<lparr>csum_start := block_start f, block_start := block_start f + csum_share sbi,
        num_csum_blocks := csum_share sbi, replica_csum_start := block_end f + 1 - csum_share sbi,
        block_end := block_end f - csum_share sbi\<rparr>"
proof -
  have cs: "u64_mul (initsize sbi div 512) 4 = initsize sbi div 512 * 4" using assms(1) by simp
  define d where "d = initsize sbi div 512 * 4 div 4096"
  have C: "csum_share sbi = d div cpus sbi + (if d mod cpus sbi \<noteq> 0 then 1 else 0)"
    by (simp add: csum_share_def share_def d_def)
  show ?thesis
    using assms(2-)
    by (auto simp: nova_data_csum_init_free_list_def PAGE_SHIFT_def NOVA_STRIPE_SHIFT_def
        NOVA_DATA_CSUM_LEN_def drop_bit_eq_div cs d_def [symmetric] C Let_def)
qed

lemma parity_init_eq:
  assumes "initsize sbi < 2 ^ 64" "block_start f + parity_share sbi < 2 ^ 32"
    "block_end f < 2 ^ 32" "parity_share sbi \<le> block_end f"
  shows "nova_data_parity_init_free_list sbi f =
      f\<lparr>parity_start := block_start f, block_start := block_start f + parity_share sbi,
        num_parity_blocks := parity_share sbi,
        replica_parity_start := block_end f + 1 - parity_share sbi\<rparr>"
proof -
  let ?t = "initsize sbi div blocksize sbi" and ?k = "blocksize sbi div 512 + 1"
  have t: "?t < 2 ^ 64" using assms(1) by (meson div_le_dividend le_less_trans)
  define d where "d = share ?t ?k"
  have p: "(if ?t mod ?k \<noteq> 0 then u64_add (?t div ?k) 1 else ?t div ?k) = d"
  proof (cases "?t mod ?k = 0")
    case False
    then have "?k \<noteq> 1" "?t \<noteq> 0" by (metis mod_by_1, metis mod_0)
    then have "?t div ?k < ?t" by (intro div_less_dividend) auto
    then show ?thesis using t False by (simp add: share_def d_def)
  qed (simp add: share_def d_def)
  have P: "parity_share sbi = d div cpus sbi + (if d mod cpus sbi \<noteq> 0 then 1 else 0)"
    by (simp add: parity_share_def share_def [of _ "cpus sbi"] d_def)
  show ?thesis
    unfolding nova_data_parity_init_free_list_def NOVA_STRIPE_SIZE_def Let_def p
    using assms(2-) by (auto simp: P)
qed

lemma init_free_list_fields:
  assumes g: "geometry_ok sbi" and i: "i < cpus sbi"
  shows "block_start (nova_init_free_list sbi fl i) = list_start sbi i"
    "block_end (nova_init_free_list sbi fl i) = list_end sbi i"
    "csum_start (nova_init_free_list sbi fl i) + csum_share sbi + parity_share sbi = list_start sbi i"
    "parity_start (nova_init_free_list sbi fl i) + parity_share sbi = list_start sbi i"
    "replica_csum_start (nova_init_free_list sbi fl i) = list_end sbi i + 1"
    "num_csum_blocks (nova_init_free_list sbi fl i) = csum_share sbi"
    "num_parity_blocks (nova_init_free_list sbi fl i) = parity_share sbi"
    "block_free_tree (nova_init_free_list sbi fl i) = block_free_tree fl"
    "csum_start (nova_init_free_list sbi fl i) = num_blocks sbi div cpus sbi * i +
       (if i = 0 then head_reserved_blocks sbi else 0)"
    "replica_parity_start (nova_init_free_list sbi fl i) = list_end sbi i + 1 - parity_share sbi"
proof -
  define per where "per = num_blocks sbi div cpus sbi"
  note b = geometry_bounds [OF g i, folded per_def]
  have room: "head_reserved_blocks sbi + tail_reserved_blocks sbi + 2 * csum_share sbi + parity_share sbi
       < per" "initsize sbi < 2 ^ 64" using g by (simp_all add: geometry_ok_def per_def)
  define f where "f = fl\<lparr>block_start := per * i + (if i = 0 then head_reserved_blocks sbi else 0),
    block_end := per * i + per - 1 - (if i = cpus sbi - 1 then tail_reserved_blocks sbi else 0)\<rparr>"
  have "nova_init_free_list sbi fl i =
      nova_data_parity_init_free_list sbi (nova_data_csum_init_free_list sbi f)"
    unfolding nova_init_free_list_def Let_def per_def [symmetric]
    by (intro arg_cong [where f = "\<lambda>x. nova_data_parity_init_free_list sbi
          (nova_data_csum_init_free_list sbi x)"] free_list.equality)
      (use b(2) room in \<open>auto simp: f_def\<close>)
  also have "nova_data_csum_init_free_list sbi f =
      f\<lparr>csum_start := block_start f, block_start := block_start f + csum_share sbi,
        num_csum_blocks := csum_share sbi, replica_csum_start := block_end f + 1 - csum_share sbi,
        block_end := block_end f - csum_share sbi\<rparr>"
    by (rule csum_init_eq) (use b(2) room in \<open>auto simp: f_def\<close>)
  also have "nova_data_parity_init_free_list sbi \<dots> = \<dots>
      \<lparr>parity_start := block_start f + csum_share sbi,
       block_start := block_start f + csum_share sbi + parity_share sbi,
       num_parity_blocks := parity_share sbi,
       replica_parity_start := block_end f - csum_share sbi + 1 - parity_share sbi\<rparr>"
    by (subst parity_init_eq) (use b(2) room in \<open>auto simp: f_def\<close>)
  finally have eq: "nova_init_free_list sbi fl i = \<dots>" .
  show "block_start (nova_init_free_list sbi fl i) = list_start sbi i"
    "block_end (nova_init_free_list sbi fl i) = list_end sbi i"
    "csum_start (nova_init_free_list sbi fl i) + csum_share sbi + parity_share sbi = list_start sbi i"
    "parity_start (nova_init_free_list sbi fl i) + parity_share sbi = list_start sbi i"
    "replica_csum_start (nova_init_free_list sbi fl i) = list_end sbi i + 1"
    "num_csum_blocks (nova_init_free_list sbi fl i) = csum_share sbi"
    "num_parity_blocks (nova_init_free_list sbi fl i) = parity_share sbi"
    "block_free_tree (nova_init_free_list sbi fl i) = block_free_tree fl"
    "csum_start (nova_init_free_list sbi fl i) = num_blocks sbi div cpus sbi * i +
       (if i = 0 then head_reserved_blocks sbi else 0)"
    "replica_parity_start (nova_init_free_list sbi fl i) = list_end sbi i + 1 - parity_share sbi"
    unfolding eq using room b(2)
    by (auto simp: f_def list_start_def list_end_def per_def [symmetric])
qed

subsection \<open>The loop over the CPUs\<close>

text \<open>
  The state before round \<open>i\<close>: the lists below \<open>i\<close> are full, the others still have no node.
\<close>

definition same_geometry :: "sb_info \<Rightarrow> sb_info \<Rightarrow> bool" where
  "same_geometry sbi sbi' \<longleftrightarrow>
     num_blocks sbi' = num_blocks sbi \<and> blocksize sbi' = blocksize sbi \<and>
     initsize sbi' = initsize sbi \<and> head_reserved_blocks sbi' = head_reserved_blocks sbi \<and>
     tail_reserved_blocks sbi' = tail_reserved_blocks sbi \<and> cpus sbi' = cpus sbi \<and>
     per_list_blocks sbi' = per_list_blocks sbi"

definition init_upto :: "nova_env \<Rightarrow> sb_info \<Rightarrow> nat \<Rightarrow> sb_info \<Rightarrow> bool" where
  "init_upto E sbi i sbi' \<longleftrightarrow>
     same_geometry sbi sbi' \<and> finite (live (nodes sbi')) \<and> length (free_lists sbi') = cpus sbi \<and>
     (\<forall>j < i. free_list_inv E (nodes sbi') (free_lists sbi' ! j) \<and>
        block_start (free_lists sbi' ! j) = list_start sbi j \<and>
        block_end (free_lists sbi' ! j) = list_end sbi j \<and>
        free_set (nodes sbi') (free_lists sbi' ! j) = {list_start sbi j..list_end sbi j}) \<and>
     (\<forall>j < i. \<forall>k < i. j \<noteq> k \<longrightarrow>
        set (fl_nodes (free_lists sbi' ! j)) \<inter> set (fl_nodes (free_lists sbi' ! k)) = {}) \<and>
     (\<forall>j. i \<le> j \<longrightarrow> j < cpus sbi \<longrightarrow> block_free_tree (free_lists sbi' ! j) = Leaf)"

lemma same_geometry_start:
  assumes "same_geometry sbi sbi'"
  shows "list_start sbi' = list_start sbi" "list_end sbi' = list_end sbi"
    "geometry_ok sbi' = geometry_ok sbi"
  using assms by (auto simp: same_geometry_def fun_eq_iff list_start_def list_end_def geometry_ok_def
      csum_share_def parity_share_def)

lemma single_node_list:
  assumes lib: "rb_lib_ok E" and p: "p \<in> live s" and lh: "l \<le> h" "h < 2 ^ 32"
    and s': "s' = nova_update_range_node_checksum E p (set_high p h (set_low p l s))"
  shows "\<exists>t. nova_insert_blocktree E s' Leaf p = Inr t \<and> inorder t = [p]"
    "block_free_tree fl' = t \<Longrightarrow> inorder t = [p] \<Longrightarrow> first_node fl' = Some p \<Longrightarrow> last_node fl' = Some p \<Longrightarrow>
     num_blocknode fl' = 1 \<Longrightarrow> num_free_blocks fl' = Suc h - l \<Longrightarrow> block_start fl' = l \<Longrightarrow>
     block_end fl' = h \<Longrightarrow> free_list_inv E s' fl' \<and> free_set s' fl' = {l..h} \<and> fl_nodes fl' = [p]"
proof -
  show "\<exists>t. nova_insert_blocktree E s' Leaf p = Inr t \<and> inorder t = [p]"
    using lib by (simp add: nova_insert_blocktree_def nova_insert_range_node_def rb_lib_ok_def)
  have sp: "span s' p = (l, h)" "node_ok E s' p" "p \<in> live s'" using p by (auto simp: s')
  show "free_list_inv E s' fl' \<and> free_set s' fl' = {l..h} \<and> fl_nodes fl' = [p]"
    if "block_free_tree fl' = t" "inorder t = [p]" "first_node fl' = Some p" "last_node fl' = Some p"
     "num_blocknode fl' = 1" "num_free_blocks fl' = Suc h - l" "block_start fl' = l" "block_end fl' = h"
  proof -
    have nd: "fl_nodes fl' = [p]" using that by (simp add: fl_nodes_def)
    then show ?thesis
      using that sp lh
      by (simp add: free_list_inv_def free_set_blocks nodes_inv_simps range_simps range_size_def
          end_options)
  qed
qed

lemma init_upto_Suc:
  assumes u: "init_upto E sbi i st" and i: "i < cpus sbi"
    and agr: "agree (nodes st) s2 (live (nodes st))" and p: "p \<notin> live (nodes st)" "finite (live s2)"
    and new: "free_list_inv E s2 fl" "free_set s2 fl = {list_start sbi i..list_end sbi i}"
      "fl_nodes fl = [p]" "block_start fl = list_start sbi i" "block_end fl = list_end sbi i"
  shows "init_upto E sbi (Suc i) (set_free_list (int i) fl s2 st)"
proof -
  let ?L = "free_lists st" and ?s = "nodes st"
  have len: "length ?L = cpus sbi" using u by (simp add: init_upto_def)
  have old: "free_list_inv E s2 (?L ! j)" "p \<notin> set (fl_nodes (?L ! j))"
    "free_set s2 (?L ! j) = free_set ?s (?L ! j)" if "j < i" for j
  proof -
    have inv: "free_list_inv E ?s (?L ! j)" using u that by (simp add: init_upto_def)
    have sub: "set (fl_nodes (?L ! j)) \<subseteq> live ?s"
      using inv by (simp add: free_list_inv_def nodes_inv_def)
    note ag = free_list_inv_agree [OF inv agree_subset [OF agr sub]]
    show "free_list_inv E s2 (?L ! j)" "free_set s2 (?L ! j) = free_set ?s (?L ! j)" using ag by auto
    show "p \<notin> set (fl_nodes (?L ! j))" using sub p(1) by auto
  qed
  have nth: "?L[i := fl] ! j = (if j = i then fl else ?L ! j)" if "j < cpus sbi" for j
    using that len by (simp add: nth_list_update)
  have geo: "same_geometry sbi (set_free_list (int i) fl s2 st)"
    using u by (simp add: init_upto_def same_geometry_def set_free_list_def)
  have "\<forall>j < Suc i. free_list_inv E s2 (?L[i := fl] ! j) \<and>
      block_start (?L[i := fl] ! j) = list_start sbi j \<and> block_end (?L[i := fl] ! j) = list_end sbi j \<and>
      free_set s2 (?L[i := fl] ! j) = {list_start sbi j..list_end sbi j}"
    using u new old i by (auto simp: nth init_upto_def less_Suc_eq)
  moreover have "\<forall>j < Suc i. \<forall>k < Suc i. j \<noteq> k \<longrightarrow>
      set (fl_nodes (?L[i := fl] ! j)) \<inter> set (fl_nodes (?L[i := fl] ! k)) = {}"
    using u new(3) old(2) i by (auto simp: nth init_upto_def less_Suc_eq)
  moreover have "\<forall>j. Suc i \<le> j \<longrightarrow> j < cpus sbi \<longrightarrow> block_free_tree (?L[i := fl] ! j) = Leaf"
    using u by (auto simp: nth init_upto_def)
  ultimately show ?thesis
    using geo p(2) len by (simp add: init_upto_def)
qed

lemma init_round:
  assumes lib: "rb_lib_ok E" and kmem: "kmem_ok E" "kmem_total E" and g: "geometry_ok sbi"
    and i: "i < cpus sbi" and u: "init_upto E sbi i st"
  shows "\<exists>st'. init_blockmap_list E False i st = Inr (st', True) \<and> init_upto E sbi (Suc i) st'"
proof -
  have geo: "same_geometry sbi st" and len: "length (free_lists st) = cpus sbi"
    and fin: "finite (live (nodes st))" and leaf: "block_free_tree (free_lists st ! i) = Leaf"
    using u i by (auto simp: init_upto_def)
  have g': "geometry_ok st" and i': "i < cpus st"
    using g i geo same_geometry_start(3) [OF geo] by (auto simp: same_geometry_def)
  let ?f = "nova_init_free_list st (free_lists st ! i) i"
  note flds = init_free_list_fields [OF g' i', of "free_lists st ! i", unfolded same_geometry_start(1,2) [OF geo]]
  note b = geometry_bounds [OF g i]
  obtain s1 p where al: "nova_alloc_blocknode E (nodes st) = (s1, Some p)"
    using alloc_blocknode_total [of E "nodes st"] kmem(2) fin by (auto simp: kmem_total_def)
  note a = alloc_range_node_Some [OF kmem(1) al [unfolded nova_alloc_blocknode_def]]
  let ?l = "list_start sbi i" and ?h = "list_end sbi i"
  define s2 where "s2 = nova_update_range_node_checksum E p (set_high p ?h (set_low p ?l s1))"
  note single = single_node_list [OF lib _ b(5,7) s2_def]
  have pl: "p \<in> live s1" using a(3) by simp
  obtain t where t: "nova_insert_blocktree E s2 Leaf p = Inr t" "inorder t = [p]"
    using single(1) [OF pl] by auto
  define fl where "fl = ?f\<lparr>num_free_blocks := Suc ?h - ?l, block_free_tree := t,
      first_node := Some p, last_node := Some p, num_blocknode := 1\<rparr>"
  have cnt: "u64_add (u64_sub ?h ?l) 1 = Suc ?h - ?l" using b(5,7) by simp
  have sel: "block_end (?f\<lparr>num_free_blocks := k\<rparr>) = ?h" "block_start (?f\<lparr>num_free_blocks := k\<rparr>) = ?l"
    "block_free_tree (?f\<lparr>num_free_blocks := k\<rparr>) = Leaf" for k
    using flds(1,2,8) leaf by simp_all
  let ?st = "set_free_list (int i) fl s2 st"
  have run: "init_blockmap_list E False i st = Inr (?st, True)"
    unfolding init_blockmap_list_def get_free_list_nth [OF i [folded len]] sum.case Let_def if_False
      al prod.case option.case sel flds(1,2) cnt
    by (simp only: s2_def [symmetric] t(1) sum.case) (simp only: fl_def)
  have fields: "block_free_tree fl = t" "first_node fl = Some p" "last_node fl = Some p"
    "num_blocknode fl = 1" "num_free_blocks fl = Suc ?h - ?l"
    by (simp_all add: fl_def)
  have ends: "block_start fl = ?l" "block_end fl = ?h"
    by (simp_all add: fl_def flds(1,2))
  note new = single(2) [OF pl fields(1) t(2) fields(2-5) ends]
  have agr: "agree (nodes st) s2 (live (nodes st))"
    unfolding agree_def
  proof
    fix q assume q: "q \<in> live (nodes st)"
    then have "q \<noteq> p" using a(1) by auto
    then show "node_of s2 q = node_of (nodes st) q \<and> q \<in> live s2"
      using a(3) a(6) [of q] q by (simp add: s2_def)
  qed
  have "init_upto E sbi (Suc i) ?st"
    by (rule init_upto_Suc [OF u i agr a(1)]) (use fin a(3) new ends in \<open>simp_all add: s2_def\<close>)
  then show ?thesis using run by blast
qed

lemma init_loop:
  assumes lib: "rb_lib_ok E" and kmem: "kmem_ok E" "kmem_total E" and g: "geometry_ok sbi"
    and u: "init_upto E sbi i st" and i: "i + n = cpus sbi"
  shows "\<exists>st'. init_blockmap_loop E False [i..<i + n] st = Inr st' \<and> init_upto E sbi (cpus sbi) st'"
  using u i
proof (induction n arbitrary: i st)
  case 0
  then show ?case by simp
next
  case (Suc n)
  obtain st1 where st1: "init_blockmap_list E False i st = Inr (st1, True)" "init_upto E sbi (Suc i) st1"
    using init_round [OF lib kmem g _ Suc.prems(1)] Suc.prems(2) by auto
  have upt: "[i..<i + Suc n] = i # [Suc i..<Suc i + n]" by (simp add: upt_conv_Cons)
  obtain st' where "init_blockmap_loop E False [Suc i..<Suc i + n] st1 = Inr st'"
    "init_upto E sbi (cpus sbi) st'"
    using Suc.IH [OF st1(2)] Suc.prems(2) by auto
  then show ?case using st1(1) unfolding upt by (intro exI [of _ st']) simp
qed

lemma init_upto_all:
  assumes g: "geometry_ok sbi" and u: "init_upto E sbi (cpus sbi) st"
    and per: "per_list_blocks sbi = num_blocks sbi div cpus sbi"
  shows "lists_inv E st" "all_free st = (\<Union>i < cpus sbi. {list_start sbi i..list_end sbi i})"
    "finite (live (nodes st))"
proof -
  have geo: "cpus st = cpus sbi" "per_list_blocks st = num_blocks sbi div cpus sbi"
    "length (free_lists st) = cpus sbi" "0 < cpus sbi" "cpus sbi < 2 ^ 31"
    using u g per by (auto simp: init_upto_def same_geometry_def geometry_ok_def)
  have fl: "free_list_inv E (nodes st) (free_lists st ! i)"
    "block_start (free_lists st ! i) = list_start sbi i" "block_end (free_lists st ! i) = list_end sbi i"
    "free_set (nodes st) (free_lists st ! i) = {list_start sbi i..list_end sbi i}" if "i < cpus sbi" for i
    using u that by (auto simp: init_upto_def)
  have "list_bounds st i" if "i < cpus sbi" for i
    using geometry_bounds [OF g that] fl(2,3) [OF that] by (simp add: list_bounds_def geo)
  then show "lists_inv E st"
    using u fl(1) geo by (simp add: lists_inv_def init_upto_def)
  show "all_free st = (\<Union>i < cpus sbi. {list_start sbi i..list_end sbi i})"
    using fl(4) by (simp add: all_free_def geo)
  show "finite (live (nodes st))" using u by (simp add: init_upto_def)
qed

lemma init_blockmap_ok:
  assumes lib: "rb_lib_ok E" and kmem: "kmem_ok E" "kmem_total E" and g: "geometry_ok sbi"
    and fin: "finite (live (nodes sbi))"
  shows "\<exists>st. nova_init_blockmap E False (fst (nova_alloc_block_free_lists True sbi)) = Inr st \<and>
           lists_inv E st \<and> all_free st = (\<Union>i < cpus sbi. {list_start sbi i..list_end sbi i}) \<and>
           finite (live (nodes st)) \<and> cpus st = cpus sbi"
proof -
  define sbi0 where "sbi0 = (fst (nova_alloc_block_free_lists True sbi))
    \<lparr>per_list_blocks := num_blocks sbi div cpus sbi\<rparr>"
  have same: "list_start sbi0 = list_start sbi" "list_end sbi0 = list_end sbi"
    "geometry_ok sbi0 = geometry_ok sbi" "cpus sbi0 = cpus sbi" "num_blocks sbi0 = num_blocks sbi"
    "per_list_blocks sbi0 = num_blocks sbi div cpus sbi"
    by (auto simp: sbi0_def nova_alloc_block_free_lists_def fun_eq_iff list_start_def list_end_def
        geometry_ok_def csum_share_def parity_share_def)
  have "init_upto E sbi0 0 sbi0"
    using fin by (simp add: init_upto_def same_geometry_def sbi0_def nova_alloc_block_free_lists_def)
  then obtain st where st: "init_blockmap_loop E False [0..<0 + cpus sbi] sbi0 = Inr st"
    "init_upto E sbi0 (cpus sbi0) st"
    using init_loop [OF lib kmem _ _, of sbi0 0 sbi0 "cpus sbi"] g same by auto
  have "nova_init_blockmap E False (fst (nova_alloc_block_free_lists True sbi)) = Inr st"
    using st(1) by (simp add: nova_init_blockmap_def sbi0_def nova_alloc_block_free_lists_def)
  moreover have "cpus st = cpus sbi" using st(2) same by (simp add: init_upto_def same_geometry_def)
  ultimately show ?thesis using init_upto_all [OF _ st(2)] g same by simp
qed

end
