(* ===== verification/Demo_Env.thy ===== *)
theory Demo_Env
  imports Nova_Sb
begin

text \<open>
  A concrete environment to evaluate the properties in: the tree operations do no balancing, the
  slab cache hands out a fresh address for every request, and the kernel checksum is the
  reference one.
\<close>

fun tree_join :: "'a tree \<Rightarrow> 'a tree \<Rightarrow> 'a tree" where
  "tree_join l Leaf = l"
| "tree_join l (Node a x b) = Node (tree_join l a) x b"

fun tree_remove :: "'a \<Rightarrow> 'a tree \<Rightarrow> 'a tree" where
  "tree_remove p Leaf = Leaf"
| "tree_remove p (Node l x r) =
     (if x = p then tree_join l r
      else if p \<in> set (inorder l) then Node (tree_remove p l) x r
      else Node l x (tree_remove p r))"

lemma inorder_tree_join [simp]: "inorder (tree_join l r) = inorder l @ inorder r"
  by (induction l r rule: tree_join.induct) simp_all

lemma inorder_tree_remove [simp]: "distinct (inorder t) \<Longrightarrow> inorder (tree_remove p t) = remove1 p (inorder t)"
  by (induction t) (auto simp: remove1_append remove1_idem)

definition demo_env :: nova_env where
  "demo_env =
     \<lparr>rb_insert_color = (\<lambda>p t. t), rb_erase = tree_remove,
      kmem_zalloc = (\<lambda>k S. if Suc k \<in> S then None else Some (Suc k)),
      crc32c = crc32c_ref, xmm2 = True, xmm4_2 = True, support_clwb = True, dram_struct_csum = False,
      metadata_csum = True, unsafe_metadata = False, data_csum = True, data_parity = True,
      media_ok = (\<lambda>_ _. True), mcsafe_rc = 14, kmalloc_ok = (\<lambda>_ _. True)\<rparr>"

lemma demo_env_ok: "rb_lib_ok demo_env" "kmem_ok demo_env" "crc_lib_ok demo_env"
  by (auto simp: rb_lib_ok_def kmem_ok_def crc_lib_ok_def demo_env_def)

text \<open>A device with one CPU whose free blocks are 100 to 1999.\<close>

definition demo_slab :: slab where
  "demo_slab = \<lparr>node_of = (\<lambda>_. zero_node)(1 := zero_node\<lparr>range_low := 100, range_high := 1999\<rparr>),
                live = {1}, requests = 1\<rparr>"

definition demo_list :: free_list where
  "demo_list = kcalloc_free_list\<lparr>block_free_tree := Node Leaf 1 Leaf, first_node := Some 1,
     last_node := Some 1, block_start := 64, block_end := 1999, num_free_blocks := 1900,
     num_blocknode := 1\<rparr>"

definition demo_pm :: pm where
  "demo_pm = \<lparr>mem = (\<lambda>_. 1), trace = []\<rparr>"

definition demo_sb :: sb_info where
  "demo_sb = \<lparr>replica_reserved_inodes_addr = 8183808, num_blocks = 2000, blocksize = 4096, initsize = 8192000, s_inodes_used_count = 0,
     head_reserved_blocks = 64, tail_reserved_blocks = 2, cpus = 1, s_epoch_id = 0,
     mount_snapshot_epoch_id = 0, zero_csum = [], zero_parity = [],
     inode_maps = [], map_id = 0, free_lists = [demo_list], per_list_blocks = 2000,
     nodes = demo_slab, pmem = demo_pm\<rparr>"

end
