(* ===== verification/Balloc_Props.thy ===== *)
theory Balloc_Props
  imports Balloc_Init Demo_Env
begin

text \<open>
  The properties of the block allocator. The concrete free lists at the start serve to
  evaluate them.
\<close>

subsection \<open>A concrete free list\<close>

text \<open>The concrete environment with an allocator that never fails.\<close>

definition demo_env_total :: nova_env where
  "demo_env_total = demo_env\<lparr>kmem_zalloc :=
     (\<lambda>k S. if finite S then Some (Suc (Max (insert 0 S))) else None)\<rparr>"

lemma demo_env_total_ok:
  "rb_lib_ok demo_env_total" "kmem_ok demo_env_total" "kmem_total demo_env_total"
proof -
  have "Suc (Max (insert 0 S)) \<notin> S" if "finite S" for S :: "nat set"
    using that by (metis Max_ge finite.insertI insertCI not_less_eq_eq order_refl)
  then show "kmem_ok demo_env_total" by (simp add: kmem_ok_def demo_env_total_def)
qed (simp_all add: rb_lib_ok_def kmem_total_def demo_env_total_def demo_env_def)

lemma demo_sb_simps [simp]:
  "free_lists demo_sb = [demo_list]" "cpus demo_sb = 1" "nodes demo_sb = demo_slab"
  "per_list_blocks demo_sb = 2000" "live demo_slab = {1}" "pmem demo_sb = demo_pm"
  "num_free_blocks demo_list = 1900" "block_start demo_list = 64" "block_end demo_list = 1999"
  by (simp_all add: demo_sb_def demo_slab_def demo_list_def)

lemma demo_free: "free_set demo_slab demo_list = {100..1999}" "all_free demo_sb = {100..1999}"
  "fl_nodes demo_list = [1]"
  by (simp_all add: free_set_blocks fl_nodes_def demo_list_def demo_slab_def span_def range_simps
      all_free_def lessThan_Suc)

lemma demo_list_inv: "free_list_inv demo_env demo_slab demo_list"
  by (simp add: free_list_inv_def demo_free nodes_inv_simps range_simps range_size_def end_options
      node_ok_def nova_range_node_checksum_ok_def demo_env_def span_def demo_slab_def demo_list_def
      free_set_blocks fl_nodes_def)

lemma demo_inv: "lists_inv demo_env demo_sb"
  by (simp add: lists_inv_def demo_list_inv list_bounds_def)

lemma demo_total_inv: "store_inv (demo_env_total, demo_sb)"
proof -
  have "free_list_inv demo_env_total demo_slab demo_list"
    by (simp add: free_list_inv_def demo_free nodes_inv_simps range_simps range_size_def end_options
        node_ok_def nova_range_node_checksum_ok_def demo_env_total_def demo_env_def span_def
        demo_slab_def demo_list_def free_set_blocks fl_nodes_def)
  then show ?thesis
    using demo_env_total_ok by (simp add: store_inv_def lists_inv_def list_bounds_def)
qed

lemma demo_mem: "kmem_zalloc demo_env (requests (nodes demo_sb)) (live (nodes demo_sb)) \<noteq> None"
  by (simp add: demo_env_def demo_slab_def)

lemma demo_home: "home demo_sb b m = (64 \<le> b \<and> b + m \<le> 2000)"
  by (simp add: home_def)

lemmas demo_eval = nova_new_blocks_def nova_get_numblocks_def nova_get_cpuid_def pick_free_list.simps
  nova_get_free_list_def not_enough_blocks_def nova_alloc_blocks_in_free_list_def rb_walk_def
  alloc_fallback_def alloc_node_def nova_range_node_checksum_ok_def demo_env_def demo_list_def
  demo_slab_def zero_node_def PAGES_PER_2MB_MASK_def Let_def

lemmas demo_ok = demo_env_ok(1,2) demo_inv

subsection \<open>Allocation and freeing\<close>



text \<open>
  A failed \<open>nova_new_blocks\<close> reports \<^verbatim>\<open>ENOSPC\<close> and leaves the free lists, the nodes and the
  persistent memory as they were.
\<close>

theorem new_blocks_failure_changes_nothing:
  assumes "rb_lib_ok E" "kmem_ok E" "lists_inv E sbi"
    and "kmem_zalloc E (requests (nodes sbi)) (live (nodes sbi)) \<noteq> None"
    and "0 < num" "num < 2 ^ 31" "cpuid = ANY_CPU \<or> 0 \<le> cpuid \<and> nat cpuid < cpus sbi"
    and "nova_new_blocks E smp sbi num btype zero atype cpuid dir = (sbi', Inl e)"
  shows "e = ENOSPC \<and> sbi' = sbi"
  using new_blocks_ok [OF assms(1-7), of btype zero smp atype dir] assms(8)
  by (simp add: new_blocks_post_def)

theorem new_blocks_failure_changes_nothing_witness:
  "nova_new_blocks demo_env 0 demo_sb 5 1 False LOG ANY_CPU ALLOC_FROM_TAIL = (demo_sb, Inl ENOSPC)"
proof -
  let ?r = "nova_new_blocks demo_env 0 demo_sb 5 1 False LOG ANY_CPU ALLOC_FROM_TAIL"
  have "snd ?r = Inl ENOSPC"
    by (simp add: demo_eval nova_get_candidate_free_list_def u64_of_int_def)
  then have "?r = (fst ?r, Inl ENOSPC)" by (metis prod.collapse)
  from new_blocks_failure_changes_nothing [OF demo_ok demo_mem _ _ _ this] this
  show ?thesis by simp
qed

text \<open>
  C5: as long as any CPU has a free block, a request for 4 KB data blocks succeeds, whatever CPU
  it starts on and however many blocks it asks for (it may get fewer): the retries end on a list
  that has blocks. The counts of free blocks are assumed to fit an \<^verbatim>\<open>int\<close>, the type the search for
  the fullest list compares them in.
\<close>

theorem new_data_blocks_succeeds:
  assumes "rb_lib_ok E" "kmem_ok E" "lists_inv E sbi"
    and "kmem_zalloc E (requests (nodes sbi)) (live (nodes sbi)) \<noteq> None"
    and "0 < num" "num < 2 ^ 31" "cpuid = ANY_CPU \<or> 0 \<le> cpuid \<and> nat cpuid < cpus sbi"
    and "\<forall>fl \<in> set (free_lists sbi). num_free_blocks fl < 2 ^ 31" "all_free sbi \<noteq> {}"
  shows "\<exists>sbi' b cnt. nova_new_data_blocks E smp sbi 0 num zero cpuid dir = (sbi', Inr (b, cnt))"
  using new_blocks_total [OF assms] by (simp add: nova_new_data_blocks_def)

theorem new_data_blocks_succeeds_witness:
  "\<exists>sbi' b cnt. nova_new_data_blocks demo_env 3 demo_sb 0 5000 True ANY_CPU ALLOC_FROM_TAIL =
     (sbi', Inr (b, cnt))"
  by (rule new_data_blocks_succeeds [OF demo_ok demo_mem]) (simp_all add: demo_free)





text \<open>
  C8: freeing a range whose first block is already free is refused with \<^verbatim>\<open>EINVAL\<close>; no block
  changes hands and the invariant is kept.
\<close>

theorem free_blocks_double_free:
  assumes "kmem_ok E" "lists_inv E sbi"
    and "kmem_zalloc E (requests (nodes sbi)) (live (nodes sbi)) \<noteq> None"
    and "0 < num" "nova_get_numblocks btype * nat num < 2 ^ 64"
    and "home sbi b (nova_get_numblocks btype * nat num)" "b \<in> all_free sbi"
  shows "\<exists>sbi'. nova_free_blocks E sbi b num btype log_page = (sbi', Inl EINVAL) \<and>
           lists_inv E sbi' \<and> all_free sbi' = all_free sbi"
proof -
  obtain sbi' ret where r: "nova_free_blocks E sbi b num btype log_page = (sbi', ret)" by fastforce
  then show ?thesis
    using free_blocks_in_use [OF assms(1-4) refl assms(5-7) r] by auto
qed

theorem free_blocks_double_free_witness:
  "\<exists>sbi'. nova_free_blocks demo_env demo_sb 150 1 1 True = (sbi', Inl EINVAL) \<and>
     all_free sbi' = {100..1999}"
  using free_blocks_double_free [OF demo_ok(2,3) demo_mem, of 1 1 150 True]
  by (auto simp: nova_get_numblocks_def demo_home demo_free)



text \<open>
  A client that returns every range it was given leaves the free blocks as it found them.
\<close>

theorem client_returns_everything:
  assumes "store_inv (E, sbi)"
    and "fold (client_step store_take store_give) ops ((E, sbi), []) = (st, hs)"
  shows "all_free (snd (fst (fold (client_step store_take store_give)
           (replicate (length hs) (Give 0)) (st, hs)))) = all_free sbi"
proof -
  have "nova_store.client_ok (all_free sbi) (st, hs)"
    using nova_store.client_run [OF assms(1), of ops] assms(2) by (simp add: store_free_def)
  then show ?thesis using nova_store.client_drain [of _ "(st, hs)"] by (simp add: store_free_def)
qed

theorem client_returns_everything_witness:
  "\<exists>st hs. fold (client_step store_take store_give) [Take (3, DATA, ALLOC_FROM_HEAD, 0)]
       ((demo_env_total, demo_sb), []) = (st, hs) \<and>
     all_free (snd (fst (fold (client_step store_take store_give)
           (replicate (length hs) (Give 0)) (st, hs)))) = {100..1999}"
proof -
  obtain st hs where r: "fold (client_step store_take store_give) [Take (3, DATA, ALLOC_FROM_HEAD, 0)]
       ((demo_env_total, demo_sb), []) = (st, hs)" by fastforce
  from client_returns_everything [OF demo_total_inv r] r show ?thesis by (auto simp: demo_free)
qed

subsection \<open>Formatting and counting\<close>


definition demo_device :: sb_info where
  "demo_device = demo_sb\<lparr>cpus := 2, free_lists := [], nodes := \<lparr>node_of = (\<lambda>_. zero_node),
     live = {}, requests = 0\<rparr>\<rparr>"

lemma demo_device_layout:
  "geometry_ok demo_device" "list_start demo_device 0 = 184" "list_end demo_device 0 = 991"
  "list_start demo_device 1 = 1120" "list_end demo_device 1 = 1989"
  by (simp_all add: geometry_ok_def csum_share_def parity_share_def share_def demo_device_def
      demo_sb_def list_start_def list_end_def)


text \<open>
  The fields \<open>nova_init_free_list\<close> fills in tile the share of a CPU without gaps or overlaps:
  the data checksums, then the parity blocks, then the free blocks, then the second copy of the
  checksums, up to the blocks reserved at the tail.
\<close>

theorem init_free_list_layout:
  assumes "geometry_ok sbi" "i < cpus sbi"
  shows "let f = nova_init_free_list sbi fl i; per = num_blocks sbi div cpus sbi in
         csum_start f = per * i + (if i = 0 then head_reserved_blocks sbi else 0) \<and>
         parity_start f = csum_start f + num_csum_blocks f \<and>
         block_start f = parity_start f + num_parity_blocks f \<and>
         block_start f \<le> block_end f \<and> replica_csum_start f = block_end f + 1 \<and>
         replica_csum_start f + num_csum_blocks f +
           (if i = cpus sbi - 1 then tail_reserved_blocks sbi else 0) = per * Suc i"
proof -
  define per where "per = num_blocks sbi div cpus sbi"
  note fl = init_free_list_fields [OF assms(1,2), of fl, folded per_def]
  note b = geometry_bounds [OF assms(1,2), folded per_def]
  have "list_end sbi i + 1 + csum_share sbi + (if i = cpus sbi - 1 then tail_reserved_blocks sbi else 0) =
      per * Suc i"
    using assms(1) b(5) unfolding list_end_def geometry_ok_def per_def [symmetric] by auto
  then show ?thesis unfolding Let_def per_def [symmetric] using fl b(5) by auto
qed

theorem init_free_list_layout_witness:
  "block_start (nova_init_free_list demo_device kcalloc_free_list 1) \<le>
     block_end (nova_init_free_list demo_device kcalloc_free_list 1) \<and>
   replica_csum_start (nova_init_free_list demo_device kcalloc_free_list 1) =
     block_end (nova_init_free_list demo_device kcalloc_free_list 1) + 1"
  using init_free_list_layout [OF demo_device_layout(1), of 1 kcalloc_free_list]
  by (simp add: demo_device_def Let_def)

text \<open>
  @@ \<open>nova_count_free_blocks\<close> is the number of free blocks of the device; the sum over the CPUs
  counts no block twice and does not wrap.
\<close>

theorem count_free_blocks_exact:
  assumes "lists_inv E sbi"
  shows "nova_count_free_blocks sbi = card (all_free sbi)"
proof -
  have "sum_list (map num_free_blocks (free_lists sbi)) \<le> length (free_lists sbi) * 2 ^ 32"
    using assms free_list_counts(2)
    by (intro sum_list_le_mult) (auto simp: lists_inv_def in_set_conv_nth)
  moreover have "length (free_lists sbi) * 2 ^ 32 < 2 ^ 64" using assms by (simp add: lists_inv_def)
  ultimately show ?thesis
    using count_free_foldl [of 0 "free_lists sbi"] card_all_free [OF assms]
    by (simp add: nova_count_free_blocks_def)
qed

theorem count_free_blocks_exact_witness: "nova_count_free_blocks demo_sb = card {100..1999 :: nat}"
  using count_free_blocks_exact [OF demo_inv] by (simp add: demo_free)

subsection \<open>Superpages\<close>

text \<open>
  C7: when \<open>nova_alloc_superpage\<close> finds a range, the range starts on a 2 MB boundary, is a multiple
  of 2 MB no larger than the request, and consists of free blocks; the list, once the count is
  lowered by the caller, satisfies its invariant without exactly these blocks. When it finds none
  the list is unchanged.
\<close>

theorem superpage_aligned:
  assumes "rb_lib_ok E" "kmem_ok E" "free_list_inv E s fl"
    and "kmem_zalloc E (requests s) (live s) \<noteq> None" "0 < n" "n < 2 ^ 63" "512 dvd n"
    and "nova_alloc_superpage E s fl n b0 dir = (s', fl', b, r)"
  shows "\<exists>m. r = Inr m \<and>
           (m = 0 \<longrightarrow> s' = s \<and> fl' = fl) \<and>
           (0 < m \<longrightarrow> 512 dvd b \<and> 512 dvd m \<and> m \<le> n \<and> {b..<b + m} \<subseteq> free_set s fl \<and>
              free_list_inv E s' (fl'\<lparr>num_free_blocks := num_free_blocks fl - m\<rparr>) \<and>
              free_set s' fl' = free_set s fl - {b..<b + m})"
proof -
  have ps: "set (rb_walk dir fl) \<subseteq> set (fl_nodes fl)" using set_rb_walk [OF assms(3)] by simp
  show ?thesis
    using superpage_loop_ok [OF assms(1-3) ps assms(5,6)] assms(4,7,8)
    by (cases "superpage_loop E s fl (rb_walk dir fl) n")
      (auto simp: nova_alloc_superpage_def taken_ok_def list_step_def)
qed

theorem superpage_aligned_witness:
  "\<exists>s' fl'. nova_alloc_superpage demo_env demo_slab demo_list 1024 0 ALLOC_FROM_HEAD =
     (s', fl', 512, Inr 1024) \<and> free_set s' fl' = {100..1999} - {512..<1536}"
proof -
  let ?r = "nova_alloc_superpage demo_env demo_slab demo_list 1024 0 ALLOC_FROM_HEAD"
  have "snd (snd ?r) = (512, Inr 1024)"
    by (simp add: nova_alloc_superpage_def rb_walk_def demo_list_def superpage_node_def
        nova_range_node_checksum_ok_def demo_env_def demo_slab_def zero_node_def PAGES_PER_2MB_def
        PAGES_PER_2MB_MASK_def superpage_size_def superpage_take_def nova_alloc_blocknode_def
        nova_alloc_range_node_def set_high_def nova_update_range_node_checksum_def Let_def)
  then have r: "?r = (fst ?r, fst (snd ?r), 512, Inr 1024)" by (metis prod.collapse)
  have "kmem_zalloc demo_env (requests demo_slab) (live demo_slab) \<noteq> None"
    using demo_mem by simp
  then show ?thesis
    using superpage_aligned [OF demo_ok(1,2) demo_list_inv _ _ _ _ r] r by (auto simp: demo_free)
qed

text \<open>
  The left margin is never zero, so an aligned free range is never used from its start: a free
  range of exactly 2 MB that starts on a 2 MB boundary is skipped by a request for 2 MB.
\<close>

theorem superpage_skips_aligned_range:
  assumes "node_ok E s p" "span s p = (l, l + 511)" "512 dvd l" "l < 2 ^ 31"
  shows "superpage_node E s fl p 512 = SpNext 512"
proof -
  have "left_margin_of l = 512" using assms(3) by (simp add: left_margin_of_def dvd_eq_mod_eq_0)
  moreover have "l \<le> l + 511" "l + 511 < 2 ^ 32" using assms(4) by simp_all
  ultimately show ?thesis
    using superpage_node_cases [OF assms(1,2), of 512 fl "superpage_node E s fl p 512 = SpNext 512"]
    by auto
qed

theorem superpage_skips_aligned_range_witness:
  "superpage_node demo_env (demo_slab\<lparr>node_of := (\<lambda>_. zero_node\<lparr>range_low := 1024, range_high := 1535\<rparr>)\<rparr>)
     demo_list 1 512 = SpNext 512"
  by (rule superpage_skips_aligned_range [where l = 1024])
    (simp_all add: node_ok_def nova_range_node_checksum_ok_def demo_env_def span_def)

text \<open>
  C12: when the node for the right margin cannot be allocated, the blocks behind the left margin
  are lost: the free list holds 412 blocks, 412 are handed out, and afterwards the tree is empty
  while the count still says 1488 blocks are free.
\<close>

definition failing_env :: nova_env where
  "failing_env = demo_env\<lparr>kmem_zalloc := (\<lambda>k S. None)\<rparr>"


text \<open>
  The overlap check of \<open>nova_find_free_slot\<close> depends on the shape of the tree: for the same free
  ranges 1-2 and 5-6, freeing 4-5 is refused when the search ends at the node 5-6 and accepted when
  it ends at the node 1-2, although block 5 is free already.
\<close>

definition overlap_slab :: slab where
  "overlap_slab = \<lparr>node_of = (\<lambda>p. if p = 1 then zero_node\<lparr>range_low := 1, range_high := 2\<rparr>
                               else zero_node\<lparr>range_low := 5, range_high := 6\<rparr>),
                   live = {1, 2}, requests = 2\<rparr>"

theorem free_slot_overlap_depends_on_shape:
  "nova_find_free_slot demo_env overlap_slab (Node Leaf 1 (Node Leaf 2 Leaf)) 4 5 = Inl EINVAL \<and>
   nova_find_free_slot demo_env overlap_slab (Node (Node Leaf 1 Leaf) 2 Leaf) 4 5 = Inr (Some 1, Some 2)"
  by (simp add: nova_find_free_slot_def nova_find_range_node_def nova_rbtree_compare_rangenode_def
      nova_range_node_checksum_ok_def overlap_slab_def demo_env_def rb_next_def zero_node_def Let_def)

text \<open>
  The second copy of the parity blocks that \<open>nova_data_parity_init_free_list\<close> records lies inside
  the range the list allocates from.
\<close>

theorem replica_parity_inside_free_range:
  assumes "geometry_ok sbi" "i < cpus sbi" "0 < parity_share sbi"
    and "parity_share sbi \<le> list_end sbi i - list_start sbi i"
  shows "block_start (nova_init_free_list sbi fl i) \<le> replica_parity_start (nova_init_free_list sbi fl i) \<and>
         replica_parity_start (nova_init_free_list sbi fl i) \<le> block_end (nova_init_free_list sbi fl i)"
  unfolding init_free_list_fields(1,2,10) [OF assms(1,2), of fl]
  using geometry_bounds(5) [OF assms(1,2)] assms(3,4) by linarith

theorem replica_parity_inside_free_range_witness:
  "184 \<le> replica_parity_start (nova_init_free_list demo_device kcalloc_free_list 0) \<and>
   replica_parity_start (nova_init_free_list demo_device kcalloc_free_list 0) \<le> 991"
proof -
  have "parity_share demo_device = 112" "0 < cpus demo_device"
    by (simp_all add: parity_share_def share_def demo_device_def demo_sb_def)
  then show ?thesis
    using replica_parity_inside_free_range [OF demo_device_layout(1), of 0 kcalloc_free_list]
      init_free_list_fields(1,2) [OF demo_device_layout(1), of 0 kcalloc_free_list]
    by (simp add: demo_device_layout)
qed

end
