(* ===== verification/Nova_Layout.thy ===== *)
theory Nova_Layout
  imports Nova_Sb
begin

text \<open>
  The on-media structures of \<^verbatim>\<open>inode.h\<close> and \<^verbatim>\<open>log.h\<close>: packed structures as lists of fields with
  their widths, the inode as it is stored, the log entries, and the inline functions that read
  and write them. \<open>inode_info_header\<close> is the part of an inode kept in memory.

  A read through \<^verbatim>\<open>memcpy_mcsafe\<close> fails when the media reports an error in the range; which
  bytes are readable is the field \<open>media_ok\<close> of the environment.
\<close>

subsection \<open>Packed structures\<close>

fun packed_off :: "('f \<times> nat) list \<Rightarrow> 'f \<Rightarrow> nat" where
  "packed_off [] f = 0"
| "packed_off ((g, n) # fs) f = (if g = f then 0 else n + packed_off fs f)"

fun packed_width :: "('f \<times> nat) list \<Rightarrow> 'f \<Rightarrow> nat" where
  "packed_width [] f = 0"
| "packed_width ((g, n) # fs) f = (if g = f then n else packed_width fs f)"

definition packed_size :: "('f \<times> nat) list \<Rightarrow> nat" where
  "packed_size fs = sum_list (map snd fs)"

definition get_field :: "('f \<times> nat) list \<Rightarrow> 'f \<Rightarrow> nat \<Rightarrow> pm \<Rightarrow> nat" where
  "get_field fs f a P = read_le (packed_width fs f) P (a + packed_off fs f)"

definition set_field :: "('f \<times> nat) list \<Rightarrow> 'f \<Rightarrow> nat \<Rightarrow> nat \<Rightarrow> pm \<Rightarrow> pm" where
  "set_field fs f a v P = write_le (packed_width fs f) (a + packed_off fs f) v P"

text \<open>A field of a copy of the structure in memory.\<close>

definition field_of :: "('f \<times> nat) list \<Rightarrow> 'f \<Rightarrow> u8 list \<Rightarrow> nat" where
  "field_of fs f bs = le_nat (take (packed_width fs f) (drop (packed_off fs f) bs))"

definition put_field :: "('f \<times> nat) list \<Rightarrow> 'f \<Rightarrow> nat \<Rightarrow> u8 list \<Rightarrow> u8 list" where
  "put_field fs f v bs =
     take (packed_off fs f) bs @ le_bytes (packed_width fs f) v @
     drop (packed_off fs f + packed_width fs f) bs"

subsection \<open>Inodes\<close>

datatype inode_field =
    I_rsvd | I_valid | I_deleted | I_blk_type | I_flags | I_size | I_ctime | I_mtime | I_atime
  | I_mode | I_links_count | I_xattr | I_uid | I_gid | I_generation | I_create_time
  | I_nova_ino | I_log_head | I_log_tail | I_alter_log_head | I_alter_log_tail
  | I_create_epoch_id | I_delete_epoch_id | I_rdev | I_csum

definition nova_inode :: "(inode_field \<times> nat) list" where
  "nova_inode =
     [(I_rsvd, 1), (I_valid, 1), (I_deleted, 1), (I_blk_type, 1), (I_flags, 4), (I_size, 8),
      (I_ctime, 4), (I_mtime, 4), (I_atime, 4), (I_mode, 2), (I_links_count, 2), (I_xattr, 8),
      (I_uid, 4), (I_gid, 4), (I_generation, 4), (I_create_time, 4), (I_nova_ino, 8),
      (I_log_head, 8), (I_log_tail, 8), (I_alter_log_head, 8), (I_alter_log_tail, 8),
      (I_create_epoch_id, 8), (I_delete_epoch_id, 8), (I_rdev, 4), (I_csum, 4)]"

definition sizeof_nova_inode :: nat where
  "sizeof_nova_inode = packed_size nova_inode"

definition NOVA_INODE_SIZE :: nat where "NOVA_INODE_SIZE = 128"
definition NOVA_INODE_BITS :: nat where "NOVA_INODE_BITS = 7"
definition NOVA_DEF_BLOCK_SIZE_4K :: nat where "NOVA_DEF_BLOCK_SIZE_4K = 4096"
definition NOVA_NORMAL_INODE_START :: nat where "NOVA_NORMAL_INODE_START = 32"
definition RESERVE_INODE_START :: nat where "RESERVE_INODE_START = 1"
definition INODE_TABLE0_START :: nat where "INODE_TABLE0_START = 16"
definition INODE_TABLE1_START :: nat where "INODE_TABLE1_START = 32"
definition JOURNAL_START :: nat where "JOURNAL_START = 48"

text \<open>
  The radix tree from file page numbers to the write entries holding them is a map; the
  directory tree is a range tree. The mmap bookkeeping is left out.
\<close>

record inode_info_header =
  radix :: "nat \<Rightarrow> ptr option"
  rb_tree :: "ptr tree"
  i_mode :: nat
  i_flags :: nat
  log_pages :: nat
  i_size :: nat
  i_blocks :: nat
  ino :: nat
  pi_addr :: nat
  alter_pi_addr :: nat
  valid_entries :: nat
  num_entries :: nat
  last_setattr :: nat
  last_link_change :: nat
  last_dentry :: nat
  trans_id :: nat
  log_head :: nat
  log_tail :: nat
  alter_log_head :: nat
  alter_log_tail :: nat
  i_blk_type :: nat

definition memcpy_mcsafe :: "nova_env \<Rightarrow> pm \<Rightarrow> nat \<Rightarrow> nat \<Rightarrow> u8 list option" where
  "memcpy_mcsafe E P a n =
     (if list_all (media_ok E (trace P)) [a..<a + n] then Some (get_bytes (mem P) a n) else None)"

definition nova_get_inode :: "nova_env \<Rightarrow> pm \<Rightarrow> inode_info_header \<Rightarrow> nat option" where
  "nova_get_inode E P sih =
     (case memcpy_mcsafe E P (pi_addr sih) sizeof_nova_inode of
        None \<Rightarrow> None
      | Some fake_pi \<Rightarrow> Some (pi_addr sih))"

definition nova_get_alter_inode :: "nova_env \<Rightarrow> pm \<Rightarrow> inode_info_header \<Rightarrow> nat option" where
  "nova_get_alter_inode E P sih =
     (if \<not> metadata_csum E then None
      else case memcpy_mcsafe E P (alter_pi_addr sih) sizeof_nova_inode of
             None \<Rightarrow> None
           | Some fake_pi \<Rightarrow> Some (alter_pi_addr sih))"

definition nova_update_alter_inode ::
    "nova_env \<Rightarrow> inode_info_header \<Rightarrow> nat \<Rightarrow> pm \<Rightarrow> pm \<times> unit res" where
  "nova_update_alter_inode E sih pi P =
     (if \<not> metadata_csum E then (P, Inr ())
      else case nova_get_alter_inode E P sih of
             None \<Rightarrow> (P, Inl EINVAL)
           | Some alter_pi \<Rightarrow>
               (memcpy_to_pmem_nocache alter_pi (get_bytes (mem P) pi sizeof_nova_inode) P, Inr ()))"

definition inode_crc :: "nova_env \<Rightarrow> u8 list \<Rightarrow> nat" where
  "inode_crc E bs = unat (env_crc E (NOT 0) (take (sizeof_nova_inode - 4) bs))"

definition nova_update_inode_checksum :: "nova_env \<Rightarrow> nat \<Rightarrow> pm \<Rightarrow> pm" where
  "nova_update_inode_checksum E pi P =
     (let P = (if metadata_csum E
               then set_field nova_inode I_csum pi
                      (inode_crc E (get_bytes (mem P) pi sizeof_nova_inode)) P
               else P)
      in nova_flush_buffer (support_clwb E) pi sizeof_nova_inode True P)"

text \<open>The check runs on a copy of the inode in memory; True means the checksum is right.\<close>

definition nova_check_inode_checksum :: "nova_env \<Rightarrow> u8 list \<Rightarrow> bool" where
  "nova_check_inode_checksum E pi =
     (if \<not> metadata_csum E then True else field_of nova_inode I_csum pi = inode_crc E pi)"

definition nova_update_tail :: "nova_env \<Rightarrow> nat \<Rightarrow> nat \<Rightarrow> pm \<Rightarrow> pm" where
  "nova_update_tail E pi new_tail P =
     nova_flush_buffer (support_clwb E) (pi + packed_off nova_inode I_log_tail) CACHELINE_SIZE True
       (set_field nova_inode I_log_tail pi new_tail (PERSISTENT_BARRIER P))"

definition nova_update_alter_tail :: "nova_env \<Rightarrow> nat \<Rightarrow> nat \<Rightarrow> pm \<Rightarrow> pm" where
  "nova_update_alter_tail E pi new_tail P =
     (if \<not> metadata_csum E then P
      else nova_flush_buffer (support_clwb E) (pi + packed_off nova_inode I_alter_log_tail)
             CACHELINE_SIZE True
             (set_field nova_inode I_alter_log_tail pi new_tail (PERSISTENT_BARRIER P)))"

record inode_update =
  upd_head :: nat
  upd_alter_head :: nat
  upd_tail :: nat
  upd_alter_tail :: nat
  upd_curr_entry :: nat
  upd_alter_entry :: nat
  upd_create_dentry :: nat
  upd_delete_dentry :: nat

definition nova_update_inode ::
    "nova_env \<Rightarrow> inode_info_header \<Rightarrow> nat \<Rightarrow> inode_update \<Rightarrow> bool \<Rightarrow> pm \<Rightarrow> inode_info_header \<times> pm" where
  "nova_update_inode E sih pi upd update_alter P =
     (let sih = sih\<lparr>log_tail := upd_tail upd, alter_log_tail := upd_alter_tail upd\<rparr>;
          P = nova_update_tail E pi (upd_tail upd) P;
          P = (if metadata_csum E then nova_update_alter_tail E pi (upd_alter_tail upd) P else P);
          P = nova_update_inode_checksum E pi P
      in (sih, if update_alter then fst (nova_update_alter_inode E sih pi P) else P))"

text \<open>The table of a CPU that does not exist is the null pointer.\<close>

definition nova_get_inode_table :: "sb_info \<Rightarrow> nat \<Rightarrow> nat \<Rightarrow> nat option" where
  "nova_get_inode_table sbi version cpu =
     (if cpus sbi \<le> cpu then None
      else Some (NOVA_DEF_BLOCK_SIZE_4K *
                   (if even version then INODE_TABLE0_START else INODE_TABLE1_START) +
                 cpu * CACHELINE_SIZE))"

definition nova_get_reserved_inode_addr :: "nat \<Rightarrow> nat" where
  "nova_get_reserved_inode_addr inode_number =
     NOVA_DEF_BLOCK_SIZE_4K * RESERVE_INODE_START + inode_number * NOVA_INODE_SIZE"

definition nova_get_alter_reserved_inode_addr :: "sb_info \<Rightarrow> nat \<Rightarrow> nat" where
  "nova_get_alter_reserved_inode_addr sbi inode_number =
     replica_reserved_inodes_addr sbi + inode_number * NOVA_INODE_SIZE"

definition nova_get_inode_by_ino :: "nat \<Rightarrow> nat option" where
  "nova_get_inode_by_ino i =
     (if i = 0 \<or> NOVA_NORMAL_INODE_START \<le> i then None
      else Some (nova_get_reserved_inode_addr i))"

definition nova_get_head_tail ::
    "nova_env \<Rightarrow> pm \<Rightarrow> nat \<Rightarrow> inode_info_header \<Rightarrow> inode_info_header option" where
  "nova_get_head_tail E P pi sih =
     map_option (\<lambda>fake_pi.
         sih\<lparr>i_blk_type := field_of nova_inode I_blk_type fake_pi,
             log_head := field_of nova_inode I_log_head fake_pi,
             log_tail := field_of nova_inode I_log_tail fake_pi,
             alter_log_head := field_of nova_inode I_alter_log_head fake_pi,
             alter_log_tail := field_of nova_inode I_alter_log_tail fake_pi\<rparr>)
       (memcpy_mcsafe E P pi sizeof_nova_inode)"

subsection \<open>Log entries\<close>

definition LOG_BLOCK_TAIL :: nat where "LOG_BLOCK_TAIL = 4064"

definition BLOCK_OFF :: "nat \<Rightarrow> nat" where "BLOCK_OFF p = p - (p AND 4095)"
definition ENTRY_LOC :: "nat \<Rightarrow> nat" where "ENTRY_LOC p = p AND 4095"
definition PAGE_TAIL :: "nat \<Rightarrow> nat" where "PAGE_TAIL p = BLOCK_OFF p + LOG_BLOCK_TAIL"

datatype page_tail_field =
  T_invalid_entries | T_num_entries | T_epoch_id | T_alter_page | T_next_page

definition nova_inode_page_tail :: "(page_tail_field \<times> nat) list" where
  "nova_inode_page_tail =
     [(T_invalid_entries, 4), (T_num_entries, 4), (T_epoch_id, 8), (T_alter_page, 8),
      (T_next_page, 8)]"

datatype entry_type =
  FILE_WRITE | DIR_LOG | SET_ATTR | LINK_CHANGE | MMAP_WRITE | SNAPSHOT_INFO | NEXT_PAGE

fun entry_type_code :: "entry_type \<Rightarrow> nat" where
  "entry_type_code FILE_WRITE = 1"
| "entry_type_code DIR_LOG = 2"
| "entry_type_code SET_ATTR = 3"
| "entry_type_code LINK_CHANGE = 4"
| "entry_type_code MMAP_WRITE = 5"
| "entry_type_code SNAPSHOT_INFO = 6"
| "entry_type_code NEXT_PAGE = 7"

datatype write_field =
    W_entry_type | W_reassigned | W_updating | W_padding | W_num_pages | W_block | W_pgoff
  | W_invalid_pages | W_mtime | W_size | W_epoch_id | W_trans_id | W_csumpadding | W_csum

definition nova_file_write_entry :: "(write_field \<times> nat) list" where
  "nova_file_write_entry =
     [(W_entry_type, 1), (W_reassigned, 1), (W_updating, 1), (W_padding, 1), (W_num_pages, 4),
      (W_block, 8), (W_pgoff, 8), (W_invalid_pages, 4), (W_mtime, 4), (W_size, 8),
      (W_epoch_id, 8), (W_trans_id, 8), (W_csumpadding, 4), (W_csum, 4)]"

datatype dentry_field =
    D_entry_type | D_name_len | D_reassigned | D_invalid | D_de_len | D_links_count | D_mtime
  | D_csum | D_ino | D_padding | D_epoch_id | D_trans_id | D_name

definition nova_dentry :: "(dentry_field \<times> nat) list" where
  "nova_dentry =
     [(D_entry_type, 1), (D_name_len, 1), (D_reassigned, 1), (D_invalid, 1), (D_de_len, 2),
      (D_links_count, 2), (D_mtime, 4), (D_csum, 4), (D_ino, 8), (D_padding, 8),
      (D_epoch_id, 8), (D_trans_id, 8), (D_name, 256)]"

datatype setattr_field =
    S_entry_type | S_attr | S_mode | S_uid | S_gid | S_atime | S_mtime | S_ctime | S_size
  | S_epoch_id | S_trans_id | S_invalid | S_paddings | S_csum

definition nova_setattr_logentry :: "(setattr_field \<times> nat) list" where
  "nova_setattr_logentry =
     [(S_entry_type, 1), (S_attr, 1), (S_mode, 2), (S_uid, 4), (S_gid, 4), (S_atime, 4),
      (S_mtime, 4), (S_ctime, 4), (S_size, 8), (S_epoch_id, 8), (S_trans_id, 8),
      (S_invalid, 1), (S_paddings, 3), (S_csum, 4)]"

datatype link_field =
    L_entry_type | L_invalid | L_links | L_ctime | L_flags | L_generation | L_epoch_id
  | L_trans_id | L_csumpadding | L_csum

definition nova_link_change_entry :: "(link_field \<times> nat) list" where
  "nova_link_change_entry =
     [(L_entry_type, 1), (L_invalid, 1), (L_links, 2), (L_ctime, 4), (L_flags, 4),
      (L_generation, 4), (L_epoch_id, 8), (L_trans_id, 8), (L_csumpadding, 4), (L_csum, 4)]"

datatype mmap_field =
  M_entry_type | M_invalid | M_paddings | M_epoch_id | M_pgoff | M_num_pages | M_csumpadding | M_csum

definition nova_mmap_entry :: "(mmap_field \<times> nat) list" where
  "nova_mmap_entry =
     [(M_entry_type, 1), (M_invalid, 1), (M_paddings, 6), (M_epoch_id, 8), (M_pgoff, 8),
      (M_num_pages, 8), (M_csumpadding, 4), (M_csum, 4)]"

datatype snapshot_field =
  N_type | N_deleted | N_paddings | N_epoch_id | N_timestamp | N_nvmm_page_addr | N_csumpadding | N_csum

definition nova_snapshot_info_entry :: "(snapshot_field \<times> nat) list" where
  "nova_snapshot_info_entry =
     [(N_type, 1), (N_deleted, 1), (N_paddings, 6), (N_epoch_id, 8), (N_timestamp, 8),
      (N_nvmm_page_addr, 8), (N_csumpadding, 4), (N_csum, 4)]"

definition NOVA_DENTRY_HEADER_LEN :: nat where "NOVA_DENTRY_HEADER_LEN = 48"

text \<open>Rounding up to a multiple of eight: \<^verbatim>\<open>& ~NOVA_DIR_ROUND\<close>.\<close>

definition NOVA_DIR_LOG_REC_LEN :: "nat \<Rightarrow> nat" where
  "NOVA_DIR_LOG_REC_LEN name_len =
     (let n = name_len + 1 + NOVA_DENTRY_HEADER_LEN + 7 in n - (n AND 7))"

fun nova_get_log_entry_size :: "entry_type \<Rightarrow> nat" where
  "nova_get_log_entry_size FILE_WRITE = packed_size nova_file_write_entry"
| "nova_get_log_entry_size DIR_LOG = NOVA_DENTRY_HEADER_LEN"
| "nova_get_log_entry_size SET_ATTR = packed_size nova_setattr_logentry"
| "nova_get_log_entry_size LINK_CHANGE = packed_size nova_link_change_entry"
| "nova_get_log_entry_size MMAP_WRITE = packed_size nova_mmap_entry"
| "nova_get_log_entry_size SNAPSHOT_INFO = packed_size nova_snapshot_info_entry"
| "nova_get_log_entry_size NEXT_PAGE = 0"

text \<open>On a media error \<open>nova_get_entry_type\<close> returns the error code, cut to a byte.\<close>

definition nova_get_entry_type :: "nova_env \<Rightarrow> pm \<Rightarrow> nat \<Rightarrow> nat" where
  "nova_get_entry_type E P a =
     (case memcpy_mcsafe E P a 1 of None \<Rightarrow> u64_sub 0 (mcsafe_rc E) mod 256 | Some bs \<Rightarrow> le_nat bs)"

definition nova_set_entry_type :: "nat \<Rightarrow> entry_type \<Rightarrow> pm \<Rightarrow> pm" where
  "nova_set_entry_type a t P = write_le 1 a (entry_type_code t) P"

subsection \<open>Lemmas\<close>

lemma sizeof_simps [simp]:
  "sizeof_nova_inode = 120"
  "packed_size nova_inode_page_tail = 32"
  "packed_size nova_file_write_entry = 64"
  "packed_size nova_setattr_logentry = 56"
  "packed_size nova_link_change_entry = 40"
  "packed_size nova_mmap_entry = 40"
  "packed_size nova_snapshot_info_entry = 40"
  by (simp_all add: sizeof_nova_inode_def packed_size_def nova_inode_def nova_inode_page_tail_def
      nova_file_write_entry_def nova_setattr_logentry_def nova_link_change_entry_def
      nova_mmap_entry_def nova_snapshot_info_entry_def)

lemma inode_offsets [simp]:
  "packed_off nova_inode I_valid = 1" "packed_width nova_inode I_valid = 1"
  "packed_off nova_inode I_deleted = 2" "packed_width nova_inode I_deleted = 1"
  "packed_off nova_inode I_blk_type = 3" "packed_width nova_inode I_blk_type = 1"
  "packed_off nova_inode I_nova_ino = 56" "packed_width nova_inode I_nova_ino = 8"
  "packed_off nova_inode I_log_head = 64" "packed_width nova_inode I_log_head = 8"
  "packed_off nova_inode I_log_tail = 72" "packed_width nova_inode I_log_tail = 8"
  "packed_off nova_inode I_alter_log_head = 80" "packed_width nova_inode I_alter_log_head = 8"
  "packed_off nova_inode I_alter_log_tail = 88" "packed_width nova_inode I_alter_log_tail = 8"
  "packed_off nova_inode I_delete_epoch_id = 104" "packed_width nova_inode I_delete_epoch_id = 8"
  "packed_off nova_inode I_csum = 116" "packed_width nova_inode I_csum = 4"
  by (simp_all add: nova_inode_def)

lemma page_tail_offsets [simp]:
  "packed_off nova_inode_page_tail T_invalid_entries = 0"
  "packed_width nova_inode_page_tail T_invalid_entries = 4"
  "packed_off nova_inode_page_tail T_num_entries = 4"
  "packed_width nova_inode_page_tail T_num_entries = 4"
  "packed_off nova_inode_page_tail T_epoch_id = 8" "packed_width nova_inode_page_tail T_epoch_id = 8"
  "packed_off nova_inode_page_tail T_alter_page = 16"
  "packed_width nova_inode_page_tail T_alter_page = 8"
  "packed_off nova_inode_page_tail T_next_page = 24"
  "packed_width nova_inode_page_tail T_next_page = 8"
  by (simp_all add: nova_inode_page_tail_def)

lemma dentry_offsets [simp]:
  "packed_off nova_dentry D_ino = 16" "packed_width nova_dentry D_ino = 8"
  "packed_off nova_dentry D_csum = 12" "packed_width nova_dentry D_csum = 4"
  "packed_off nova_dentry D_name = 48"
  by (simp_all add: nova_dentry_def)

lemma mem_set_field [simp]:
  "mem (set_field fs f a v P) =
     put (a + packed_off fs f) (le_bytes (packed_width fs f) v) (mem P)"
  by (simp add: set_field_def)

lemma entry_size_div8: "8 dvd nova_get_log_entry_size t" "nova_get_log_entry_size t \<le> 64"
  by (cases t; simp add: NOVA_DENTRY_HEADER_LEN_def)+

lemma field_of_get_bytes:
  "packed_off fs f + packed_width fs f \<le> n \<Longrightarrow> field_of fs f (get_bytes m a n) =
     le_nat (get_bytes m (a + packed_off fs f) (packed_width fs f))"
  unfolding field_of_def by (rule arg_cong [where f = le_nat], rule nth_equalityI) (auto simp: add.assoc)

end
