(* ===== verification/Journal.thy ===== *)
theory Journal
  imports Nova_Layout Balloc
begin

text \<open>
  The lightweight journal, \<^verbatim>\<open>journal.c\<close> and \<^verbatim>\<open>journal.h\<close>: one page per CPU used as a circular
  buffer of 32-byte undo records, the head and tail pointers in a reserved block, the three
  kinds of transactions, commit, and recovery at mount. An address is an offset into the
  device; following the null pointer and a \<^verbatim>\<open>BUG()\<close> are the error \<open>EOOPS\<close>. A loop over the
  records runs until it meets the tail, so it is a partial function, None when it does not end.
\<close>

subsection \<open>Records and pointers\<close>

definition JOURNAL_INODE :: nat where "JOURNAL_INODE = 1"
definition JOURNAL_ENTRY :: nat where "JOURNAL_ENTRY = 2"

datatype journal_field = J_type | J_data1 | J_data2 | J_padding | J_csum

definition nova_lite_journal_entry :: "(journal_field \<times> nat) list" where
  "nova_lite_journal_entry =
     [(J_type, 8), (J_data1, 8), (J_data2, 8), (J_padding, 4), (J_csum, 4)]"

datatype journal_ptr_field = J_head | J_tail

definition journal_ptr_pair :: "(journal_ptr_field \<times> nat) list" where
  "journal_ptr_pair = [(J_head, 8), (J_tail, 8)]"

definition nova_get_journal_pointers :: "nat \<Rightarrow> nat \<Rightarrow> nat res" where
  "nova_get_journal_pointers ncpus cpu =
     (if ncpus \<le> cpu then Inl EOOPS
      else Inr (NOVA_DEF_BLOCK_SIZE_4K * JOURNAL_START + cpu * CACHELINE_SIZE))"

definition journal_crc :: "nova_env \<Rightarrow> pm \<Rightarrow> nat \<Rightarrow> nat" where
  "journal_crc E P entry =
     unat (env_crc E (NOT 0)
       (get_bytes (mem P) entry (packed_size nova_lite_journal_entry - 4)))"

definition nova_update_journal_entry_csum :: "nova_env \<Rightarrow> nat \<Rightarrow> pm \<Rightarrow> pm" where
  "nova_update_journal_entry_csum E entry P =
     set_field nova_lite_journal_entry J_csum entry (journal_crc E P entry) P"

text \<open>True when the checksum is right (the C function returns 0).\<close>

definition nova_check_entry_integrity :: "nova_env \<Rightarrow> pm \<Rightarrow> nat \<Rightarrow> bool" where
  "nova_check_entry_integrity E P entry \<longleftrightarrow>
     get_field nova_lite_journal_entry J_csum entry P = journal_crc E P entry"

definition next_lite_journal :: "nat \<Rightarrow> nat" where
  "next_lite_journal curr_p =
     (if PAGE_SIZE \<le> (curr_p AND (PAGE_SIZE - 1)) + packed_size nova_lite_journal_entry
      then curr_p - (curr_p AND (PAGE_SIZE - 1))
      else curr_p + packed_size nova_lite_journal_entry)"

partial_function (option) check_journal_loop :: "nova_env \<Rightarrow> pm \<Rightarrow> nat \<Rightarrow> nat \<Rightarrow> bool option" where
  "check_journal_loop E P pair temp =
     (if temp = get_field journal_ptr_pair J_tail pair P then Some True
      else if nova_check_entry_integrity E P temp
      then check_journal_loop E P pair (next_lite_journal temp)
      else Some False)"

definition nova_check_journal_entries :: "nova_env \<Rightarrow> pm \<Rightarrow> nat \<Rightarrow> bool option" where
  "nova_check_journal_entries E P pair =
     check_journal_loop E P pair (get_field journal_ptr_pair J_head pair P)"

subsection \<open>Recovery\<close>

definition nova_undo_journal_inode :: "nova_env \<Rightarrow> nat \<Rightarrow> pm \<Rightarrow> pm res" where
  "nova_undo_journal_inode E entry P =
     (if \<not> metadata_csum E then Inr P
      else
        let pi = get_field nova_lite_journal_entry J_data1 entry P;
            alter_pi = get_field nova_lite_journal_entry J_data2 entry P
        in if pi = 0 \<or> alter_pi = 0 then Inl EOOPS
           else Inr (memcpy_to_pmem_nocache pi
                       (get_bytes (mem P) alter_pi sizeof_nova_inode) P))"

definition nova_undo_journal_entry :: "nova_env \<Rightarrow> nat \<Rightarrow> pm \<Rightarrow> pm res" where
  "nova_undo_journal_entry E entry P =
     (let addr = get_field nova_lite_journal_entry J_data1 entry P;
          v = get_field nova_lite_journal_entry J_data2 entry P
      in if addr = 0 then Inl EOOPS
         else Inr (nova_flush_buffer (support_clwb E) addr CACHELINE_SIZE False
                     (write_le 8 addr v P)))"

definition nova_undo_lite_journal_entry :: "nova_env \<Rightarrow> nat \<Rightarrow> pm \<Rightarrow> pm res" where
  "nova_undo_lite_journal_entry E entry P =
     (let t = get_field nova_lite_journal_entry J_type entry P in
      if t = JOURNAL_INODE then nova_undo_journal_inode E entry P
      else if t = JOURNAL_ENTRY then nova_undo_journal_entry E entry P
      else Inr P)"

partial_function (option) recover_journal_loop :: "nova_env \<Rightarrow> nat \<Rightarrow> nat \<Rightarrow> pm \<Rightarrow> pm res option" where
  "recover_journal_loop E pair temp P =
     (if temp = get_field journal_ptr_pair J_tail pair P then Some (Inr P)
      else case nova_undo_lite_journal_entry E temp P of
             Inl e \<Rightarrow> Some (Inl e)
           | Inr P' \<Rightarrow> recover_journal_loop E pair (next_lite_journal temp) P')"

definition nova_recover_lite_journal :: "nova_env \<Rightarrow> nat \<Rightarrow> pm \<Rightarrow> pm res option" where
  "nova_recover_lite_journal E pair P =
     (case recover_journal_loop E pair (get_field journal_ptr_pair J_head pair P) P of
        None \<Rightarrow> None
      | Some (Inl e) \<Rightarrow> Some (Inl e)
      | Some (Inr P) \<Rightarrow>
          Some (Inr (nova_flush_buffer (support_clwb E) pair CACHELINE_SIZE True
            (set_field journal_ptr_pair J_tail pair
               (get_field journal_ptr_pair J_head pair P) P))))"

subsection \<open>Appending undo records\<close>

definition nova_append_replica_inode_journal ::
    "nova_env \<Rightarrow> nat \<Rightarrow> inode_info_header \<Rightarrow> pm \<Rightarrow> pm \<times> nat" where
  "nova_append_replica_inode_journal E curr_p sih P =
     (let P = set_field nova_lite_journal_entry J_type curr_p JOURNAL_INODE P;
          P = set_field nova_lite_journal_entry J_padding curr_p 0 P;
          P = set_field nova_lite_journal_entry J_data1 curr_p (pi_addr sih) P;
          P = set_field nova_lite_journal_entry J_data2 curr_p (alter_pi_addr sih) P
      in (nova_update_journal_entry_csum E curr_p P, next_lite_journal curr_p))"

definition nova_append_entry_journal :: "nova_env \<Rightarrow> nat \<Rightarrow> nat \<Rightarrow> pm \<Rightarrow> pm \<times> nat" where
  "nova_append_entry_journal E curr_p field P =
     (let P = set_field nova_lite_journal_entry J_type curr_p JOURNAL_ENTRY P;
          P = set_field nova_lite_journal_entry J_padding curr_p 0 P;
          addr = field - (field AND 7);
          P = set_field nova_lite_journal_entry J_data1 curr_p addr P;
          P = set_field nova_lite_journal_entry J_data2 curr_p (read_le 8 P addr) P
      in (nova_update_journal_entry_csum E curr_p P, next_lite_journal curr_p))"

definition nova_journal_inode_tail :: "nova_env \<Rightarrow> nat \<Rightarrow> nat \<Rightarrow> pm \<Rightarrow> pm \<times> nat" where
  "nova_journal_inode_tail E curr_p pi P =
     (let (P, curr_p) =
            nova_append_entry_journal E curr_p (pi + packed_off nova_inode I_log_tail) P
      in if metadata_csum E
         then nova_append_entry_journal E curr_p (pi + packed_off nova_inode I_alter_log_tail) P
         else (P, curr_p))"

definition nova_append_inode_journal ::
    "nova_env \<Rightarrow> nat \<Rightarrow> inode_info_header \<Rightarrow> bool \<Rightarrow> bool \<Rightarrow> bool \<Rightarrow> pm \<Rightarrow> pm \<times> nat" where
  "nova_append_inode_journal E curr_p inode new_inode invalidate is_dir P =
     (if metadata_csum E then nova_append_replica_inode_journal E curr_p inode P
      else case nova_get_inode E P inode of
        None \<Rightarrow> (P, curr_p)
      | Some pi \<Rightarrow>
          if is_dir then nova_journal_inode_tail E curr_p pi P
          else if new_inode
          then nova_append_entry_journal E curr_p (pi + packed_off nova_inode I_valid) P
          else
            let (P, curr_p) = nova_journal_inode_tail E curr_p pi P in
            if invalidate then
              let (P, curr_p) =
                    nova_append_entry_journal E curr_p (pi + packed_off nova_inode I_valid) P
              in nova_append_entry_journal E curr_p
                   (pi + packed_off nova_inode I_delete_epoch_id) P
            else (P, curr_p))"

definition nova_append_dentry_journal :: "nova_env \<Rightarrow> nat \<Rightarrow> nat \<Rightarrow> pm \<Rightarrow> pm \<times> nat" where
  "nova_append_dentry_journal E curr_p dentry P =
     (let (P, curr_p) = nova_append_entry_journal E curr_p (dentry + packed_off nova_dentry D_ino) P
      in nova_append_entry_journal E curr_p (dentry + packed_off nova_dentry D_csum) P)"

definition nova_flush_journal_in_batch :: "nova_env \<Rightarrow> nat \<Rightarrow> nat \<Rightarrow> pm \<Rightarrow> pm" where
  "nova_flush_journal_in_batch E head tail P =
     (let P = (if head < tail
               then nova_flush_buffer (support_clwb E) head (tail - head) False P
               else
                 nova_flush_buffer (support_clwb E) (tail - (tail AND (PAGE_SIZE - 1)))
                   (tail AND (PAGE_SIZE - 1)) False
                   (nova_flush_buffer (support_clwb E) head
                     (PAGE_SIZE - (head AND (PAGE_SIZE - 1))) False P))
      in PERSISTENT_BARRIER P)"

subsection \<open>Transactions\<close>

text \<open>
  The common frame of the three transactions: the journal must be empty; after the records are
  written they are flushed, and only then the tail makes them valid.
\<close>

definition journal_start :: "nat \<Rightarrow> nat \<Rightarrow> pm \<Rightarrow> (nat \<times> nat) res" where
  "journal_start ncpus cpu P =
     (case nova_get_journal_pointers ncpus cpu of
        Inl e \<Rightarrow> Inl e
      | Inr pair \<Rightarrow>
          let head = get_field journal_ptr_pair J_head pair P in
          if head = 0 \<or> head \<noteq> get_field journal_ptr_pair J_tail pair P then Inl EOOPS
          else Inr (pair, head))"

definition journal_publish :: "nova_env \<Rightarrow> nat \<Rightarrow> pm \<times> nat \<Rightarrow> pm \<times> nat" where
  "journal_publish E pair = (\<lambda>(P, temp).
     (let P = nova_flush_journal_in_batch E (get_field journal_ptr_pair J_head pair P) temp P;
          P = set_field journal_ptr_pair J_tail pair temp P
      in (nova_flush_buffer (support_clwb E) pair CACHELINE_SIZE True P, temp)))"

definition nova_create_inode_transaction ::
    "nova_env \<Rightarrow> nat \<Rightarrow> inode_info_header \<Rightarrow> inode_info_header \<Rightarrow> nat \<Rightarrow> bool \<Rightarrow> bool \<Rightarrow> pm
     \<Rightarrow> (pm \<times> nat) res" where
  "nova_create_inode_transaction E ncpus inode dir cpu new_inode invalidate P =
     (case journal_start ncpus cpu P of
        Inl e \<Rightarrow> Inl e
      | Inr (pair, head) \<Rightarrow>
          let (P, temp) = nova_append_inode_journal E head inode new_inode invalidate False P;
              (P, temp) = nova_append_inode_journal E temp dir new_inode invalidate True P
          in Inr (journal_publish E pair (P, temp)))"

definition nova_create_rename_transaction ::
    "nova_env \<Rightarrow> nat \<Rightarrow> inode_info_header \<Rightarrow> inode_info_header \<Rightarrow> inode_info_header option
     \<Rightarrow> inode_info_header option \<Rightarrow> nat option \<Rightarrow> bool \<Rightarrow> nat \<Rightarrow> pm \<Rightarrow> (pm \<times> nat) res" where
  "nova_create_rename_transaction E ncpus old_inode old_dir new_inode new_dir father_entry
       invalidate_new_inode cpu P =
     (case journal_start ncpus cpu P of
        Inl e \<Rightarrow> Inl e
      | Inr (pair, head) \<Rightarrow>
          let (P, temp) = nova_append_inode_journal E head old_inode False False False P;
              (P, temp) = nova_append_inode_journal E temp old_dir False False True P;
              (P, temp) = (case new_inode of
                             None \<Rightarrow> (P, temp)
                           | Some i \<Rightarrow>
                               nova_append_inode_journal E temp i False invalidate_new_inode False P);
              (P, temp) = (case new_dir of
                             None \<Rightarrow> (P, temp)
                           | Some d \<Rightarrow> nova_append_inode_journal E temp d False False True P);
              (P, temp) = (case father_entry of
                             None \<Rightarrow> (P, temp)
                           | Some e \<Rightarrow> nova_append_dentry_journal E temp e P)
          in Inr (journal_publish E pair (P, temp)))"

fun append_words :: "nova_env \<Rightarrow> nat list \<Rightarrow> pm \<times> nat \<Rightarrow> pm \<times> nat" where
  "append_words E [] (P, temp) = (P, temp)"
| "append_words E (a # as) (P, temp) = append_words E as (nova_append_entry_journal E temp a P)"

definition nova_create_logentry_transaction ::
    "nova_env \<Rightarrow> nat \<Rightarrow> nat \<Rightarrow> entry_type \<Rightarrow> nat \<Rightarrow> pm \<Rightarrow> (pm \<times> nat) res" where
  "nova_create_logentry_transaction E ncpus entry type cpu P =
     (case journal_start ncpus cpu P of
        Inl e \<Rightarrow> Inl e
      | Inr (pair, head) \<Rightarrow>
          let count = nova_get_log_entry_size type div 8
          in Inr (journal_publish E pair
                    (append_words E (map (\<lambda>i. entry + i * 8) [0..<count]) (P, head))))"

definition nova_commit_lite_transaction :: "nova_env \<Rightarrow> nat \<Rightarrow> nat \<Rightarrow> nat \<Rightarrow> pm \<Rightarrow> pm res" where
  "nova_commit_lite_transaction E ncpus tail cpu P =
     (case nova_get_journal_pointers ncpus cpu of
        Inl e \<Rightarrow> Inl e
      | Inr pair \<Rightarrow>
          if get_field journal_ptr_pair J_tail pair P \<noteq> tail then Inl EOOPS
          else Inr (nova_flush_buffer (support_clwb E) pair CACHELINE_SIZE True
                      (set_field journal_ptr_pair J_head pair tail P)))"

subsection \<open>Initialization\<close>

text \<open>One round of the loop of \<open>nova_lite_journal_soft_init\<close>.\<close>

definition soft_init_cpu :: "nova_env \<Rightarrow> nat \<Rightarrow> nat \<Rightarrow> pm \<Rightarrow> (pm \<times> unit res) option" where
  "soft_init_cpu E ncpus i P =
     (case nova_get_journal_pointers ncpus i of
        Inl e \<Rightarrow> Some (P, Inl e)
      | Inr pair \<Rightarrow>
          if get_field journal_ptr_pair J_head pair P = get_field journal_ptr_pair J_tail pair P
          then Some (P, Inr ())
          else
            (case nova_check_journal_entries E P pair of
               None \<Rightarrow> None
             | Some False \<Rightarrow> Some (P, Inl EINVAL)
             | Some True \<Rightarrow>
                 (case nova_recover_lite_journal E pair P of
                    None \<Rightarrow> None
                  | Some (Inl e) \<Rightarrow> Some (P, Inl e)
                  | Some (Inr P') \<Rightarrow> Some (P', Inr ()))))"

fun soft_init_loop :: "nova_env \<Rightarrow> nat \<Rightarrow> nat list \<Rightarrow> pm \<Rightarrow> (pm \<times> unit res) option" where
  "soft_init_loop E ncpus [] P = Some (P, Inr ())"
| "soft_init_loop E ncpus (i # is) P =
     (case soft_init_cpu E ncpus i P of
        None \<Rightarrow> None
      | Some (P', r) \<Rightarrow>
          (case r of Inl e \<Rightarrow> Some (P', Inl e) | Inr _ \<Rightarrow> soft_init_loop E ncpus is P'))"

definition nova_lite_journal_soft_init ::
    "nova_env \<Rightarrow> bool \<Rightarrow> sb_info \<Rightarrow> (sb_info \<times> unit res) option" where
  "nova_lite_journal_soft_init E kcalloc_ok sbi =
     (if \<not> kcalloc_ok then Some (sbi, Inl ENOMEM)
      else case soft_init_loop E (cpus sbi) [0..<cpus sbi] (pmem sbi) of
             None \<Rightarrow> None
           | Some (P, r) \<Rightarrow> Some (sbi\<lparr>pmem := P\<rparr>, r))"

fun hard_init_loop :: "nova_env \<Rightarrow> nat \<Rightarrow> nat list \<Rightarrow> sb_info \<Rightarrow> sb_info \<times> unit res" where
  "hard_init_loop E smp [] sbi = (sbi, Inr ())"
| "hard_init_loop E smp (i # is) sbi =
     (case nova_get_journal_pointers (cpus sbi) i of
        Inl e \<Rightarrow> (sbi, Inl e)
      | Inr pair \<Rightarrow>
          (case nova_new_log_blocks E smp sbi 0 1 True ANY_CPU ALLOC_FROM_HEAD of
             (sbi', Inl EOOPS) \<Rightarrow> (sbi', Inl EOOPS)
           | (sbi', Inl e) \<Rightarrow> (sbi', Inl ENOSPC)
           | (sbi', Inr (blocknr, n)) \<Rightarrow>
               if n \<noteq> 1 \<or> blocknr = 0 then (sbi', Inl ENOSPC)
               else
                 let block = nova_get_block_off blocknr;
                     P = set_field journal_ptr_pair J_tail pair block (pmem sbi');
                     P = set_field journal_ptr_pair J_head pair block P;
                     P = nova_flush_buffer (support_clwb E) pair CACHELINE_SIZE False P
                 in hard_init_loop E smp is (sbi'\<lparr>pmem := P\<rparr>)))"

definition nova_lite_journal_hard_init ::
    "nova_env \<Rightarrow> nat \<Rightarrow> bool \<Rightarrow> sb_info \<Rightarrow> (sb_info \<times> unit res) option" where
  "nova_lite_journal_hard_init E smp kcalloc_ok sbi =
     (case hard_init_loop E smp [0..<cpus sbi] sbi of
        (sbi', Inl e) \<Rightarrow> Some (sbi', Inl e)
      | (sbi', Inr _) \<Rightarrow>
          nova_lite_journal_soft_init E kcalloc_ok
            (sbi'\<lparr>pmem := PERSISTENT_BARRIER (pmem sbi')\<rparr>))"

end
