(* ===== verification/Pm_Crash.thy ===== *)
theory Pm_Crash
  imports Pmem
begin

text \<open>
  What a crash can leave on the media. A trace is read oldest event first. The stores to one
  cache line reach the media in program order but may stop anywhere, independently for every
  line; a line is known to have reached the media up to a write-back of it (or a non-temporal
  store to it) once a later fence has completed. A crash image takes for every line the content
  after some prefix of the trace that respects this.
\<close>

fun apply_event :: "pm_event \<Rightarrow> (nat \<Rightarrow> u8) \<Rightarrow> (nat \<Rightarrow> u8)" where
  "apply_event (Store a bs) m = put a bs m"
| "apply_event (NtStore a bs) m = put a bs m"
| "apply_event (Clwb a) m = m"
| "apply_event (Clflush a) m = m"
| "apply_event Sfence m = m"

definition replay :: "pm_event list \<Rightarrow> (nat \<Rightarrow> u8) \<Rightarrow> (nat \<Rightarrow> u8)" where
  "replay evs m = fold apply_event evs m"

fun touched :: "pm_event \<Rightarrow> nat set" where
  "touched (Store a bs) = {a..<a + length bs}"
| "touched (NtStore a bs) = {a..<a + length bs}"
| "touched _ = {}"

definition touched_by :: "pm_event list \<Rightarrow> nat set" where
  "touched_by evs = (\<Union>ev \<in> set evs. touched ev)"

fun writes_back :: "nat \<Rightarrow> pm_event \<Rightarrow> bool" where
  "writes_back L (Clwb a) \<longleftrightarrow> line_of a = L"
| "writes_back L (Clflush a) \<longleftrightarrow> line_of a = L"
| "writes_back L (NtStore a bs) \<longleftrightarrow> L \<in> line_of ` {a..<a + length bs}"
| "writes_back L _ \<longleftrightarrow> False"

definition line_prefix_ok :: "pm_event list \<Rightarrow> nat \<Rightarrow> nat \<Rightarrow> bool" where
  "line_prefix_ok evs L v \<longleftrightarrow>
     v \<le> length evs \<and>
     (\<forall>k j. k < j \<longrightarrow> j < length evs \<longrightarrow> writes_back L (evs ! k) \<longrightarrow> evs ! j = Sfence \<longrightarrow> k < v)"

definition crash_image :: "(nat \<Rightarrow> u8) \<Rightarrow> pm_event list \<Rightarrow> (nat \<Rightarrow> u8) \<Rightarrow> bool" where
  "crash_image m0 evs m \<longleftrightarrow>
     (\<exists>view. \<forall>L. line_prefix_ok evs L (view L) \<and>
        (\<forall>a. line_of a = L \<longrightarrow> m a = replay (take (view L) evs) m0 a))"

subsection \<open>Lemmas\<close>

lemma replay_Nil [simp]: "replay [] m = m"
  by (simp add: replay_def)

lemma replay_Cons [simp]: "replay (ev # evs) m = replay evs (apply_event ev m)"
  by (simp add: replay_def)

lemma replay_append: "replay (xs @ ys) m = replay ys (replay xs m)"
  by (simp add: replay_def)

lemma touched_by_simps [simp]:
  "touched_by [] = {}" "touched_by (ev # evs) = touched ev \<union> touched_by evs"
  "touched_by (xs @ ys) = touched_by xs \<union> touched_by ys" "touched_by (rev xs) = touched_by xs"
  by (auto simp: touched_by_def)

lemma apply_event_other: "a \<notin> touched ev \<Longrightarrow> apply_event ev m a = m a"
  by (cases ev) (auto simp: put_def)

lemma replay_other: "a \<notin> touched_by evs \<Longrightarrow> replay evs m a = m a"
  by (induction evs arbitrary: m) (auto simp: apply_event_other)

lemma apply_event_cong: "m1 a = m2 a \<Longrightarrow> apply_event ev m1 a = apply_event ev m2 a"
  by (cases ev) (auto simp: put_def)

lemma replay_cong: "m1 a = m2 a \<Longrightarrow> replay evs m1 a = replay evs m2 a"
proof (induction evs arbitrary: m1 m2)
  case (Cons ev evs)
  show ?case unfolding replay_Cons by (intro Cons.IH apply_event_cong Cons.prems)
qed simp

lemma touched_by_take: "touched_by (take n evs) \<subseteq> touched_by evs"
  by (auto simp: touched_by_def dest: in_set_takeD)

lemma touched_flush: "set evs \<subseteq> range Clwb \<union> range Clflush \<Longrightarrow> touched_by evs = {}"
  unfolding touched_by_def by force

lemma crash_untouched:
  assumes "crash_image m0 evs m" "a \<notin> touched_by evs"
  shows "m a = m0 a"
  using assms touched_by_take replay_other unfolding crash_image_def by (metis subsetD)

text \<open>A crash before or after a single store to a line that stays untouched otherwise.\<close>

lemma crash_one_store:
  assumes img: "crash_image m0 (xs @ Store a bs # ys) m"
    and free: "{a..<a + length bs} \<inter> (touched_by xs \<union> touched_by ys) = {}"
    and line: "line_of ` {a..<a + length bs} \<subseteq> {L}"
  shows "(\<forall>x \<in> {a..<a + length bs}. m x = m0 x) \<or> (\<forall>x \<in> {a..<a + length bs}. m x = bs ! (x - a))"
proof -
  let ?evs = "xs @ Store a bs # ys"
  obtain view where view: "m x = replay (take (view (line_of x)) ?evs) m0 x" for x
    using img unfolding crash_image_def by blast
  then have eq: "m x = replay (take (view L) ?evs) m0 x" if "x \<in> {a..<a + length bs}" for x
    using line that by (metis image_subset_iff singletonD)
  have noxs: "x \<notin> touched_by xs" "x \<notin> touched_by (take n ys)" if "x \<in> {a..<a + length bs}" for x n
    using free that touched_by_take by (blast+)
  show ?thesis
  proof (cases "view L \<le> length xs")
    case True
    then have "m x = m0 x" if "x \<in> {a..<a + length bs}" for x
      using eq that noxs touched_by_take by (metis append_Nil2 diff_is_0_eq replay_other subsetD take0 take_append)
    then show ?thesis by blast
  next
    case False
    then obtain n where n: "view L = length xs + Suc n"
      by (metis add_Suc_right less_natE not_le_imp_less)
    have "m x = bs ! (x - a)" if "x \<in> {a..<a + length bs}" for x
      using that noxs [OF that] by (simp add: eq n replay_append replay_other) (auto simp: put_def)
    then show ?thesis by blast
  qed
qed

text \<open>Bytes that were written back and fenced, and not written since, are on the media.\<close>

lemma crash_durable:
  assumes img: "crash_image m0 (xs @ ys @ Sfence # zs) m"
    and wb: "\<exists>ev \<in> set ys. writes_back (line_of a) ev"
    and quiet: "a \<notin> touched_by ys" "a \<notin> touched_by zs"
  shows "m a = replay xs m0 a"
proof -
  let ?evs = "xs @ ys @ Sfence # zs"
  obtain view where view: "m a = replay (take (view (line_of a)) ?evs) m0 a"
    and ok: "line_prefix_ok ?evs (line_of a) (view (line_of a))"
    using img unfolding crash_image_def by blast
  let ?v = "view (line_of a)"
  obtain k where k: "k < length ys" "writes_back (line_of a) (ys ! k)"
    using wb by (metis in_set_conv_nth)
  have "?evs ! (length xs + k) = ys ! k" "?evs ! (length xs + length ys) = Sfence"
    using k(1) by (simp_all add: nth_append)
  then have "length xs + k < ?v"
    using ok k unfolding line_prefix_ok_def by (metis add_strict_left_mono length_append length_Cons
        less_add_Suc1 add.assoc add_Suc_right nat_add_left_cancel_less)
  then obtain n where "?v = length xs + n" by (metis less_imp_add_positive add.assoc)
  then have "take ?v ?evs = xs @ take n (ys @ Sfence # zs)" by simp
  moreover have "a \<notin> touched_by (take n (ys @ Sfence # zs))"
    using quiet touched_by_take [of n "ys @ Sfence # zs"] by auto
  ultimately show ?thesis using view by (simp add: replay_append replay_other)
qed

lemma writes_back_flushed:
  "L \<in> flushed_lines (set evs) \<Longrightarrow> \<exists>ev \<in> set evs. writes_back L ev"
  unfolding flushed_lines_def by force

text \<open>Every operation extends the trace by what it does to memory.\<close>

definition extends :: "pm \<Rightarrow> pm_event list \<Rightarrow> pm \<Rightarrow> bool" where
  "extends P evs Q \<longleftrightarrow> trace Q = rev evs @ trace P \<and> mem Q = replay evs (mem P)"

lemma extends_refl: "extends P [] P"
  by (simp add: extends_def)

lemma extends_trans: "extends P xs Q \<Longrightarrow> extends Q ys R \<Longrightarrow> extends P (xs @ ys) R"
  by (simp add: extends_def replay_append)

lemma extends_store: "extends P [Store a bs] (store a bs P)"
  by (simp add: extends_def store_def)

lemma extends_write_le: "extends P [Store a (le_bytes n v)] (write_le n a v P)"
  by (simp add: write_le_def extends_store)

lemma extends_barrier: "extends P [Sfence] (PERSISTENT_BARRIER P)"
  by (simp add: extends_def PERSISTENT_BARRIER_def)

lemma replay_flush: "set evs \<subseteq> range Clwb \<union> range Clflush \<Longrightarrow> replay evs m = m"
  by (induction evs) auto

lemma extends_flush:
  assumes "0 < len \<or> buf mod 64 = 0" "len + 63 < 2 ^ 32"
  obtains evs where "extends P (evs @ (if fence then [Sfence] else [])) (nova_flush_buffer c buf len fence P)"
    "touched_by evs = {}" "flushed_lines (set evs) = line_of ` {buf..<buf + len}"
proof -
  obtain evs where evs: "trace (nova_flush_buffer c buf len fence P) = (if fence then [Sfence] else []) @ evs @ trace P"
    "set evs \<subseteq> range Clwb \<union> range Clflush"
    "flushed_lines (set evs) = line_of ` {buf..<buf + len}"
    using assms by (rule flush_buffer_events)
  then have "replay (rev evs) (mem P) = mem P" by (simp add: replay_flush)
  then show ?thesis
    using evs that [of "rev evs"] touched_flush [of evs]
    by (simp add: extends_def replay_append)
qed

end
