(* ===== verification/Journal_Recovery.thy ===== *)
theory Journal_Recovery
  imports Journal Pm_Crash
begin

text \<open>
  Appending and recovery. \<open>holds\<close> says that the records of a list of words are in the journal
  page; the lemmas show that the append operations establish it, that the checks of recovery
  pass on it, and that recovery restores the words.
\<close>

subsection \<open>Positions in the circular buffer\<close>

definition jpage :: "nat \<Rightarrow> nat" where
  "jpage h = h - h mod 4096"

definition jpos :: "nat \<Rightarrow> nat \<Rightarrow> nat" where
  "jpos h i = jpage h + (h mod 4096 + 32 * i) mod 4096"

lemma journal_offsets [simp]:
  "packed_size nova_lite_journal_entry = 32"
  "packed_off nova_lite_journal_entry J_type = 0" "packed_width nova_lite_journal_entry J_type = 8"
  "packed_off nova_lite_journal_entry J_data1 = 8" "packed_width nova_lite_journal_entry J_data1 = 8"
  "packed_off nova_lite_journal_entry J_data2 = 16" "packed_width nova_lite_journal_entry J_data2 = 8"
  "packed_off nova_lite_journal_entry J_padding = 24" "packed_width nova_lite_journal_entry J_padding = 4"
  "packed_off nova_lite_journal_entry J_csum = 28" "packed_width nova_lite_journal_entry J_csum = 4"
  "packed_off journal_ptr_pair J_head = 0" "packed_width journal_ptr_pair J_head = 8"
  "packed_off journal_ptr_pair J_tail = 8" "packed_width journal_ptr_pair J_tail = 8"
  by (simp_all add: nova_lite_journal_entry_def journal_ptr_pair_def packed_size_def)

lemma jpos_slot:
  assumes "32 dvd h"
  shows "jpos h i = jpage h + 32 * ((h mod 4096 div 32 + i) mod 128)"
proof -
  have "32 dvd h mod 4096" using assms by (simp add: dvd_mod)
  then have "h mod 4096 = 32 * (h mod 4096 div 32)" by simp
  then have "h mod 4096 + 32 * i = 32 * (h mod 4096 div 32 + i)" by (simp add: distrib_left)
  then show ?thesis
    using mult_mod_right [of 32 "h mod 4096 div 32 + i" 128] by (simp add: jpos_def)
qed

lemma jpos_0 [simp]: "jpos h 0 = h"
  by (simp add: jpos_def jpage_def)

lemma jpage_mod [simp]: "jpage h mod 4096 = 0"
  by (simp add: jpage_def minus_mod_eq_mult_div)

lemma jpos_bounds: "32 dvd h \<Longrightarrow> jpage h \<le> jpos h i \<and> jpos h i + 32 \<le> jpage h + 4096"
  using mod_less_divisor [of 128 "h mod 4096 div 32 + i"] by (simp add: jpos_slot)

lemma jpos_mod: "32 dvd h \<Longrightarrow> jpos h i mod 4096 = 32 * ((h mod 4096 div 32 + i) mod 128)"
  using mod_less_divisor [of 128 "h mod 4096 div 32 + i"]
  by (simp add: jpos_slot mod_add_eq [of "jpage h" 4096, symmetric])

lemma next_jpos:
  assumes "32 dvd h"
  shows "next_lite_journal (jpos h i) = jpos h (Suc i)"
proof -
  let ?k = "(h mod 4096 div 32 + i) mod 128"
  have "Suc ?k mod 128 = (h mod 4096 div 32 + Suc i) mod 128"
    by (simp add: mod_Suc_eq)
  moreover have "?k < 128" by simp
  ultimately show ?thesis
    using assms by (cases "?k = 127")
      (auto simp: next_lite_journal_def PAGE_SIZE_def jpos_mod, auto simp: jpos_slot mod_Suc)
qed

lemma jpos_apart:
  assumes "32 dvd h" "i < j" "j < i + 128"
  shows "jpos h i + 32 \<le> jpos h j \<or> jpos h j + 32 \<le> jpos h i"
proof -
  let ?q = "h mod 4096 div 32"
  have "(?q + i) mod 128 \<noteq> (?q + j) mod 128"
  proof
    assume "(?q + i) mod 128 = (?q + j) mod 128"
    then have "128 dvd (?q + j) - (?q + i)" using assms(2) by (intro mod_eq_dvd_iff_nat [THEN iffD1]) simp_all
    then show False using assms by (auto dest: dvd_imp_le)
  qed
  then show ?thesis using assms(1) by (auto simp: jpos_slot)
qed

lemma jpos_neq: "32 dvd h \<Longrightarrow> i < j \<Longrightarrow> j < i + 128 \<Longrightarrow> jpos h i \<noteq> jpos h j"
  using jpos_apart [of h i j] by auto

subsection \<open>Records\<close>

definition record_body :: "nat \<Rightarrow> nat \<Rightarrow> u8 list" where
  "record_body a v = le_bytes 8 JOURNAL_ENTRY @ le_bytes 8 a @ le_bytes 8 v @ le_bytes 4 0"

definition record_bytes :: "nova_env \<Rightarrow> nat \<Rightarrow> nat \<Rightarrow> u8 list" where
  "record_bytes E a v =
     record_body a v @ le_bytes 4 (unat (env_crc E (NOT 0) (record_body a v)))"

lemma length_record [simp]: "length (record_body a v) = 28" "length (record_bytes E a v) = 32"
  by (simp_all add: record_body_def record_bytes_def)

lemma put_commute:
  "a + length xs \<le> b \<or> b + length ys \<le> a \<Longrightarrow> put a xs (put b ys m) = put b ys (put a xs m)"
  by (rule ext) (auto simp: put_def)

lemma append_record:
  fixes E :: nova_env and P :: pm
  assumes out: "f + 8 \<le> c \<or> c + 32 \<le> f" and al: "f mod 8 = 0"
  defines "r \<equiv> nova_append_entry_journal E c f P"
  shows "mem (fst r) = put c (record_bytes E f (read_le 8 P f)) (mem P)"
    and "snd r = next_lite_journal c"
    and "\<exists>evs. extends P evs (fst r) \<and> touched_by evs = {c..<c + 32}"
proof -
  define m where "m = mem P"
  define old where "old = read_le 8 P f"
  let ?t = "le_bytes 8 JOURNAL_ENTRY" and ?p = "le_bytes 4 0" and ?a = "le_bytes 8 f"
    and ?v = "le_bytes 8 old"
  define P1 where "P1 = set_field nova_lite_journal_entry J_type c JOURNAL_ENTRY P"
  define P2 where "P2 = set_field nova_lite_journal_entry J_padding c 0 P1"
  define P3 where "P3 = set_field nova_lite_journal_entry J_data1 c f P2"
  define P4 where "P4 = set_field nova_lite_journal_entry J_data2 c (read_le 8 P3 f) P3"
  have m3: "mem P3 = put (c + 8) ?a (put (c + 24) ?p (put c ?t m))"
    by (simp add: P1_def P2_def P3_def m_def)
  have old: "read_le 8 P3 f = old"
    using out unfolding read_le_def m3 old_def m_def by (auto simp: get_put_other)
  have "mem P4 = put (c + 16) ?v (put (c + 8) ?a (put (c + 24) ?p (put c ?t m)))"
    unfolding P4_def mem_set_field old m3 by simp
  also have "\<dots> = put (c + 24) ?p (put (c + 16) ?v (put (c + 8) ?a (put c ?t m)))"
    using put_commute [of "c + 8" ?a "c + 24" ?p "put c ?t m"]
      put_commute [of "c + 16" ?v "c + 24" ?p "put (c + 8) ?a (put c ?t m)"] by simp
  also have "\<dots> = put c (record_body f old) m"
    using put_put [of c ?t ?a m] put_put [of c "?t @ ?a" ?v m] put_put [of c "?t @ ?a @ ?v" ?p m]
    by (simp add: record_body_def)
  finally have m4: "mem P4 = put c (record_body f old) m" .
  let ?crc = "unat (env_crc E (NOT 0) (record_body f old))"
  have crc: "journal_crc E P4 c = ?crc"
    unfolding journal_crc_def m4 by simp
  have "r = (nova_update_journal_entry_csum E c P4, next_lite_journal c)"
    by (simp add: r_def nova_append_entry_journal_def Let_def al P1_def P2_def P3_def P4_def)
  then have r: "r = (set_field nova_lite_journal_entry J_csum c ?crc P4, next_lite_journal c)"
    unfolding nova_update_journal_entry_csum_def crc .
  show "mem (fst r) = put c (record_bytes E f (read_le 8 P f)) (mem P)"
    using put_put [of c "record_body f old" "le_bytes 4 ?crc" m]
    unfolding r fst_conv mem_set_field m4 by (simp add: record_bytes_def old_def m_def)
  show "snd r = next_lite_journal c" by (simp add: r)
  let ?evs = "[Store c ?t, Store (c + 24) ?p, Store (c + 8) ?a, Store (c + 16) ?v,
    Store (c + 28) (le_bytes 4 ?crc)]"
  have "extends P ?evs (fst r)"
    unfolding r fst_conv P4_def old unfolding P3_def P2_def P1_def set_field_def
    by (simp add: extends_def write_le_def store_def)
  moreover have "touched_by ?evs = {c..<c + 32}" by auto
  ultimately show "\<exists>evs. extends P evs (fst r) \<and> touched_by evs = {c..<c + 32}" by blast
qed

text \<open>The records of the words \<open>fs\<close> with their contents in \<open>m0\<close> are in the journal of \<open>m\<close>.\<close>

definition word_at :: "(nat \<Rightarrow> u8) \<Rightarrow> nat \<Rightarrow> nat" where
  "word_at m f = le_nat (get_bytes m f 8)"

definition holds :: "nova_env \<Rightarrow> nat \<Rightarrow> nat list \<Rightarrow> (nat \<Rightarrow> u8) \<Rightarrow> (nat \<Rightarrow> u8) \<Rightarrow> bool" where
  "holds E h fs m0 m \<longleftrightarrow>
     (\<forall>i < length fs. get_bytes m (jpos h i) 32 = record_bytes E (fs ! i) (word_at m0 (fs ! i)))"

definition words_of :: "nat list \<Rightarrow> nat set" where
  "words_of fs = (\<Union>f \<in> set fs. {f..<f + 8})"

definition jregion :: "nat \<Rightarrow> nat set" where
  "jregion h = {jpage h..<jpage h + 4096}"

definition words_ok :: "nat \<Rightarrow> nat list \<Rightarrow> bool" where
  "words_ok h fs \<longleftrightarrow> (\<forall>f \<in> set fs. f mod 8 = 0 \<and> 0 < f \<and> f < 2 ^ 64 \<and> (f + 8 \<le> jpage h \<or> jpage h + 4096 \<le> f))"

lemma append_words_ok:
  fixes E :: nova_env and P :: pm
  assumes h: "32 dvd h" and "words_ok h fs" "k + length fs \<le> 128"
  defines "r \<equiv> append_words E fs (P, jpos h k)"
  shows "snd r = jpos h (k + length fs) \<and>
    (\<forall>i < length fs. get_bytes (mem (fst r)) (jpos h (k + i)) 32 =
        record_bytes E (fs ! i) (word_at (mem P) (fs ! i))) \<and>
    (\<forall>j < k. k + length fs \<le> j + 128 \<longrightarrow>
        get_bytes (mem (fst r)) (jpos h j) 32 = get_bytes (mem P) (jpos h j) 32) \<and>
    (\<exists>evs. extends P evs (fst r) \<and> touched_by evs = (\<Union>i < length fs. {jpos h (k + i)..<jpos h (k + i) + 32}))"
  using assms(2,3) unfolding r_def
proof (induction fs arbitrary: k P)
  case Nil
  then show ?case by (auto intro: extends_refl)
next
  case (Cons f fs)
  let ?c = "jpos h k"
  have "f mod 8 = 0" and "f + 8 \<le> ?c \<or> ?c + 32 \<le> f"
    using Cons.prems(1) jpos_bounds [OF h, of k] by (auto simp: words_ok_def)
  note a = append_record [OF this(2,1), where E = E and P = P]
  let ?P = "fst (nova_append_entry_journal E ?c f P)"
  have step: "append_words E (f # fs) (P, ?c) = append_words E fs (?P, jpos h (Suc k))"
    using a(2) by (cases "nova_append_entry_journal E ?c f P") (simp add: next_jpos [OF h])
  have ok: "words_ok h fs" and len: "Suc k + length fs \<le> 128"
    using Cons.prems by (auto simp: words_ok_def)
  note ih = Cons.IH [OF ok len, of ?P]
  have word: "word_at (mem ?P) g = word_at (mem P) g" if "g \<in> set fs" for g
    using that ok jpos_bounds [OF h, of k]
    by (auto simp: word_at_def a(1) words_ok_def intro!: arg_cong [where f = le_nat] get_put_other)
  have other: "get_bytes (mem ?P) (jpos h j) 32 = get_bytes (mem P) (jpos h j) 32"
    if "j < k" "k < j + 128" for j
    using jpos_apart [OF h that] by (auto simp: a(1) intro!: get_put_other)
  have first: "get_bytes (mem (fst (append_words E fs (?P, jpos h (Suc k))))) ?c 32 =
      record_bytes E f (word_at (mem P) f)"
    using ih len by (simp add: a(1) word_at_def read_le_def)
  obtain evs where e1: "extends P evs ?P" "touched_by evs = {?c..<?c + 32}" using a(3) by blast
  obtain evs' where e2: "extends ?P evs' (fst (append_words E fs (?P, jpos h (Suc k))))"
    "touched_by evs' = (\<Union>i < length fs. {jpos h (Suc k + i)..<jpos h (Suc k + i) + 32})"
    using ih by blast
  have touched: "touched_by (evs @ evs') =
      (\<Union>i < length (f # fs). {jpos h (k + i)..<jpos h (k + i) + 32})"
    by (simp add: e1(2) e2(2) lessThan_Suc_eq_insert_0 image_image)
  have "\<forall>i < length (f # fs). get_bytes (mem (fst (append_words E fs (?P, jpos h (Suc k))))) (jpos h (k + i)) 32 =
      record_bytes E ((f # fs) ! i) (word_at (mem P) ((f # fs) ! i))"
  proof (intro allI impI)
    fix i assume "i < length (f # fs)"
    then show "get_bytes (mem (fst (append_words E fs (?P, jpos h (Suc k))))) (jpos h (k + i)) 32 =
        record_bytes E ((f # fs) ! i) (word_at (mem P) ((f # fs) ! i))"
      using first ih word by (cases i) simp_all
  qed
  moreover have "\<forall>j < k. k + length (f # fs) \<le> j + 128 \<longrightarrow>
      get_bytes (mem (fst (append_words E fs (?P, jpos h (Suc k))))) (jpos h j) 32 =
      get_bytes (mem P) (jpos h j) 32"
    using ih other by auto
  moreover have "snd (append_words E fs (?P, jpos h (Suc k))) = jpos h (k + length (f # fs))"
    using ih by simp
  moreover have "extends P (evs @ evs') (fst (append_words E fs (?P, jpos h (Suc k))))"
    using e1(1) e2(1) by (rule extends_trans)
  ultimately show ?case unfolding step using touched by blast
qed

subsection \<open>Recovery\<close>

lemma get_bytes_sub: "o' + n \<le> k \<Longrightarrow> get_bytes m (a + o') n = take n (drop o' (get_bytes m a k))"
  by (rule nth_equalityI) (auto simp: add.assoc)

lemma le_nat_less: "le_nat bs < 256 ^ length bs"
proof (induction bs)
  case (Cons b bs)
  have "unat b < 256" using unsigned_less [of b] by simp
  moreover have "256 * le_nat bs + 256 \<le> 256 * 256 ^ length bs" using Cons by (simp add: mult_le_mono2 less_eq_Suc_le flip: mult_Suc_right)
  ultimately show ?case by simp
qed simp

lemma word_at_less [simp]: "word_at m f < 18446744073709551616"
  using le_nat_less [of "get_bytes m f 8"] by (simp add: word_at_def)

lemma record_fields:
  assumes rec: "get_bytes (mem P) e 32 = record_bytes E f v" and "f < 2 ^ 64" "v < 2 ^ 64"
  shows "get_field nova_lite_journal_entry J_type e P = JOURNAL_ENTRY"
    "get_field nova_lite_journal_entry J_data1 e P = f"
    "get_field nova_lite_journal_entry J_data2 e P = v"
    "nova_check_entry_integrity E P e"
proof -
  have sub: "get_bytes (mem P) (e + k) n = take n (drop k (record_bytes E f v))" if "k + n \<le> 32" for k n
    using get_bytes_sub [OF that] rec by simp
  show "get_field nova_lite_journal_entry J_type e P = JOURNAL_ENTRY"
    using sub [of 0 8]
    by (simp add: get_field_def read_le_def record_bytes_def record_body_def le_nat_le_bytes JOURNAL_ENTRY_def)
  show "get_field nova_lite_journal_entry J_data1 e P = f"
    using assms(2)
    by (simp add: get_field_def read_le_def sub record_bytes_def record_body_def le_nat_le_bytes)
  show "get_field nova_lite_journal_entry J_data2 e P = v"
    using assms(3)
    by (simp add: get_field_def read_le_def sub record_bytes_def record_body_def le_nat_le_bytes)
  have "get_bytes (mem P) e 28 = record_body f v"
    using sub [of 0 28] by (simp add: record_bytes_def)
  moreover have "unat c < 4294967296" for c :: u32 using unsigned_less [of c] by simp
  ultimately show "nova_check_entry_integrity E P e"
    using sub [of 28 4]
    by (simp add: nova_check_entry_integrity_def journal_crc_def get_field_def read_le_def
        record_bytes_def le_nat_le_bytes)
qed

definition restore :: "nat list \<Rightarrow> (nat \<Rightarrow> u8) \<Rightarrow> (nat \<Rightarrow> u8) \<Rightarrow> (nat \<Rightarrow> u8)" where
  "restore fs m0 m = (\<lambda>a. if a \<in> words_of fs then m0 a else m a)"

lemma put_word: "put f (le_bytes 8 (word_at m0 f)) m = restore [f] m0 m"
proof -
  have "le_bytes 8 (word_at m0 f) = get_bytes m0 f 8"
    using le_bytes_le_nat [of "get_bytes m0 f 8"] by (simp add: word_at_def)
  then show ?thesis by (intro ext) (auto simp: restore_def words_of_def put_def)
qed

lemma restore_other: "{a..<a + n} \<inter> words_of fs = {} \<Longrightarrow> get_bytes (restore fs m0 m) a n = get_bytes m a n"
proof (rule nth_equalityI)
  fix i assume "{a..<a + n} \<inter> words_of fs = {}" "i < length (get_bytes (restore fs m0 m) a n)"
  then have "i < n" "a + i \<notin> words_of fs" by (auto simp: disjoint_iff)
  then show "get_bytes (restore fs m0 m) a n ! i = get_bytes m a n ! i" by (simp add: restore_def)
qed simp

lemma restore_Cons: "restore (f # fs) m0 m = restore fs m0 (restore [f] m0 m)"
  by (rule ext) (auto simp: restore_def words_of_def)

lemma undo_record:
  assumes "get_bytes (mem P) e 32 = record_bytes E f (word_at m0 f)" "0 < f" "f < 2 ^ 64"
  obtains P' where "nova_undo_lite_journal_entry E e P = Inr P'" "mem P' = restore [f] m0 (mem P)"
  using record_fields [OF assms(1,3)] assms(2) that
  by (simp add: nova_undo_lite_journal_entry_def nova_undo_journal_entry_def Let_def
      JOURNAL_INODE_def JOURNAL_ENTRY_def put_word)

text \<open>A journal whose pointers frame the records of \<open>fs\<close>.\<close>

definition framed :: "nova_env \<Rightarrow> nat \<Rightarrow> nat \<Rightarrow> nat list \<Rightarrow> (nat \<Rightarrow> u8) \<Rightarrow> pm \<Rightarrow> bool" where
  "framed E pair h fs m0 P \<longleftrightarrow>
     32 dvd h \<and> length fs < 128 \<and> words_ok h fs \<and> {pair..<pair + 16} \<inter> words_of fs = {} \<and>
     holds E h fs m0 (mem P) \<and>
     get_field journal_ptr_pair J_tail pair P = jpos h (length fs)"

lemma framed_check:
  assumes "framed E pair h fs m0 P" "i \<le> length fs"
  shows "check_journal_loop E P pair (jpos h i) = Some True"
  using assms(2)
proof (induction rule: inc_induct)
  case base
  then show ?case using assms(1) by (simp add: check_journal_loop.simps framed_def)
next
  case (step i)
  have "f < 2 ^ 64" if "f = fs ! i" for f
    using assms(1) step.hyps that by (simp add: framed_def words_ok_def)
  then have "nova_check_entry_integrity E P (jpos h i)"
    using assms(1) step.hyps record_fields(4) by (simp add: framed_def holds_def)
  moreover have "jpos h i \<noteq> jpos h (length fs)"
    using assms(1) step.hyps by (intro jpos_neq) (auto simp: framed_def)
  ultimately show ?case
    using step.IH assms(1) by (simp add: check_journal_loop.simps [of E P pair "jpos h i"] framed_def next_jpos)
qed

lemma words_outside:
  assumes "32 dvd h" "words_ok h fs" "f \<in> set fs"
  shows "{jpos h i..<jpos h i + 32} \<inter> words_of [f] = {}"
  using assms jpos_bounds [of h i] by (fastforce simp: words_ok_def words_of_def)

lemma framed_undo:
  assumes fr: "framed E pair h fs m0 P" and f: "f \<in> set fs" and P': "mem P' = restore [f] m0 (mem P)"
  shows "framed E pair h fs m0 P'"
proof -
  have "{jpos h i..<jpos h i + 32} \<inter> words_of [f] = {}" for i
    using fr f by (intro words_outside) (auto simp: framed_def)
  then have "get_bytes (mem P') (jpos h i) 32 = get_bytes (mem P) (jpos h i) 32" for i
    using P' by (simp add: restore_other)
  moreover have "{pair + 8..<pair + 8 + 8} \<inter> words_of [f] = {}"
  proof -
    have "words_of [f] \<subseteq> words_of fs" using f by (auto simp: words_of_def)
    moreover have "{pair + 8..<pair + 8 + 8} \<subseteq> {pair..<pair + 16}" by simp
    moreover have "{pair..<pair + 16} \<inter> words_of fs = {}" using fr by (simp only: framed_def)
    ultimately show ?thesis by blast
  qed
  then have "get_field journal_ptr_pair J_tail pair P' = get_field journal_ptr_pair J_tail pair P"
    using P' by (simp add: get_field_def read_le_def restore_other)
  ultimately show ?thesis using fr by (simp add: framed_def holds_def)
qed

lemma framed_recover_loop:
  assumes "framed E pair h fs m0 P" "i \<le> length fs"
  shows "\<exists>P'. recover_journal_loop E pair (jpos h i) P = Some (Inr P') \<and>
           mem P' = restore (drop i fs) m0 (mem P)"
  using assms(2,1)
proof (induction arbitrary: P rule: inc_induct)
  case base
  then show ?case by (simp add: recover_journal_loop.simps framed_def restore_def words_of_def)
next
  case (step i)
  let ?f = "fs ! i"
  have f: "?f \<in> set fs" using step.hyps by simp
  then have w: "0 < ?f" "?f < 2 ^ 64" using step.prems by (auto simp: framed_def words_ok_def)
  have "get_bytes (mem P) (jpos h i) 32 = record_bytes E ?f (word_at m0 ?f)"
    using step.prems step.hyps by (simp add: framed_def holds_def)
  then obtain P1 where P1: "nova_undo_lite_journal_entry E (jpos h i) P = Inr P1"
    "mem P1 = restore [?f] m0 (mem P)" using w by (rule undo_record)
  have "framed E pair h fs m0 P1" using step.prems f P1(2) by (rule framed_undo)
  then obtain P' where P': "recover_journal_loop E pair (jpos h (Suc i)) P1 = Some (Inr P')"
    "mem P' = restore (drop (Suc i) fs) m0 (mem P1)" using step.IH by blast
  have "jpos h i \<noteq> jpos h (length fs)"
    using step.prems step.hyps by (intro jpos_neq) (auto simp: framed_def)
  moreover have "next_lite_journal (jpos h i) = jpos h (Suc i)"
    using step.prems by (simp add: framed_def next_jpos)
  ultimately have "recover_journal_loop E pair (jpos h i) P = Some (Inr P')"
    using step.prems P1(1) P'(1) by (simp add: recover_journal_loop.simps [of E pair "jpos h i"] framed_def)
  moreover have "mem P' = restore (drop i fs) m0 (mem P)"
    using P'(2) P1(2) step.hyps restore_Cons [of "fs ! i" "drop (Suc i) fs"]
    by (simp flip: Cons_nth_drop_Suc)
  ultimately show ?case by blast
qed

text \<open>Recovery of one CPU whose pointers frame the records.\<close>

lemma framed_soft_init:
  assumes fr: "framed E pair h fs m0 P" and "0 < length fs"
    and pair: "nova_get_journal_pointers ncpus cpu = Inr pair"
    and head: "get_field journal_ptr_pair J_head pair P = h"
  obtains P' where "soft_init_cpu E ncpus cpu P = Some (P', Inr ())"
    "mem P' = put (pair + 8) (le_bytes 8 h) (restore fs m0 (mem P))"
proof -
  obtain P1 where P1: "recover_journal_loop E pair h P = Some (Inr P1)"
    "mem P1 = restore fs m0 (mem P)"
    using framed_recover_loop [OF fr, of 0] by auto
  have "check_journal_loop E P pair h = Some True"
    using framed_check [OF fr, of 0] by simp
  moreover have "h \<noteq> get_field journal_ptr_pair J_tail pair P"
    using fr assms(2) jpos_neq [of h 0 "length fs"] by (simp add: framed_def)
  moreover have "{pair..<pair + 8} \<inter> words_of fs = {}"
  proof -
    have "{pair..<pair + 8} \<subseteq> {pair..<pair + 16}" by simp
    moreover have "{pair..<pair + 16} \<inter> words_of fs = {}" using fr by (simp only: framed_def)
    ultimately show ?thesis by blast
  qed
  then have "get_field journal_ptr_pair J_head pair P1 = h"
    using head P1(2) by (simp add: get_field_def read_le_def restore_other)
  ultimately show ?thesis
    using that P1 pair head
    by (simp add: soft_init_cpu_def nova_check_journal_entries_def nova_recover_lite_journal_def)
qed

end
