(* ===== verification/Journal_Crash.thy ===== *)
theory Journal_Crash
  imports Journal_Recovery "HOL-Library.Sublist"
begin

text \<open>
  The journal under crashes: the events of a transaction, what a crash image taken at any point
  of it holds, and that recovery on every such image brings the journaled words back.
\<close>

subsection \<open>The events of a transaction\<close>

lemma line_of_slot: "a \<in> {jpos h i..<jpos h i + 32} \<Longrightarrow> a \<in> {lo..<hi} \<Longrightarrow> line_of a \<in> line_of ` {lo..<hi}"
  by blast

lemma page_offset: "b mod 4096 = 0 \<Longrightarrow> x < 4096 \<Longrightarrow> (b + x) mod 4096 = (x :: nat)"
  by (metis mod_add_left_eq mod_less add_0)

lemma jpos_base:
  assumes "32 dvd h"
  obtains b q where "b mod 4096 = 0" "q < 128" "h = b + 32 * q" "jpage h = b"
    "\<And>i. jpos h i = b + 32 * ((q + i) mod 128)"
proof -
  let ?q = "h mod 4096 div 32"
  have q: "?q < 128" using mod_less_divisor [of 4096 h] by (simp add: div_less_iff_less_mult)
  moreover have "h = jpage h + 32 * ?q" using jpos_slot [OF assms, of 0] q by simp
  ultimately show ?thesis by (intro that [of "jpage h" ?q] jpos_slot [OF assms]) simp_all
qed

lemma flush_batch_events:
  assumes h: "32 dvd h" and n: "0 < n" "n < 128"
  obtains evs where "extends P (evs @ [Sfence]) (nova_flush_journal_in_batch E h (jpos h n) P)"
    "touched_by evs = {}"
    "\<And>i a. i < n \<Longrightarrow> a \<in> {jpos h i..<jpos h i + 32} \<Longrightarrow> line_of a \<in> flushed_lines (set evs)"
proof -
  obtain b q where b: "b mod 4096 = 0" and q: "q < 128" and hq: "h = b + 32 * q"
    and slot: "\<And>i. jpos h i = b + 32 * ((q + i) mod 128)" using jpos_base [OF h] by metis
  let ?flush = "nova_flush_buffer (support_clwb E)"
  have hm: "h mod 4096 = 32 * q" using b q by (simp add: hq page_offset)
  show ?thesis
  proof (cases "q + n < 128")
    case True
    let ?t = "b + 32 * (q + n)"
    have lt: "h < ?t" and len: "?t - h = 32 * n" using n by (simp_all add: hq)
    have "0 < 32 * n \<or> h mod 64 = 0" "32 * n + 63 < 2 ^ 32" using n by simp_all
    then obtain evs where evs: "extends P (evs @ (if False then [Sfence] else [])) (?flush h (32 * n) False P)"
      "touched_by evs = {}" "flushed_lines (set evs) = line_of ` {h..<h + 32 * n}"
      by (rule extends_flush)
    have "line_of a \<in> flushed_lines (set evs)" if "i < n" "a \<in> {jpos h i..<jpos h i + 32}" for i a
      unfolding evs(3) using that True by (intro line_of_slot [OF that(2)]) (simp add: slot, simp add: hq)
    moreover have "nova_flush_journal_in_batch E h (jpos h n) P = PERSISTENT_BARRIER (?flush h (32 * n) False P)"
      using True lt len by (simp add: nova_flush_journal_in_batch_def slot)
    ultimately show ?thesis
      using that [of evs] evs(1,2) extends_trans [OF _ extends_barrier, of P evs] by simp
  next
    case False
    let ?r = "q + n - 128"
    have r: "?r < q" "(q + n) mod 128 = ?r" using False q n by (auto simp: le_mod_geq)
    then have t: "jpos h n = b + 32 * ?r" "(b + 32 * ?r) mod 4096 = 32 * ?r" "\<not> h < b + 32 * ?r" "?r < 128"
      using q b by (auto simp: slot page_offset, auto simp: hq)
    have "0 < 4096 - 32 * q \<or> h mod 64 = 0" "4096 - 32 * q + 63 < 2 ^ 32" using q by simp_all
    then obtain e1 where e1: "extends P (e1 @ (if False then [Sfence] else [])) (?flush h (4096 - 32 * q) False P)"
      "touched_by e1 = {}" "flushed_lines (set e1) = line_of ` {h..<h + (4096 - 32 * q)}"
      by (rule extends_flush)
    let ?P1 = "?flush h (4096 - 32 * q) False P"
    have "b mod 64 = 0" using mod_mod_cancel [of 64 4096 b] b by simp
    then have "0 < 32 * ?r \<or> b mod 64 = 0" "32 * ?r + 63 < 2 ^ 32" using t(4) by simp_all
    then obtain e2 where e2: "extends ?P1 (e2 @ (if False then [Sfence] else [])) (?flush b (32 * ?r) False ?P1)"
      "touched_by e2 = {}" "flushed_lines (set e2) = line_of ` {b..<b + 32 * ?r}"
      by (rule extends_flush)
    have "line_of a \<in> flushed_lines (set (e1 @ e2))" if "i < n" "a \<in> {jpos h i..<jpos h i + 32}" for i a
    proof (cases "q + i < 128")
      case True
      then have "line_of a \<in> flushed_lines (set e1)"
        unfolding e1(3) using that q by (intro line_of_slot [OF that(2)]) (simp add: slot, simp add: hq)
      then show ?thesis by (auto simp: flushed_lines_def)
    next
      case False
      then have "line_of a \<in> flushed_lines (set e2)"
        unfolding e2(3) using that q n by (intro line_of_slot [OF that(2)]) (simp add: slot le_mod_geq, linarith)
      then show ?thesis by (auto simp: flushed_lines_def)
    qed
    moreover have "nova_flush_journal_in_batch E h (jpos h n) P =
        PERSISTENT_BARRIER (?flush b (32 * ?r) False ?P1)"
      unfolding t(1) nova_flush_journal_in_batch_def PAGE_SIZE_def using t(2,3) hm by simp
    ultimately show ?thesis
      using that [of "e1 @ e2"] e1(2) e2(2) extends_trans [OF extends_trans [OF e1(1) e2(1)] extends_barrier]
      by simp
  qed
qed

text \<open>
  The events of a transaction on the words \<open>fs\<close>: the records, their write-backs, a fence, the
  store that sets the tail, the write-back of the pointers, a fence.
\<close>

definition tail_word :: "nat \<Rightarrow> nat set" where
  "tail_word pair = {pair + 8..<pair + 16}"

lemma slot_in_region: "32 dvd h \<Longrightarrow> {jpos h i..<jpos h i + 32} \<subseteq> jregion h"
  using jpos_bounds [of h i] by (auto simp: jregion_def)

lemma transaction_events:
  assumes h: "32 dvd h" and ok: "words_ok h fs" and n: "0 < length fs" "length fs < 128"
    and pair: "pair mod 64 = 0" "{pair..<pair + 64} \<inter> jregion h = {}"
    and head: "get_field journal_ptr_pair J_head pair P = h"
  obtains A F G where
    "extends P (A @ F @ Sfence # Store (pair + 8) (le_bytes 8 (jpos h (length fs))) # G @ [Sfence])
       (fst (journal_publish E pair (append_words E fs (P, h))))"
    "snd (journal_publish E pair (append_words E fs (P, h))) = jpos h (length fs)"
    "touched_by A = (\<Union>i < length fs. {jpos h i..<jpos h i + 32})" "touched_by F = {}" "touched_by G = {}"
    "holds E h fs (mem P) (replay A (mem P))"
    "\<forall>a \<in> touched_by A. line_of a \<in> flushed_lines (set F)"
    "\<forall>a \<in> tail_word pair. line_of a \<in> flushed_lines (set G)"
proof -
  let ?n = "length fs" and ?t = "jpos h (length fs)"
  obtain P1 where P1: "append_words E fs (P, h) = (P1, ?t)"
    and holds: "holds E h fs (mem P) (mem P1)"
    and A: "\<exists>A. extends P A P1 \<and> touched_by A = (\<Union>i < ?n. {jpos h i..<jpos h i + 32})"
    using append_words_ok [OF h ok, of 0, where E = E and P = P] n
    by (cases "append_words E fs (P, h)") (auto simp: holds_def)
  then obtain A where A: "extends P A P1" "touched_by A = (\<Union>i < ?n. {jpos h i..<jpos h i + 32})" by blast
  have jr: "touched_by A \<subseteq> jregion h"
    using slot_in_region [OF h] unfolding A(2) by blast
  have "mem P1 a = mem P a" if "a \<in> {pair..<pair + 64}" for a
  proof -
    have "a \<notin> touched_by A" using that jr pair(2) by blast
    then show ?thesis using A(1) by (simp add: extends_def replay_other)
  qed
  then have "get_bytes (mem P1) pair 8 = get_bytes (mem P) pair 8"
    by (auto simp: get_bytes_def)
  then have head1: "get_field journal_ptr_pair J_head pair P1 = h"
    using head by (simp add: get_field_def read_le_def)
  obtain F where F: "extends P1 (F @ [Sfence]) (nova_flush_journal_in_batch E h ?t P1)" "touched_by F = {}"
    "\<And>i a. i < ?n \<Longrightarrow> a \<in> {jpos h i..<jpos h i + 32} \<Longrightarrow> line_of a \<in> flushed_lines (set F)"
    using flush_batch_events [OF h n, where P = P1 and E = E] by blast
  let ?P2 = "nova_flush_journal_in_batch E h ?t P1"
  let ?P3 = "set_field journal_ptr_pair J_tail pair ?t ?P2"
  have T: "extends ?P2 [Store (pair + 8) (le_bytes 8 ?t)] ?P3"
    by (simp add: set_field_def extends_write_le)
  have "0 < CACHELINE_SIZE \<or> pair mod 64 = 0" "CACHELINE_SIZE + 63 < 2 ^ 32"
    by (simp_all add: CACHELINE_SIZE_def)
  then obtain G where G: "extends ?P3 (G @ (if True then [Sfence] else []))
      (nova_flush_buffer (support_clwb E) pair CACHELINE_SIZE True ?P3)"
    "touched_by G = {}" "flushed_lines (set G) = line_of ` {pair..<pair + CACHELINE_SIZE}"
    by (rule extends_flush)
  have pub: "journal_publish E pair (append_words E fs (P, h)) =
      (nova_flush_buffer (support_clwb E) pair CACHELINE_SIZE True ?P3, ?t)"
    by (simp add: journal_publish_def P1 head1)
  have "extends P (A @ F @ Sfence # Store (pair + 8) (le_bytes 8 ?t) # G @ [Sfence])
      (fst (journal_publish E pair (append_words E fs (P, h))))"
    using extends_trans [OF extends_trans [OF extends_trans [OF A(1) F(1)] T] G(1)] by (simp add: pub)
  moreover have "holds E h fs (mem P) (replay A (mem P))" using holds A(1) by (simp add: extends_def)
  moreover have "line_of a \<in> flushed_lines (set F)" if "a \<in> touched_by A" for a
    using that F(3) unfolding A(2) by blast
  moreover have "line_of a \<in> flushed_lines (set G)" if "a \<in> tail_word pair" for a
    using that unfolding G(3) tail_word_def by (auto simp: CACHELINE_SIZE_def)
  ultimately show ?thesis using that [of A F G] A(2) F(2) G(2) pub by simp
qed

subsection \<open>Crash images of a transaction\<close>

lemma prefix_cases:
  "prefix evs (xs @ e # ys) \<Longrightarrow> prefix evs xs \<or> (\<exists>zs. evs = xs @ e # zs \<and> prefix zs ys)"
  by (auto simp: prefix_append prefix_Cons)

lemma prefix_touched: "prefix xs ys \<Longrightarrow> touched_by xs \<subseteq> touched_by ys"
  by (auto simp: prefix_def)

lemma line_of_aligned: "pair mod 64 = 0 \<Longrightarrow> pair \<le> a \<Longrightarrow> a < pair + 64 \<Longrightarrow> line_of a = line_of pair"
  unfolding line_of_def CACHELINE_SIZE_def by (rule div_nat_eqI) auto

text \<open>
  An image taken before the commit holds either the old tail and the old content everywhere
  outside the journal, or the new tail, the records, and the old content everywhere outside the
  journal and the words.
\<close>

lemma transaction_crash:
  assumes img: "crash_image m0 evs m"
    and evs: "prefix evs (A @ F @ Sfence # Store (pair + 8) (le_bytes 8 t) # G @ Sfence # cs)"
    and A: "touched_by A \<subseteq> jregion h" "\<forall>a \<in> touched_by A. line_of a \<in> flushed_lines (set F)"
    and F: "touched_by F = {}" and G: "touched_by G = {}"
      "\<forall>a \<in> tail_word pair. line_of a \<in> flushed_lines (set G)"
    and cs: "touched_by cs \<inter> (jregion h \<union> tail_word pair) = {}"
    and pair: "pair mod 64 = 0" "tail_word pair \<inter> jregion h = {}"
  shows "(\<forall>a. a \<notin> jregion h \<longrightarrow> m a = m0 a) \<or>
    ((\<forall>a \<in> tail_word pair. m a = le_bytes 8 t ! (a - (pair + 8))) \<and>
     (\<forall>a. a \<in> touched_by A \<longrightarrow> m a = replay A m0 a) \<and>
     (\<forall>a. a \<notin> jregion h \<union> tail_word pair \<union> touched_by cs \<longrightarrow> m a = m0 a))"
proof -
  let ?T = "Store (pair + 8) (le_bytes 8 t)"
  have tw: "{pair + 8..<pair + 8 + length (le_bytes 8 t)} = tail_word pair"
    by (auto simp: tail_word_def)
  have "prefix evs ((A @ F @ [Sfence]) @ ?T # G @ Sfence # cs)" using evs by simp
  then consider "prefix evs (A @ F @ [Sfence])"
    | xs where "evs = A @ F @ Sfence # ?T # xs" "prefix xs (G @ Sfence # cs)"
    using prefix_cases [of evs "A @ F @ [Sfence]" ?T "G @ Sfence # cs"] by auto
  then show ?thesis
  proof cases
    case 1
    then have "touched_by evs \<subseteq> jregion h" using prefix_touched [OF 1] A(1) F by auto
    then show ?thesis using crash_untouched [OF img] by blast
  next
    case (2 xs)
    then have xs: "touched_by xs \<subseteq> touched_by cs" using prefix_touched [OF 2(2)] G by auto
    have rest: "m a = m0 a" if "a \<notin> jregion h \<union> tail_word pair \<union> touched_by xs" for a
    proof -
      have "touched_by evs \<subseteq> jregion h \<union> tail_word pair \<union> touched_by xs"
        using A(1) F unfolding 2(1) touched_by_simps touched.simps tw by blast
      then show ?thesis using that crash_untouched [OF img] by blast
    qed
    have recs: "m a = replay A m0 a" if "a \<in> touched_by A" for a
    proof (rule crash_durable)
      show "crash_image m0 (A @ F @ Sfence # ?T # xs) m" using img 2(1) by simp
      show "\<exists>ev \<in> set F. writes_back (line_of a) ev" using A(2) that by (blast intro: writes_back_flushed)
      show "a \<notin> touched_by F" "a \<notin> touched_by (?T # xs)" using that A(1) F xs cs pair(2)
        unfolding touched_by_simps touched.simps tw by blast+
    qed
    consider "prefix xs G" | zs where "xs = G @ Sfence # zs"
      using prefix_cases [OF 2(2)] by blast
    then show ?thesis
    proof cases
      case 1
      then have noxs: "touched_by xs = {}" using prefix_touched [OF 1] G by auto
      have line: "line_of ` {pair + 8..<pair + 8 + length (le_bytes 8 t)} \<subseteq> {line_of pair}"
        using pair(1) by (auto intro: line_of_aligned)
      have free: "{pair + 8..<pair + 8 + length (le_bytes 8 t)} \<inter>
          (touched_by (A @ F @ [Sfence]) \<union> touched_by xs) = {}"
        using A(1) F noxs pair(2) unfolding tw by auto
      have "crash_image m0 ((A @ F @ [Sfence]) @ ?T # xs) m" using img 2(1) by simp
      then have "(\<forall>a \<in> tail_word pair. m a = m0 a) \<or>
          (\<forall>a \<in> tail_word pair. m a = le_bytes 8 t ! (a - (pair + 8)))"
        using crash_one_store [OF _ free line] unfolding tw by blast
      then show ?thesis using rest recs noxs by blast
    next
      case (2 zs)
      have "m a = le_bytes 8 t ! (a - (pair + 8))" if a: "a \<in> tail_word pair" for a
      proof -
        have "m a = replay (A @ F @ Sfence # [?T]) m0 a"
        proof (rule crash_durable)
          show "crash_image m0 ((A @ F @ Sfence # [?T]) @ G @ Sfence # zs) m"
            using img \<open>evs = A @ F @ Sfence # ?T # xs\<close> 2 by simp
          show "\<exists>ev \<in> set G. writes_back (line_of a) ev" using G(2) a by (blast intro: writes_back_flushed)
          show "a \<notin> touched_by G" "a \<notin> touched_by zs" using a G xs cs 2 by auto
        qed
        then show ?thesis using a by (auto simp: replay_append put_def tail_word_def)
      qed
      then show ?thesis using rest recs xs by blast
    qed
  qed
qed

subsection \<open>Recovery on a crash image\<close>

definition ptr_table :: "nat set" where
  "ptr_table = {4096 * 48..<4096 * 64}"

definition pair_of :: "nat \<Rightarrow> nat" where
  "pair_of cpu = 4096 * 48 + cpu * 64"

definition pair_empty :: "nat \<Rightarrow> pm \<Rightarrow> bool" where
  "pair_empty cpu P \<longleftrightarrow>
     get_field journal_ptr_pair J_head (pair_of cpu) P = get_field journal_ptr_pair J_tail (pair_of cpu) P"

lemma get_pointers: "cpu < ncpus \<Longrightarrow> nova_get_journal_pointers ncpus cpu = Inr (pair_of cpu)"
  by (simp add: nova_get_journal_pointers_def pair_of_def NOVA_DEF_BLOCK_SIZE_4K_def JOURNAL_START_def
      CACHELINE_SIZE_def)

lemma pair_in_table: "cpu < ncpus \<Longrightarrow> ncpus \<le> 1024 \<Longrightarrow> {pair_of cpu..<pair_of cpu + 64} \<subseteq> ptr_table"
  by (auto simp: pair_of_def ptr_table_def)

lemma pair_aligned [simp]: "pair_of cpu mod 64 = 0"
proof -
  have "pair_of cpu = 64 * (3072 + cpu)" by (simp add: pair_of_def)
  then show ?thesis by simp
qed

lemma soft_init_loop_append:
  "soft_init_loop E n xs P = Some (P', Inr ()) \<Longrightarrow>
     soft_init_loop E n (xs @ ys) P = soft_init_loop E n ys P'"
  by (induction xs arbitrary: P) (auto split: option.splits prod.splits sum.splits unit.splits)

lemma soft_init_empty:
  "(\<forall>i \<in> set is. i < n \<and> pair_empty i P) \<Longrightarrow> soft_init_loop E n is P = Some (P, Inr ())"
  by (induction "is") (auto simp: soft_init_cpu_def get_pointers pair_empty_def)

lemma get_field_cong:
  "(\<And>a. a \<in> {b + packed_off fs f..<b + packed_off fs f + packed_width fs f} \<Longrightarrow> mem P a = mem Q a) \<Longrightarrow>
     get_field fs f b P = get_field fs f b Q"
  unfolding get_field_def read_le_def get_bytes_def
  by (intro arg_cong [where f = le_nat] map_cong refl) simp

lemma pair_empty_cong:
  assumes "\<And>a. a \<in> {pair_of i..<pair_of i + 16} \<Longrightarrow> mem P a = mem Q a"
  shows "pair_empty i P = pair_empty i Q"
proof -
  have "get_field journal_ptr_pair f (pair_of i) P = get_field journal_ptr_pair f (pair_of i) Q" for f
    by (rule get_field_cong, rule assms) (cases f; auto)
  then show ?thesis by (simp add: pair_empty_def)
qed

lemma pairs_apart: "i \<noteq> j \<Longrightarrow> {pair_of i..<pair_of i + 16} \<inter> {pair_of j..<pair_of j + 16} = {}"
  by (cases "i < j") (auto simp: pair_of_def)

text \<open>Recovery over all CPUs when only one of them has records.\<close>

lemma recover_one_cpu:
  assumes cpu: "cpu < n" "n \<le> 1024"
    and others: "\<And>i. i < n \<Longrightarrow> i \<noteq> cpu \<Longrightarrow> pair_empty i P"
    and fr: "framed E (pair_of cpu) h fs m0 P" and len: "0 < length fs"
    and out: "words_of fs \<inter> ptr_table = {}"
    and head: "get_field journal_ptr_pair J_head (pair_of cpu) P = h"
  obtains P' where "soft_init_loop E n [0..<n] P = Some (P', Inr ())"
    "mem P' = put (pair_of cpu + 8) (le_bytes 8 h) (restore fs m0 (mem P))"
proof -
  obtain P' where P': "soft_init_cpu E n cpu P = Some (P', Inr ())"
    "mem P' = put (pair_of cpu + 8) (le_bytes 8 h) (restore fs m0 (mem P))"
    using framed_soft_init [OF fr len get_pointers [OF cpu(1)] head] by blast
  have "pair_empty i P'" if i: "i < n" "i \<noteq> cpu" for i
  proof -
    have "mem P' a = mem P a" if a: "a \<in> {pair_of i..<pair_of i + 16}" for a
    proof -
      have "a \<in> ptr_table" using pair_in_table [OF i(1) cpu(2)] a by auto
      then have "a \<notin> words_of fs" using out by blast
      moreover have "a \<notin> {pair_of cpu + 8..<pair_of cpu + 16}"
        using pairs_apart [OF i(2)] a by fastforce
      ultimately show ?thesis unfolding P'(2) by (auto simp: put_def restore_def)
    qed
    then have "pair_empty i P' = pair_empty i P" by (rule pair_empty_cong)
    then show ?thesis using others i by simp
  qed
  then have after: "soft_init_loop E n [Suc cpu..<n] P' = Some (P', Inr ())"
    by (intro soft_init_empty) auto
  have before: "soft_init_loop E n [0..<cpu] P = Some (P, Inr ())"
    using others cpu(1) by (intro soft_init_empty) auto
  have "[0..<n] = [0..<cpu] @ cpu # [Suc cpu..<n]"
    using cpu(1) upt_add_eq_append [of 0 cpu "n - cpu"] by (simp add: upt_conv_Cons)
  then have "soft_init_loop E n [0..<n] P = Some (P', Inr ())"
    using soft_init_loop_append [OF before] P'(1) after by simp
  then show ?thesis using that P'(2) by blast
qed

end
