(* ===== verification/Journal_Atomic.thy ===== *)
theory Journal_Atomic
  imports Journal_Crash
begin

text \<open>
  Transactions are atomic: recovery on any crash image taken before the commit restores the old
  content (\<open>transaction_recovers\<close>), and on any image up to the end of the commit it leaves the old
  or the new content (\<open>transaction_atomic\<close>).
\<close>

text \<open>
  The setting of a transaction on the words \<open>fs\<close>: all journals empty, the journal page above the
  reserved blocks, the words outside the journal.
\<close>

definition tx_setting :: "nat \<Rightarrow> nat \<Rightarrow> nat \<Rightarrow> nat list \<Rightarrow> pm \<Rightarrow> bool" where
  "tx_setting n cpu h fs P \<longleftrightarrow>
     cpu < n \<and> n \<le> 1024 \<and> (\<forall>i < n. pair_empty i P) \<and>
     get_field journal_ptr_pair J_head (pair_of cpu) P = h \<and> 32 dvd h \<and> 4096 * 64 \<le> h \<and>
     words_ok h fs \<and> words_of fs \<inter> ptr_table = {} \<and> 0 < length fs \<and> length fs < 128"

lemma head_page: "4096 * 64 \<le> h \<Longrightarrow> 4096 * 64 \<le> jpage h"
proof -
  assume "4096 * 64 \<le> h"
  then have "64 \<le> h div 4096" using div_le_mono [of "4096 * 64" h 4096] by simp
  then show ?thesis by (simp add: jpage_def minus_mod_eq_mult_div)
qed

lemma field_less: "get_field fs f a P < 256 ^ packed_width fs f"
  using le_nat_less [of "get_bytes (mem P) (a + packed_off fs f) (packed_width fs f)"]
  by (simp add: get_field_def read_le_def)

lemma jpos_less: "32 dvd h \<Longrightarrow> h < 2 ^ 64 \<Longrightarrow> jpos h i < 2 ^ 64"
proof -
  assume h: "32 dvd h" "h < 2 ^ 64"
  have "jpage h = 4096 * (h div 4096)" by (simp add: jpage_def minus_mod_eq_mult_div)
  moreover have "h div 4096 < 2 ^ 52" using h(2) by (simp add: div_less_iff_less_mult)
  ultimately show ?thesis using jpos_bounds [OF h(1), of i] by simp
qed

lemma tx_settingD:
  assumes "tx_setting n cpu h fs P"
  shows "h < 2 ^ 64" "{pair_of i..<pair_of i + 64} \<inter> jregion h = {} \<or> n \<le> i"
    "words_of fs \<inter> jregion h = {}" "tail_word (pair_of cpu) \<inter> words_of fs = {}"
proof -
  have set: "cpu < n" "n \<le> 1024" "get_field journal_ptr_pair J_head (pair_of cpu) P = h"
    "4096 * 64 \<le> h" "words_ok h fs" "words_of fs \<inter> ptr_table = {}"
    using assms by (simp_all add: tx_setting_def)
  show "h < 2 ^ 64" using set(3) field_less [of journal_ptr_pair J_head "pair_of cpu" P] by simp
  have "ptr_table \<inter> jregion h = {}" using head_page [OF set(4)] by (auto simp: ptr_table_def jregion_def)
  then show "{pair_of i..<pair_of i + 64} \<inter> jregion h = {} \<or> n \<le> i"
    using pair_in_table [of i n] set(2) by (cases "i < n") (blast, simp)
  show "words_of fs \<inter> jregion h = {}"
    using set(5) by (fastforce simp: words_of_def words_ok_def jregion_def)
  have "tail_word (pair_of cpu) \<subseteq> {pair_of cpu..<pair_of cpu + 64}" by (auto simp: tail_word_def)
  then show "tail_word (pair_of cpu) \<inter> words_of fs = {}"
    using pair_in_table [OF set(1,2)] set(6) by blast
qed

lemma image_framed:
  assumes tx: "tx_setting n cpu h fs P"
    and tail: "\<forall>a \<in> tail_word (pair_of cpu). m a = le_bytes 8 (jpos h (length fs)) ! (a - (pair_of cpu + 8))"
    and recs: "\<And>a i. i < length fs \<Longrightarrow> a \<in> {jpos h i..<jpos h i + 32} \<Longrightarrow> m a = m' a"
    and holds: "holds E h fs (mem P) m'"
  shows "framed E (pair_of cpu) h fs (mem P) \<lparr>mem = m, trace = []\<rparr>"
proof -
  have set: "32 dvd h" "cpu < n" "n \<le> 1024" "words_of fs \<inter> ptr_table = {}"
    using tx by (simp_all add: tx_setting_def)
  have "get_bytes m (pair_of cpu + 8) 8 = le_bytes 8 (jpos h (length fs))"
    by (rule nth_equalityI) (use tail in \<open>auto simp: tail_word_def\<close>)
  moreover have "jpos h (length fs) < 18446744073709551616"
    using jpos_less [OF set(1) tx_settingD(1) [OF tx]] by simp
  ultimately have "get_field journal_ptr_pair J_tail (pair_of cpu) \<lparr>mem = m, trace = []\<rparr> = jpos h (length fs)"
    by (simp add: get_field_def read_le_def le_nat_le_bytes)
  moreover have "get_bytes m (jpos h i) 32 = get_bytes m' (jpos h i) 32" if "i < length fs" for i
    using recs [OF that] by (auto simp: get_bytes_def)
  then have "holds E h fs (mem P) m" using holds by (simp add: holds_def)
  moreover have "{pair_of cpu..<pair_of cpu + 16} \<subseteq> {pair_of cpu..<pair_of cpu + 64}" by auto
  then have "{pair_of cpu..<pair_of cpu + 16} \<inter> words_of fs = {}"
    using pair_in_table [OF set(2,3)] set(4) by blast
  ultimately show ?thesis using tx by (simp add: framed_def tx_setting_def)
qed

lemma tx_pairs:
  assumes tx: "tx_setting n cpu h fs P" and i: "i < n"
  shows "{pair_of i..<pair_of i + 16} \<inter> jregion h = {}" "{pair_of i..<pair_of i + 16} \<inter> words_of fs = {}"
proof -
  have sub: "{pair_of i..<pair_of i + 16} \<subseteq> {pair_of i..<pair_of i + 64}" by auto
  have "{pair_of i..<pair_of i + 64} \<inter> jregion h = {}" using tx_settingD(2) [OF tx, of i] i by simp
  then show "{pair_of i..<pair_of i + 16} \<inter> jregion h = {}" using sub by blast
  have "{pair_of i..<pair_of i + 64} \<inter> words_of fs = {}"
    using tx pair_in_table [OF i] by (fastforce simp: tx_setting_def)
  then show "{pair_of i..<pair_of i + 16} \<inter> words_of fs = {}" using sub by blast
qed

lemma tail_in_pair: "tail_word (pair_of cpu) \<subseteq> {pair_of cpu..<pair_of cpu + 16}"
  by (auto simp: tail_word_def)

text \<open>An image with the records, the new tail and the old head is rolled back.\<close>

lemma image_recovers:
  assumes tx: "tx_setting n cpu h fs P"
    and tail: "\<forall>a \<in> tail_word (pair_of cpu). m a = le_bytes 8 (jpos h (length fs)) ! (a - (pair_of cpu + 8))"
    and recs: "\<And>a i. i < length fs \<Longrightarrow> a \<in> {jpos h i..<jpos h i + 32} \<Longrightarrow> m a = m' a"
    and holds: "holds E h fs (mem P) m'"
    and rest: "\<And>a. a \<notin> jregion h \<union> tail_word (pair_of cpu) \<union> words_of fs \<Longrightarrow> m a = mem P a"
  obtains P' where "soft_init_loop E n [0..<n] \<lparr>mem = m, trace = []\<rparr> = Some (P', Inr ())"
    "\<And>a. a \<notin> jregion h \<Longrightarrow> mem P' a = mem P a"
proof -
  let ?pair = "pair_of cpu" and ?Q = "\<lparr>mem = m, trace = []\<rparr>"
  have set: "cpu < n" "n \<le> 1024" "0 < length fs" "words_of fs \<inter> ptr_table = {}"
    "get_field journal_ptr_pair J_head ?pair P = h" and empty: "\<And>i. i < n \<Longrightarrow> pair_empty i P"
    using tx by (simp_all add: tx_setting_def)
  have fr: "framed E ?pair h fs (mem P) ?Q" by (rule image_framed [OF tx tail recs holds])
  have same: "m a = mem P a" if "i < n" "a \<in> {pair_of i..<pair_of i + 16}" "a \<notin> tail_word ?pair" for i a
    using rest that tx_pairs [OF tx that(1)] by blast
  have "pair_empty i ?Q" if i: "i < n" "i \<noteq> cpu" for i
  proof -
    have "mem ?Q a = mem P a" if "a \<in> {pair_of i..<pair_of i + 16}" for a
      using same [OF i(1) that] pairs_apart [OF i(2)] that tail_in_pair [of cpu]
      by (metis IntI empty_iff pm.select_convs(1) subsetD)
    then show ?thesis using empty [OF i(1)] pair_empty_cong [of i ?Q P] by blast
  qed
  moreover have "get_field journal_ptr_pair J_head ?pair ?Q = h"
    unfolding set(5) [symmetric]
    by (rule get_field_cong) (use same [OF set(1)] in \<open>auto simp: tail_word_def\<close>)
  ultimately obtain P' where P': "soft_init_loop E n [0..<n] ?Q = Some (P', Inr ())"
    "mem P' = put (?pair + 8) (le_bytes 8 h) (restore fs (mem P) (mem ?Q))"
    using recover_one_cpu [OF set(1,2) _ fr set(3,4)] by blast
  have "get_field journal_ptr_pair J_tail ?pair P = h"
    using empty [OF set(1)] set(5) by (simp add: pair_empty_def)
  then have "get_bytes (mem P) (?pair + 8) 8 = le_bytes 8 h"
    using le_bytes_le_nat [of "get_bytes (mem P) (?pair + 8) 8"] by (simp add: get_field_def read_le_def)
  then have "mem P' a = mem P a" if "a \<notin> jregion h" for a
    using P'(2) rest that nth_get_bytes [of "a - (?pair + 8)" 8 "mem P" "?pair + 8"]
    by (auto simp: put_def restore_def tail_word_def)
  then show ?thesis using that P'(1) by blast
qed

text \<open>The facts about the events of a transaction that the crash lemmas need.\<close>

definition tx_events :: "nova_env \<Rightarrow> nat \<Rightarrow> nat \<Rightarrow> nat list \<Rightarrow> pm \<Rightarrow> pm_event list \<Rightarrow> pm_event list \<Rightarrow> pm_event list \<Rightarrow> bool" where
  "tx_events E cpu h fs P A F G \<longleftrightarrow>
     touched_by A = (\<Union>i < length fs. {jpos h i..<jpos h i + 32}) \<and> touched_by A \<subseteq> jregion h \<and>
     touched_by F = {} \<and> touched_by G = {} \<and> holds E h fs (mem P) (replay A (mem P)) \<and>
     (\<forall>a \<in> touched_by A. line_of a \<in> flushed_lines (set F)) \<and>
     (\<forall>a \<in> tail_word (pair_of cpu). line_of a \<in> flushed_lines (set G))"

lemma tx_eventsD:
  assumes "tx_events E cpu h fs P A F G"
  shows "touched_by A = (\<Union>i < length fs. {jpos h i..<jpos h i + 32})" "touched_by A \<subseteq> jregion h"
    "touched_by F = {}" "touched_by G = {}" "holds E h fs (mem P) (replay A (mem P))"
    "\<forall>a \<in> touched_by A. line_of a \<in> flushed_lines (set F)"
    "\<forall>a \<in> tail_word (pair_of cpu). line_of a \<in> flushed_lines (set G)"
  using assms unfolding tx_events_def by blast+

lemma tx_events_exist:
  assumes tx: "tx_setting n cpu h fs P" and tr: "trace P = []"
  obtains A F G where "tx_events E cpu h fs P A F G"
    "rev (trace (fst (journal_publish E (pair_of cpu) (append_words E fs (P, h))))) =
       A @ F @ Sfence # Store (pair_of cpu + 8) (le_bytes 8 (jpos h (length fs))) # G @ [Sfence]"
    "snd (journal_publish E (pair_of cpu) (append_words E fs (P, h))) = jpos h (length fs)"
    "mem (fst (journal_publish E (pair_of cpu) (append_words E fs (P, h)))) =
       put (pair_of cpu + 8) (le_bytes 8 (jpos h (length fs))) (replay A (mem P))"
proof -
  let ?pair = "pair_of cpu" and ?t = "jpos h (length fs)"
  have set: "32 dvd h" "words_ok h fs" "0 < length fs" "length fs < 128" "cpu < n"
    "get_field journal_ptr_pair J_head ?pair P = h" using tx by (simp_all add: tx_setting_def)
  have apart: "{?pair..<?pair + 64} \<inter> jregion h = {}" using tx_settingD(2) [OF tx, of cpu] set(5) by simp
  obtain A F G where
    ext: "extends P (A @ F @ Sfence # Store (?pair + 8) (le_bytes 8 ?t) # G @ [Sfence])
       (fst (journal_publish E ?pair (append_words E fs (P, h))))"
    and t: "snd (journal_publish E ?pair (append_words E fs (P, h))) = ?t"
    and A: "touched_by A = (\<Union>i < length fs. {jpos h i..<jpos h i + 32})"
    and FG: "touched_by F = {}" "touched_by G = {}"
    and holds: "holds E h fs (mem P) (replay A (mem P))"
    and Fl: "\<forall>a \<in> touched_by A. line_of a \<in> flushed_lines (set F)"
    and Gl: "\<forall>a \<in> tail_word ?pair. line_of a \<in> flushed_lines (set G)"
    using set(1-4) pair_aligned apart set(6) by (rule transaction_events [where E = E])
  have quiet: "replay F m = m" "replay G m = m" for m using FG by (auto simp: replay_other)
  have "touched_by A \<subseteq> jregion h" using slot_in_region [OF set(1)] unfolding A by blast
  then have "tx_events E cpu h fs P A F G" using A FG holds Fl Gl by (simp add: tx_events_def)
  then show ?thesis
    using that [of A F G] ext tr t by (simp add: extends_def replay_append quiet)
qed

lemma transaction_recovers:
  assumes tx: "tx_setting n cpu h fs P" and tr: "trace P = []"
    and cs: "touched_by cs \<subseteq> words_of fs"
    and evs: "prefix evs (rev (trace (fst (journal_publish E (pair_of cpu) (append_words E fs (P, h))))) @ cs)"
    and img: "crash_image (mem P) evs m"
  obtains P' where "soft_init_loop E n [0..<n] \<lparr>mem = m, trace = []\<rparr> = Some (P', Inr ())"
    "\<And>a. a \<notin> jregion h \<Longrightarrow> mem P' a = mem P a"
proof -
  let ?pair = "pair_of cpu" and ?t = "jpos h (length fs)" and ?Q = "\<lparr>mem = m, trace = []\<rparr>"
  have cpu: "cpu < n" and empty: "\<And>i. i < n \<Longrightarrow> pair_empty i P" using tx by (simp_all add: tx_setting_def)
  obtain A F G where ev: "tx_events E cpu h fs P A F G"
    and rev: "rev (trace (fst (journal_publish E ?pair (append_words E fs (P, h))))) =
       A @ F @ Sfence # Store (?pair + 8) (le_bytes 8 ?t) # G @ [Sfence]"
    using tx_events_exist [OF tx tr, of E] by blast
  note e = tx_eventsD [OF ev]
  have pre: "prefix evs (A @ F @ Sfence # Store (?pair + 8) (le_bytes 8 ?t) # G @ Sfence # cs)"
    using evs by (simp add: rev)
  have tw: "tail_word ?pair \<inter> jregion h = {}" using tx_pairs(1) [OF tx cpu] tail_in_pair [of cpu] by blast
  have "touched_by cs \<inter> (jregion h \<union> tail_word ?pair) = {}" using cs tx_settingD(3,4) [OF tx] by blast
  from transaction_crash [OF img pre e(2,6,3,4,7) this pair_aligned tw]
  consider (old) "\<forall>a. a \<notin> jregion h \<longrightarrow> m a = mem P a"
    | (new) "\<forall>a \<in> tail_word ?pair. m a = le_bytes 8 ?t ! (a - (?pair + 8))"
      "\<forall>a. a \<in> touched_by A \<longrightarrow> m a = replay A (mem P) a"
      "\<forall>a. a \<notin> jregion h \<union> tail_word ?pair \<union> touched_by cs \<longrightarrow> m a = mem P a"
    by blast
  then show ?thesis
  proof cases
    case old
    have "pair_empty i ?Q" if "i < n" for i
      using empty [OF that] tx_pairs(1) [OF tx that] old by (subst pair_empty_cong [of i ?Q P]) auto
    then show ?thesis using that [of ?Q] old by (simp add: soft_init_empty)
  next
    case new
    have recs: "m a = replay A (mem P) a" if "i < length fs" "a \<in> {jpos h i..<jpos h i + 32}" for a i
      using new(2) that unfolding e(1) by blast
    have rest: "m a = mem P a" if "a \<notin> jregion h \<union> tail_word ?pair \<union> words_of fs" for a
      using new(3) cs that by blast
    show ?thesis by (rule image_recovers [OF tx new(1) recs e(5) rest]) (use that in blast)+
  qed
qed

subsection \<open>Commit\<close>

text \<open>The writer has flushed and fenced everything it wrote.\<close>

definition settled :: "pm_event list \<Rightarrow> bool" where
  "settled cs \<longleftrightarrow>
     (\<forall>a \<in> touched_by cs. \<exists>xs ys zs. cs = xs @ ys @ Sfence # zs \<and>
        (\<exists>ev \<in> set ys. writes_back (line_of a) ev) \<and> a \<notin> touched_by ys \<and> a \<notin> touched_by zs)"

definition head_word :: "nat \<Rightarrow> nat set" where
  "head_word pair = {pair..<pair + 8}"

lemma settled_image:
  assumes "settled cs" "a \<in> touched_by cs" "crash_image m0 (B @ cs @ D) m"
    and "a \<notin> touched_by B" "a \<notin> touched_by D"
  shows "m a = replay cs m0 a"
proof -
  obtain xs ys zs where c: "cs = xs @ ys @ Sfence # zs" "\<exists>ev \<in> set ys. writes_back (line_of a) ev"
    "a \<notin> touched_by ys" "a \<notin> touched_by zs" using assms(1,2) unfolding settled_def by blast
  have "m a = replay (B @ xs) m0 a"
  proof (rule crash_durable)
    show "crash_image m0 ((B @ xs) @ ys @ Sfence # (zs @ D)) m" using assms(3) c(1) by simp
  qed (use c(2-4) assms(5) in simp_all)
  also have "\<dots> = replay xs m0 a"
    unfolding replay_append using assms(4) by (intro replay_cong replay_other)
  also have "\<dots> = replay cs m0 a"
    unfolding c(1) using c(3,4) by (simp add: replay_append replay_other)
  finally show ?thesis .
qed

text \<open>
  After the store of the head has been issued, an image holds the records, the new tail, the new
  content of the words, and the old or the new head.
\<close>

lemma commit_crash:
  assumes img: "crash_image m0 ((A @ F @ Sfence # Store (pair + 8) (le_bytes 8 t) # G @ [Sfence]) @ cs @
      Store pair (le_bytes 8 t) # zs) m"
    and A: "touched_by A \<subseteq> jregion h" "\<forall>a \<in> touched_by A. line_of a \<in> flushed_lines (set F)"
    and F: "touched_by F = {}" and G: "touched_by G = {}"
      "\<forall>a \<in> tail_word pair. line_of a \<in> flushed_lines (set G)"
    and zs: "touched_by zs = {}" and cs: "settled cs" "touched_by cs \<inter> (jregion h \<union> {pair..<pair + 16}) = {}"
    and pair: "pair mod 64 = 0" "{pair..<pair + 16} \<inter> jregion h = {}"
  shows "\<forall>a \<in> tail_word pair. m a = le_bytes 8 t ! (a - (pair + 8))"
    "\<forall>a. a \<in> touched_by A \<longrightarrow> m a = replay A m0 a"
    "\<forall>a. a \<notin> jregion h \<union> {pair..<pair + 16} \<longrightarrow> m a = replay cs m0 a"
    "(\<forall>a \<in> head_word pair. m a = m0 a) \<or> (\<forall>a \<in> head_word pair. m a = le_bytes 8 t ! (a - pair))"
proof -
  let ?T = "Store (pair + 8) (le_bytes 8 t)" and ?H = "Store pair (le_bytes 8 t)"
  have words: "touched ?T = tail_word pair" "touched ?H = head_word pair"
    by (auto simp: tail_word_def head_word_def)
  have split: "{pair..<pair + 16} = head_word pair \<union> tail_word pair" "head_word pair \<inter> tail_word pair = {}"
    by (auto simp: tail_word_def head_word_def)
  have B: "touched_by (A @ F @ Sfence # ?T # G @ [Sfence]) \<subseteq> jregion h \<union> tail_word pair"
    using A(1) F G(1) by (auto simp: words simp del: touched.simps(1))
  show "\<forall>a \<in> tail_word pair. m a = le_bytes 8 t ! (a - (pair + 8))"
  proof
    fix a assume a: "a \<in> tail_word pair"
    have "m a = replay (A @ F @ Sfence # [?T]) m0 a"
    proof (rule crash_durable)
      show "crash_image m0 ((A @ F @ Sfence # [?T]) @ G @ Sfence # (cs @ ?H # zs)) m" using img by simp
      show "\<exists>ev \<in> set G. writes_back (line_of a) ev" using G(2) a by (blast intro: writes_back_flushed)
      show "a \<notin> touched_by G" using G(1) by simp
      show "a \<notin> touched_by (cs @ ?H # zs)"
        using a cs(2) zs split by (auto simp: words simp del: touched.simps(1))
    qed
    then show "m a = le_bytes 8 t ! (a - (pair + 8))" using a by (auto simp: replay_append put_def tail_word_def)
  qed
  show "\<forall>a. a \<in> touched_by A \<longrightarrow> m a = replay A m0 a"
  proof (intro allI impI)
    fix a assume a: "a \<in> touched_by A"
    show "m a = replay A m0 a"
    proof (rule crash_durable)
      show "crash_image m0 (A @ F @ Sfence # (?T # G @ Sfence # cs @ ?H # zs)) m" using img by simp
      show "\<exists>ev \<in> set F. writes_back (line_of a) ev" using A(2) a by (blast intro: writes_back_flushed)
      show "a \<notin> touched_by F" using F by simp
      show "a \<notin> touched_by (?T # G @ Sfence # cs @ ?H # zs)"
        using a A(1) G(1) cs(2) zs pair(2) split by (auto simp: words simp del: touched.simps(1))
    qed
  qed
  show "\<forall>a. a \<notin> jregion h \<union> {pair..<pair + 16} \<longrightarrow> m a = replay cs m0 a"
  proof (intro allI impI)
    fix a assume a: "a \<notin> jregion h \<union> {pair..<pair + 16}"
    then have out: "a \<notin> touched_by (A @ F @ Sfence # ?T # G @ [Sfence])" "a \<notin> touched_by (?H # zs)"
      using B zs split by (auto simp: words simp del: touched.simps(1))
    show "m a = replay cs m0 a"
    proof (cases "a \<in> touched_by cs")
      case True
      then show ?thesis using settled_image [OF cs(1) True img] out by simp
    next
      case False
      then show ?thesis using crash_untouched [OF img, of a] out by (simp add: replay_other)
    qed
  qed
  have line: "line_of ` {pair..<pair + length (le_bytes 8 t)} \<subseteq> {line_of pair}"
    using pair(1) by (auto intro: line_of_aligned)
  have hw: "{pair..<pair + length (le_bytes 8 t)} = head_word pair" by (simp add: head_word_def)
  have free: "{pair..<pair + length (le_bytes 8 t)} \<inter>
      (touched_by ((A @ F @ Sfence # ?T # G @ [Sfence]) @ cs) \<union> touched_by zs) = {}"
    using B zs cs(2) pair(2) split unfolding hw touched_by_simps(3) by blast
  have "crash_image m0 (((A @ F @ Sfence # ?T # G @ [Sfence]) @ cs) @ ?H # zs) m" using img by simp
  from crash_one_store [OF this free line]
  show "(\<forall>a \<in> head_word pair. m a = m0 a) \<or> (\<forall>a \<in> head_word pair. m a = le_bytes 8 t ! (a - pair))"
    unfolding hw .
qed

lemma transaction_atomic:
  assumes tx: "tx_setting n cpu h fs P" and tr: "trace P = []"
    and cs: "touched_by cs \<subseteq> words_of fs" "settled cs" and quiet: "touched_by G' = {}"
    and evs: "prefix evs ((rev (trace (fst (journal_publish E (pair_of cpu) (append_words E fs (P, h))))) @ cs) @
      Store (pair_of cpu) (le_bytes 8 (jpos h (length fs))) # G')"
    and img: "crash_image (mem P) evs m"
  obtains P' where "soft_init_loop E n [0..<n] \<lparr>mem = m, trace = []\<rparr> = Some (P', Inr ())"
    "(\<forall>a. a \<notin> jregion h \<longrightarrow> mem P' a = mem P a) \<or>
     (\<forall>a. a \<notin> jregion h \<union> {pair_of cpu..<pair_of cpu + 16} \<longrightarrow> mem P' a = replay cs (mem P) a)"
proof -
  let ?pair = "pair_of cpu" and ?t = "jpos h (length fs)" and ?Q = "\<lparr>mem = m, trace = []\<rparr>"
  have cpu: "cpu < n" and empty: "\<And>i. i < n \<Longrightarrow> pair_empty i P" using tx by (simp_all add: tx_setting_def)
  obtain A F G where ev: "tx_events E cpu h fs P A F G"
    and rev: "rev (trace (fst (journal_publish E ?pair (append_words E fs (P, h))))) =
       A @ F @ Sfence # Store (?pair + 8) (le_bytes 8 ?t) # G @ [Sfence]"
    using tx_events_exist [OF tx tr, of E] by blast
  note e = tx_eventsD [OF ev] and pw = tx_pairs [OF tx cpu]
  from prefix_cases [OF evs] show ?thesis
  proof
    assume "prefix evs (rev (trace (fst (journal_publish E ?pair (append_words E fs (P, h))))) @ cs)"
    then show ?thesis using transaction_recovers [OF tx tr cs(1) _ img] that by metis
  next
    assume "\<exists>zs. evs = (rev (trace (fst (journal_publish E ?pair (append_words E fs (P, h))))) @ cs) @
        Store ?pair (le_bytes 8 ?t) # zs \<and> prefix zs G'"
    then obtain zs where zs: "evs = (A @ F @ Sfence # Store (?pair + 8) (le_bytes 8 ?t) # G @ [Sfence]) @ cs @
        Store ?pair (le_bytes 8 ?t) # zs" "touched_by zs = {}"
      using prefix_touched quiet by (fastforce simp: rev)
    have "touched_by cs \<inter> (jregion h \<union> {?pair..<?pair + 16}) = {}"
      using cs(1) tx_settingD(3) [OF tx] pw(2) by blast
    note c = commit_crash [OF img [unfolded zs(1)] e(2,6,3,4,7) zs(2) cs(2) this pair_aligned pw(1)]
    have other: "m a = mem P a" if "a \<notin> jregion h \<union> {?pair..<?pair + 16} \<union> words_of fs" for a
      using c(3) cs(1) that replay_other [of a cs "mem P"] by (metis UnI1 UnI2 subsetD)
    have split: "{?pair..<?pair + 16} = head_word ?pair \<union> tail_word ?pair"
      by (auto simp: tail_word_def head_word_def)
    from c(4) show ?thesis
    proof
      assume old: "\<forall>a \<in> head_word ?pair. m a = mem P a"
      have rest: "m a = mem P a" if "a \<notin> jregion h \<union> tail_word ?pair \<union> words_of fs" for a
        using other [of a] old that split by (cases "a \<in> head_word ?pair") auto
      have recs: "m a = replay A (mem P) a" if "i < length fs" "a \<in> {jpos h i..<jpos h i + 32}" for a i
        using c(2) that unfolding e(1) by blast
      show ?thesis by (rule image_recovers [OF tx c(1) recs e(5) rest]) (use that in blast)+
    next
      assume new: "\<forall>a \<in> head_word ?pair. m a = le_bytes 8 ?t ! (a - ?pair)"
      have "pair_empty i ?Q" if i: "i < n" for i
      proof (cases "i = cpu")
        case True
        have "get_bytes m ?pair 8 = le_bytes 8 ?t"
          by (rule nth_equalityI) (use new in \<open>auto simp: head_word_def\<close>)
        moreover have "get_bytes m (?pair + 8) 8 = le_bytes 8 ?t"
          by (rule nth_equalityI) (use c(1) in \<open>auto simp: tail_word_def\<close>)
        ultimately show ?thesis using True by (simp add: pair_empty_def get_field_def read_le_def)
      next
        case False
        then have "mem ?Q a = mem P a" if "a \<in> {pair_of i..<pair_of i + 16}" for a
        proof -
          have "a \<notin> jregion h \<union> {?pair..<?pair + 16} \<union> words_of fs"
            using tx_pairs [OF tx i] pairs_apart [OF False] that by blast
          then show ?thesis using other by simp
        qed
        then show ?thesis using empty [OF i] pair_empty_cong [of i ?Q P] by blast
      qed
      then have "soft_init_loop E n [0..<n] ?Q = Some (?Q, Inr ())" by (intro soft_init_empty) simp
      then show ?thesis using that [of ?Q] c(3) by simp
    qed
  qed
qed

subsection \<open>The words of the transactions\<close>

definition logentry_words :: "nat \<Rightarrow> entry_type \<Rightarrow> nat list" where
  "logentry_words entry ty = map (\<lambda>i. entry + i * 8) [0..<nova_get_log_entry_size ty div 8]"

definition inode_words :: "nat \<Rightarrow> bool \<Rightarrow> bool \<Rightarrow> bool \<Rightarrow> nat list" where
  "inode_words pi new_inode invalidate is_dir =
     (if is_dir then [pi + 72] else if new_inode then [pi]
      else if invalidate then [pi + 72, pi, pi + 104] else [pi + 72])"

definition rename_words ::
    "inode_info_header \<Rightarrow> inode_info_header \<Rightarrow> inode_info_header option \<Rightarrow> inode_info_header option
     \<Rightarrow> nat option \<Rightarrow> bool \<Rightarrow> nat list" where
  "rename_words old_inode old_dir new_inode new_dir father_entry invalidate =
     inode_words (pi_addr old_inode) False False False @ inode_words (pi_addr old_dir) False False True @
     (case new_inode of None \<Rightarrow> [] | Some i \<Rightarrow> inode_words (pi_addr i) False invalidate False) @
     (case new_dir of None \<Rightarrow> [] | Some d \<Rightarrow> inode_words (pi_addr d) False False True) @
     (case father_entry of None \<Rightarrow> [] | Some e \<Rightarrow> [e + 16, e + 8])"

lemma append_entry_align:
  "nova_append_entry_journal E c f P = nova_append_entry_journal E c (f - f mod 8) P"
  by (simp add: nova_append_entry_journal_def minus_mod_eq_mult_div)

lemma append_words_Nil [simp]: "append_words E [] r = r"
  by (cases r) simp

lemma append_words_append: "append_words E (xs @ ys) r = append_words E ys (append_words E xs r)"
proof (induction xs arbitrary: r)
  case Nil
  then show ?case by (cases r) simp
next
  case (Cons x xs)
  then show ?case by (cases r) simp
qed

text \<open>Without checksums the inode records are undo records of words.\<close>

lemma append_inode_words:
  assumes "\<not> metadata_csum E" "\<And>tr x. media_ok E tr x" "8 dvd pi_addr inode"
  shows "nova_append_inode_journal E c inode new_inode invalidate is_dir P =
    append_words E (inode_words (pi_addr inode) new_inode invalidate is_dir) (P, c)"
proof -
  have "(pi_addr inode + 1) mod 8 = 1" using assms(3) by (auto elim!: dvdE)
  then have valid: "nova_append_entry_journal E c' (pi_addr inode + 1) P' =
      nova_append_entry_journal E c' (pi_addr inode) P'" for c' P'
    by (subst append_entry_align) simp
  have "nova_get_inode E P inode = Some (pi_addr inode)"
    using assms(2) by (simp add: nova_get_inode_def memcpy_mcsafe_def list_all_iff)
  then show ?thesis
    using assms(1) valid
    by (auto simp: nova_append_inode_journal_def inode_words_def nova_journal_inode_tail_def
        split: prod.splits)
qed

lemma append_dentry_words:
  assumes "8 dvd e"
  shows "nova_append_dentry_journal E c e P = append_words E [e + 16, e + 8] (P, c)"
proof -
  have "(e + 12) mod 8 = 4" using assms by (auto elim!: dvdE)
  then have "nova_append_entry_journal E c' (e + 12) P' = nova_append_entry_journal E c' (e + 8) P'" for c' P'
    using append_entry_align [of E c' "e + 12" P'] by (simp add: add.commute)
  then show ?thesis by (auto simp: nova_append_dentry_journal_def split: prod.splits)
qed

lemma journal_start_ok:
  assumes "tx_setting n cpu h fs P"
  shows "journal_start n cpu P = Inr (pair_of cpu, h)"
proof -
  have "cpu < n" "get_field journal_ptr_pair J_head (pair_of cpu) P = h" "pair_empty cpu P" "0 < h"
    using assms by (auto simp: tx_setting_def)
  then show ?thesis by (simp add: journal_start_def get_pointers pair_empty_def)
qed

lemma rename_as_words:
  assumes "\<not> metadata_csum E" "\<And>tr x. media_ok E tr x"
    and "\<forall>i \<in> {old_inode, old_dir} \<union> set_option new_inode \<union> set_option new_dir. 8 dvd pi_addr i"
    and "\<forall>e \<in> set_option father_entry. 8 dvd e"
    and "journal_start n cpu P = Inr (pair, h)"
  shows "nova_create_rename_transaction E n old_inode old_dir new_inode new_dir father_entry invalidate cpu P =
    Inr (journal_publish E pair (append_words E
      (rename_words old_inode old_dir new_inode new_dir father_entry invalidate) (P, h)))"
proof -
  note inode = append_inode_words [OF assms(1,2)]
  show ?thesis
    using assms(3-5)
    by (cases new_inode; cases new_dir; cases father_entry)
      (simp_all add: nova_create_rename_transaction_def rename_words_def inode append_dentry_words
        append_words_append case_prod_unfold del: append_words.simps)
qed

end
