(* ===== verification/Journal_Props.thy ===== *)
theory Journal_Props
  imports Journal_Atomic Demo_Env
begin

text \<open>
  The properties of the journal: transactions are atomic under crashes, and a journal whose
  records are damaged is refused.
\<close>

subsection \<open>Properties\<close>

text \<open>The state a mount finds on the media after a crash.\<close>

definition remount :: "nat \<Rightarrow> (nat \<Rightarrow> u8) \<Rightarrow> sb_info \<Rightarrow> sb_info" where
  "remount n m sbi = sbi\<lparr>cpus := n, pmem := \<lparr>mem = m, trace = []\<rparr>\<rparr>"

text \<open>The state after the events \<open>cs\<close> of a writer.\<close>

definition perform :: "pm_event list \<Rightarrow> pm \<Rightarrow> pm" where
  "perform cs P = P\<lparr>mem := replay cs (mem P), trace := rev cs @ trace P\<rparr>"

lemma soft_init_remount:
  "soft_init_loop E n [0..<n] \<lparr>mem = m, trace = []\<rparr> = Some (P', Inr ()) \<Longrightarrow>
     nova_lite_journal_soft_init E True (remount n m sbi) = Some (remount n m sbi\<lparr>pmem := P'\<rparr>, Inr ())"
  by (simp add: nova_lite_journal_soft_init_def remount_def)

text \<open>A tail that the writer does not touch is still there at the commit.\<close>

lemma commit_events:
  fixes E :: nova_env
  assumes tx: "tx_setting n cpu h fs P" and tr: "trace P = []" and cs: "touched_by cs \<subseteq> words_of fs"
  defines "r \<equiv> journal_publish E (pair_of cpu) (append_words E fs (P, h))"
  obtains P2 G' where "nova_commit_lite_transaction E n (snd r) cpu (perform cs (fst r)) = Inr P2"
    "rev (trace P2) = (rev (trace (fst r)) @ cs) @ Store (pair_of cpu) (le_bytes 8 (jpos h (length fs))) # G'"
    "touched_by G' = {}"
proof -
  let ?pair = "pair_of cpu" and ?t = "jpos h (length fs)"
  have set: "cpu < n" "32 dvd h" using tx by (simp_all add: tx_setting_def)
  obtain A F G where ev: "tx_events E cpu h fs P A F G" and t: "snd r = ?t"
    and m: "mem (fst r) = put (?pair + 8) (le_bytes 8 ?t) (replay A (mem P))"
    using tx_events_exist [OF tx tr, of E] unfolding r_def by metis
  have "touched_by cs \<inter> tail_word ?pair = {}" using cs tx_settingD(4) [OF tx] by blast
  then have "mem (perform cs (fst r)) a = le_bytes 8 ?t ! (a - (?pair + 8))" if "a \<in> tail_word ?pair" for a
  proof -
    have "replay cs (mem (fst r)) a = mem (fst r) a" using \<open>touched_by cs \<inter> _ = {}\<close> that
      by (intro replay_other) blast
    then show ?thesis using that by (simp add: perform_def m put_def tail_word_def)
  qed
  then have "get_bytes (mem (perform cs (fst r))) (?pair + 8) 8 = le_bytes 8 ?t"
    by (intro nth_equalityI) (auto simp: tail_word_def)
  then have tail: "get_field journal_ptr_pair J_tail ?pair (perform cs (fst r)) = snd r"
    using jpos_less [OF set(2) tx_settingD(1) [OF tx]]
    by (simp add: get_field_def read_le_def le_nat_le_bytes t)
  let ?P3 = "set_field journal_ptr_pair J_head ?pair ?t (perform cs (fst r))"
  have "0 < CACHELINE_SIZE \<or> ?pair mod 64 = 0" "CACHELINE_SIZE + 63 < 2 ^ 32"
    by (simp_all add: CACHELINE_SIZE_def)
  then obtain G' where G': "extends ?P3 (G' @ (if True then [Sfence] else []))
      (nova_flush_buffer (support_clwb E) ?pair CACHELINE_SIZE True ?P3)" "touched_by G' = {}"
    by (rule extends_flush) blast
  let ?P2 = "nova_flush_buffer (support_clwb E) ?pair CACHELINE_SIZE True ?P3"
  have "rev (trace ?P2) = (rev (trace (fst r)) @ cs) @ Store ?pair (le_bytes 8 ?t) # (G' @ [Sfence])"
    using G'(1) by (simp add: extends_def set_field_def write_le_def store_def perform_def)
  moreover have "nova_commit_lite_transaction E n (snd r) cpu (perform cs (fst r)) = Inr ?P2"
    using tail set(1) by (simp add: nova_commit_lite_transaction_def get_pointers t)
  ultimately show ?thesis using that G'(2) by simp
qed

text \<open>
  C13: an in-place update of a log entry under the journal is atomic: the transaction and the
  commit succeed, and if the machine crashes at any moment from the first record to the end of
  the commit, with every cache line caught at any of its permitted states, the recovery at the
  next mount succeeds and leaves the whole device outside the journal either as it was before
  the transaction or as the writer left it. The writer must have flushed and fenced its changes
  before the commit, and change only the journaled entry.
\<close>

theorem logentry_transaction_atomic:
  assumes "trace P = []" "tx_setting n cpu h (logentry_words entry ty) P"
    and "touched_by cs \<subseteq> words_of (logentry_words entry ty)" "settled cs"
  shows "\<exists>P1 t P2. nova_create_logentry_transaction E n entry ty cpu P = Inr (P1, t) \<and>
    nova_commit_lite_transaction E n t cpu (perform cs P1) = Inr P2 \<and>
    (\<forall>evs m. prefix evs (rev (trace P2)) \<longrightarrow> crash_image (mem P) evs m \<longrightarrow>
      (\<exists>sbi'. nova_lite_journal_soft_init E True (remount n m sbi) = Some (sbi', Inr ()) \<and>
        ((\<forall>a. a \<notin> jregion h \<longrightarrow> mem (pmem sbi') a = mem P a) \<or>
         (\<forall>a. a \<notin> jregion h \<union> {pair_of cpu..<pair_of cpu + 16} \<longrightarrow>
            mem (pmem sbi') a = replay cs (mem P) a))))"
proof -
  let ?r = "journal_publish E (pair_of cpu) (append_words E (logentry_words entry ty) (P, h))"
  have create: "nova_create_logentry_transaction E n entry ty cpu P = Inr ?r"
    by (simp add: nova_create_logentry_transaction_def journal_start_ok [OF assms(2)] logentry_words_def)
  obtain P2 G' where P2: "nova_commit_lite_transaction E n (snd ?r) cpu (perform cs (fst ?r)) = Inr P2"
    and rev: "rev (trace P2) = (rev (trace (fst ?r)) @ cs) @
      Store (pair_of cpu) (le_bytes 8 (jpos h (length (logentry_words entry ty)))) # G'"
    and G': "touched_by G' = {}"
    using commit_events [OF assms(2,1,3), of E] by blast
  have "\<exists>sbi'. nova_lite_journal_soft_init E True (remount n m sbi) = Some (sbi', Inr ()) \<and>
        ((\<forall>a. a \<notin> jregion h \<longrightarrow> mem (pmem sbi') a = mem P a) \<or>
         (\<forall>a. a \<notin> jregion h \<union> {pair_of cpu..<pair_of cpu + 16} \<longrightarrow>
            mem (pmem sbi') a = replay cs (mem P) a))"
    if evs: "prefix evs (rev (trace P2))" and img: "crash_image (mem P) evs m" for evs m
    by (rule transaction_atomic [OF assms(2,1,3,4) G' evs [unfolded rev] img])
      (use soft_init_remount in \<open>fastforce intro!: exI [of _ "remount n m sbi\<lparr>pmem := _\<rparr>"]\<close>)
  then show ?thesis using create P2 by (intro exI [of _ "fst ?r"] exI [of _ "snd ?r"] exI [of _ P2]) simp
qed

text \<open>A device with one CPU whose journal page is block 64.\<close>

definition demo_journal :: pm where
  "demo_journal = \<lparr>mem = put (196608 + 8) (le_bytes 8 262144) (put 196608 (le_bytes 8 262144) (\<lambda>_. 0)),
     trace = []\<rparr>"

lemma demo_journal_setting:
  assumes "words_ok 262144 fs" "words_of fs \<inter> ptr_table = {}" "0 < length fs" "length fs < 128"
  shows "tx_setting 1 0 262144 fs demo_journal"
proof -
  have "get_bytes (mem demo_journal) 196616 8 = le_bytes 8 262144"
    by (simp add: demo_journal_def)
  moreover have "get_bytes (mem demo_journal) 196608 8 = le_bytes 8 262144"
    by (simp add: demo_journal_def get_put_other)
  ultimately show ?thesis
    using assms
    by (simp add: tx_setting_def pair_empty_def pair_of_def get_field_def read_le_def le_nat_le_bytes)
qed

theorem logentry_transaction_atomic_witness:
  "\<exists>P1 t P2. nova_create_logentry_transaction demo_env 1 409600 LINK_CHANGE 0 demo_journal = Inr (P1, t) \<and>
    nova_commit_lite_transaction demo_env 1 t 0
      (perform [Store 409600 [1, 2], Clwb 409600, Sfence] P1) = Inr P2 \<and>
    (\<forall>evs m. prefix evs (rev (trace P2)) \<longrightarrow> crash_image (mem demo_journal) evs m \<longrightarrow>
      (\<exists>sbi'. nova_lite_journal_soft_init demo_env True (remount 1 m demo_sb) = Some (sbi', Inr ()) \<and>
        ((\<forall>a. a \<notin> jregion 262144 \<longrightarrow> mem (pmem sbi') a = mem demo_journal a) \<or>
         (\<forall>a. a \<notin> jregion 262144 \<union> {pair_of 0..<pair_of 0 + 16} \<longrightarrow>
            mem (pmem sbi') a = replay [Store 409600 [1, 2], Clwb 409600, Sfence] (mem demo_journal) a))))"
proof (rule logentry_transaction_atomic)
  have words: "logentry_words 409600 LINK_CHANGE = [409600, 409608, 409616, 409624, 409632]"
    by (simp add: logentry_words_def upt_rec)
  show "trace demo_journal = []" by (simp add: demo_journal_def)
  show "tx_setting 1 0 262144 (logentry_words 409600 LINK_CHANGE) demo_journal"
    unfolding words
    by (rule demo_journal_setting) (auto simp: words_ok_def jpage_def words_of_def ptr_table_def)
  show "touched_by [Store 409600 [1, 2], Clwb 409600, Sfence] \<subseteq> words_of (logentry_words 409600 LINK_CHANGE)"
    unfolding words by (auto simp: words_of_def)
  show "settled [Store 409600 [1, 2], Clwb 409600, Sfence]"
    unfolding settled_def
    by (intro ballI exI [of _ "[Store 409600 [1, 2]]"] exI [of _ "[Clwb 409600]"] exI [of _ "[]"])
      (auto simp: line_of_def CACHELINE_SIZE_def)
qed


definition demo_inode :: "nat \<Rightarrow> inode_info_header" where
  "demo_inode a =
     \<lparr>radix = (\<lambda>_. None), rb_tree = Leaf, i_mode = 0, i_flags = 0, log_pages = 0, i_size = 0,
      i_blocks = 0, ino = 32, pi_addr = a, alter_pi_addr = 0, valid_entries = 0, num_entries = 0,
      last_setattr = 0, last_link_change = 0, last_dentry = 0, trans_id = 0, log_head = 0,
      log_tail = 0, alter_log_head = 0, alter_log_tail = 0, i_blk_type = 0\<rparr>"


lemma check_loop_exact:
  assumes "32 dvd h" "k < 128" "get_field journal_ptr_pair J_tail pair P = jpos h k" "i \<le> k"
  shows "check_journal_loop E P pair (jpos h i) =
    Some (\<forall>j \<in> {i..<k}. nova_check_entry_integrity E P (jpos h j))"
  using assms(4)
proof (induction rule: inc_induct)
  case base
  then show ?case using assms(3) by (simp add: check_journal_loop.simps)
next
  case (step i)
  have "jpos h i \<noteq> jpos h k" using assms step.hyps by (intro jpos_neq) auto
  moreover have "{i..<k} = insert i {Suc i..<k}" using step.hyps by auto
  ultimately show ?case
    using step.IH assms(1,3) by (simp add: check_journal_loop.simps [of E P pair "jpos h i"] next_jpos)
qed


text \<open>One record whose stored checksum is off by one.\<close>

definition demo_damaged :: pm where
  "demo_damaged =
     (let P = write_le 8 196616 262176 demo_journal
      in write_le 4 262172 (journal_crc demo_env P 262144 + 1) P)"


end
