(* ===== verification/Log_Pages.thy ===== *)
theory Log_Pages
  imports Nova_Layout
begin

text \<open>
  The pages of an inode log, the inline functions of \<^verbatim>\<open>nova.h\<close>: every 4 KB page ends with a tail
  of 32 bytes that links it to the next page and to its replica and counts its entries.
\<close>

subsection \<open>Following the links\<close>

text \<open>
  When the tail cannot be read, the functions return the error code of \<^verbatim>\<open>memcpy_mcsafe\<close> as an
  address; it is a negative number seen as 64 bits.
\<close>

definition mcsafe_addr :: "nova_env \<Rightarrow> nat" where
  "mcsafe_addr E = u64_sub 0 (mcsafe_rc E)"

definition next_log_page :: "nova_env \<Rightarrow> pm \<Rightarrow> nat \<Rightarrow> nat" where
  "next_log_page E P cur =
     (case memcpy_mcsafe E P (PAGE_TAIL cur + packed_off nova_inode_page_tail T_next_page) 8 of
        None \<Rightarrow> mcsafe_addr E
      | Some bs \<Rightarrow> le_nat bs)"

definition alter_log_page :: "nova_env \<Rightarrow> pm \<Rightarrow> nat \<Rightarrow> nat" where
  "alter_log_page E P cur =
     (if \<not> metadata_csum E then 0
      else case memcpy_mcsafe E P (PAGE_TAIL cur + packed_off nova_inode_page_tail T_alter_page) 8 of
             None \<Rightarrow> mcsafe_addr E
           | Some bs \<Rightarrow> le_nat bs)"

definition alter_log_entry :: "nova_env \<Rightarrow> pm \<Rightarrow> nat \<Rightarrow> nat" where
  "alter_log_entry E P curr_p =
     (if \<not> metadata_csum E then 0
      else u64_add (get_field nova_inode_page_tail T_alter_page (PAGE_TAIL curr_p) P)
             (ENTRY_LOC curr_p))"

subsection \<open>Updating a page\<close>

definition flush_page_tail :: "nova_env \<Rightarrow> nat \<Rightarrow> pm \<Rightarrow> pm" where
  "flush_page_tail E page P =
     nova_flush_buffer (support_clwb E) (page + LOG_BLOCK_TAIL) (packed_size nova_inode_page_tail) False P"

definition nova_set_next_page_flag :: "nova_env \<Rightarrow> nat \<Rightarrow> pm \<Rightarrow> pm" where
  "nova_set_next_page_flag E curr_p P =
     (if LOG_BLOCK_TAIL \<le> ENTRY_LOC curr_p then P
      else nova_flush_buffer (support_clwb E) curr_p CACHELINE_SIZE True
             (nova_set_entry_type curr_p NEXT_PAGE P))"

definition nova_set_next_page_address :: "nova_env \<Rightarrow> nat \<Rightarrow> nat \<Rightarrow> bool \<Rightarrow> pm \<Rightarrow> pm" where
  "nova_set_next_page_address E curr_page next_page fence P =
     (let P = flush_page_tail E curr_page
                (set_field nova_inode_page_tail T_next_page (curr_page + LOG_BLOCK_TAIL) next_page P)
      in if fence then PERSISTENT_BARRIER P else P)"

definition nova_set_page_num_entries :: "nova_env \<Rightarrow> nat \<Rightarrow> nat \<Rightarrow> bool \<Rightarrow> pm \<Rightarrow> pm" where
  "nova_set_page_num_entries E curr_page num flush P =
     (let P = set_field nova_inode_page_tail T_num_entries (curr_page + LOG_BLOCK_TAIL) num P
      in if flush then flush_page_tail E curr_page P else P)"

definition nova_set_page_invalid_entries :: "nova_env \<Rightarrow> nat \<Rightarrow> nat \<Rightarrow> bool \<Rightarrow> pm \<Rightarrow> pm" where
  "nova_set_page_invalid_entries E curr_page num flush P =
     (let P = set_field nova_inode_page_tail T_invalid_entries (curr_page + LOG_BLOCK_TAIL) num P
      in if flush then flush_page_tail E curr_page P else P)"

definition nova_inc_page_num_entries :: "nova_env \<Rightarrow> nat \<Rightarrow> pm \<Rightarrow> pm" where
  "nova_inc_page_num_entries E cur P =
     flush_page_tail E (BLOCK_OFF cur)
       (set_field nova_inode_page_tail T_num_entries (PAGE_TAIL cur)
          (u32_trunc (get_field nova_inode_page_tail T_num_entries (PAGE_TAIL cur) P + 1)) P)"

text \<open>The comparison with the number of entries only prints a warning.\<close>

definition nova_inc_page_invalid_entries :: "nova_env \<Rightarrow> nat \<Rightarrow> pm \<Rightarrow> pm" where
  "nova_inc_page_invalid_entries E cur P =
     flush_page_tail E (BLOCK_OFF cur)
       (set_field nova_inode_page_tail T_invalid_entries (PAGE_TAIL cur)
          (u32_trunc (get_field nova_inode_page_tail T_invalid_entries (PAGE_TAIL cur) P + 1)) P)"

definition nova_set_alter_page_address :: "nova_env \<Rightarrow> nat \<Rightarrow> nat \<Rightarrow> pm \<Rightarrow> pm" where
  "nova_set_alter_page_address E cur alter_curr P =
     (if \<not> metadata_csum E then P
      else
        let P = flush_page_tail E (BLOCK_OFF cur)
                  (set_field nova_inode_page_tail T_alter_page (PAGE_TAIL cur) alter_curr P)
        in flush_page_tail E (BLOCK_OFF alter_curr)
             (set_field nova_inode_page_tail T_alter_page (PAGE_TAIL alter_curr) cur P))"

subsection \<open>Positions\<close>

definition is_last_entry :: "nat \<Rightarrow> nat \<Rightarrow> bool" where
  "is_last_entry curr_p sz \<longleftrightarrow> LOG_BLOCK_TAIL < u32_trunc (ENTRY_LOC curr_p + sz)"

definition goto_next_page :: "nova_env \<Rightarrow> pm \<Rightarrow> nat \<Rightarrow> bool" where
  "goto_next_page E P curr_p =
     (if LOG_BLOCK_TAIL < ENTRY_LOC curr_p + 32 then True
      else case memcpy_mcsafe E P curr_p 1 of
             None \<Rightarrow> True
           | Some bs \<Rightarrow> le_nat bs = entry_type_code NEXT_PAGE)"

subsection \<open>Lemmas\<close>

lemma mem_flush_page_tail [simp]: "mem (flush_page_tail E page P) = mem P"
  by (simp add: flush_page_tail_def)

lemma block_off_mod: "BLOCK_OFF a = a - a mod 4096" "ENTRY_LOC a = a mod 4096"
  by (simp_all add: BLOCK_OFF_def ENTRY_LOC_def)

lemma page_tail_eq: "PAGE_TAIL a = a - a mod 4096 + 4064"
  by (simp add: PAGE_TAIL_def block_off_mod LOG_BLOCK_TAIL_def)

lemma block_off_aligned [simp]: "a mod 4096 = 0 \<Longrightarrow> BLOCK_OFF a = a"
  by (simp add: block_off_mod)

end
