(* ===== verification/Checksum.thy ===== *)
theory Checksum
  imports Log_Pages
begin

text \<open>
  Metadata checksums and replicas, \<^verbatim>\<open>checksum.c\<close>: the checksum of a log entry, verification of a
  log entry and of an inode against their replicas, and their repair. A copy in memory is a list
  of bytes; using memory that was never initialized, reading past a buffer and \<^verbatim>\<open>BUG()\<close> are the
  error \<open>EOOPS\<close>. A copy from the memory of the kernel does not fail.
\<close>

definition NOVA_INIT_CSUM :: u32 where "NOVA_INIT_CSUM = 1"
definition NOVA_META_CSUM_LEN :: nat where "NOVA_META_CSUM_LEN = 4"
definition POISON_RADIUS :: nat where "POISON_RADIUS = 512"
definition NOVA_MAX_ENTRY_LEN :: nat where "NOVA_MAX_ENTRY_LEN = NOVA_DIR_LOG_REC_LEN 255"

text \<open>The type byte of an entry; None for the types that have no checksum.\<close>

definition entry_type_of :: "nat \<Rightarrow> entry_type option" where
  "entry_type_of n =
     (if n = 1 then Some FILE_WRITE else if n = 2 then Some DIR_LOG else if n = 3 then Some SET_ATTR
      else if n = 4 then Some LINK_CHANGE else if n = 5 then Some MMAP_WRITE
      else if n = 6 then Some SNAPSHOT_INFO else None)"

text \<open>Where the checksum field of an entry is.\<close>

fun csum_offset :: "entry_type \<Rightarrow> nat" where
  "csum_offset FILE_WRITE = packed_off nova_file_write_entry W_csum"
| "csum_offset DIR_LOG = packed_off nova_dentry D_csum"
| "csum_offset SET_ATTR = packed_off nova_setattr_logentry S_csum"
| "csum_offset LINK_CHANGE = packed_off nova_link_change_entry L_csum"
| "csum_offset MMAP_WRITE = packed_off nova_mmap_entry M_csum"
| "csum_offset SNAPSHOT_INFO = packed_off nova_snapshot_info_entry N_csum"
| "csum_offset NEXT_PAGE = 0"

definition csum_field :: "entry_type \<Rightarrow> u8 list \<Rightarrow> nat" where
  "csum_field t bs = le_nat (take 4 (drop (csum_offset t) bs))"

subsection \<open>Copying an entry\<close>

text \<open>
  The result is the checksum field, the size and the copy. A directory entry longer than the
  buffer leaves the checksum and the size unset although the function reports success.
\<close>

definition nova_get_entry_copy :: "nova_env \<Rightarrow> pm \<Rightarrow> nat \<Rightarrow> (nat \<times> nat \<times> u8 list) res" where
  "nova_get_entry_copy E P entry =
     (case memcpy_mcsafe E P entry 1 of
        None \<Rightarrow> Inl EIO
      | Some tb \<Rightarrow>
          (case entry_type_of (le_nat tb) of
             None \<Rightarrow> Inl EINVAL
           | Some DIR_LOG \<Rightarrow>
               (case memcpy_mcsafe E P entry NOVA_DENTRY_HEADER_LEN of
                  None \<Rightarrow> Inl EIO
                | Some hdr \<Rightarrow>
                    let de_len = field_of nova_dentry D_de_len hdr in
                    if NOVA_MAX_ENTRY_LEN < de_len then Inl EOOPS
                    else if de_len < NOVA_DENTRY_HEADER_LEN then Inl EOOPS
                    else (case memcpy_mcsafe E P (entry + NOVA_DENTRY_HEADER_LEN)
                                 (de_len - NOVA_DENTRY_HEADER_LEN) of
                            None \<Rightarrow> Inl EIO
                          | Some name \<Rightarrow>
                              Inr (csum_field DIR_LOG hdr, de_len, hdr @ name)))
           | Some t \<Rightarrow>
               (case memcpy_mcsafe E P entry (nova_get_log_entry_size t) of
                  None \<Rightarrow> Inl EIO
                | Some bs \<Rightarrow> Inr (csum_field t bs, nova_get_log_entry_size t, bs))))"

subsection \<open>The checksum of an entry\<close>

text \<open>
  The checksum of a copy: the bytes before the checksum field, then those behind it. An entry of
  an unknown type has checksum 0. The length of a directory entry is read from the entry.
\<close>

definition entry_len_of :: "entry_type \<Rightarrow> u8 list \<Rightarrow> nat" where
  "entry_len_of t bs =
     (if t = DIR_LOG then field_of nova_dentry D_de_len bs else nova_get_log_entry_size t)"

definition nova_calc_entry_csum :: "nova_env \<Rightarrow> u8 list \<Rightarrow> nat" where
  "nova_calc_entry_csum E bs =
     (case entry_type_of (le_nat (take 1 bs)) of
        None \<Rightarrow> 0
      | Some t \<Rightarrow>
          let entry_len = entry_len_of t bs in
          if 0 < entry_len then
            (let check_len = csum_offset t;
                 csum = env_crc E NOVA_INIT_CSUM (take check_len bs);
                 rest_len = entry_len - (check_len + NOVA_META_CSUM_LEN);
                 csum = (if 0 < rest_len
                         then env_crc E csum
                                (take rest_len (drop (check_len + NOVA_META_CSUM_LEN) bs))
                         else csum)
             in unat csum)
          else 0)"

text \<open>
  On the entry in persistent memory the bytes are those up to its length; the type is read
  safely, the rest directly.
\<close>

definition entry_bytes_at :: "pm \<Rightarrow> nat \<Rightarrow> u8 list" where
  "entry_bytes_at P entry =
     get_bytes (mem P) entry
       (case entry_type_of (read_le 1 P entry) of
          None \<Rightarrow> 1
        | Some t \<Rightarrow>
            if t = DIR_LOG then max NOVA_DENTRY_HEADER_LEN (get_field nova_dentry D_de_len entry P)
            else nova_get_log_entry_size t)"

definition nova_update_entry_csum :: "nova_env \<Rightarrow> nat \<Rightarrow> pm \<Rightarrow> pm" where
  "nova_update_entry_csum E entry P =
     (if \<not> metadata_csum E
      then nova_flush_buffer (support_clwb E) entry CACHELINE_SIZE True P
      else case entry_type_of (nova_get_entry_type E P entry) of
             None \<Rightarrow> P
           | Some t \<Rightarrow>
               let bs = entry_bytes_at P entry;
                   csum = nova_calc_entry_csum E bs;
                   entry_len = entry_len_of t bs;
                   P = write_le 4 (entry + csum_offset t) csum P
               in if 0 < entry_len
                  then nova_flush_buffer (support_clwb E) entry entry_len True P else P)"

definition nova_update_alter_entry :: "nova_env \<Rightarrow> nat \<Rightarrow> pm \<Rightarrow> pm \<times> unit res" where
  "nova_update_alter_entry E entry P =
     (if \<not> metadata_csum E then (P, Inr ())
      else
        let alter_curr = alter_log_entry E P entry in
        if alter_curr = 0 then (P, Inl EIO)
        else case nova_get_entry_copy E P entry of
               Inl e \<Rightarrow> (P, Inl e)
             | Inr (csum, sz, entry_copy) \<Rightarrow>
                 (memcpy_to_pmem_nocache alter_curr (take sz entry_copy) P, Inr ()))"

subsection \<open>Repairing an entry\<close>

text \<open>
  A copy between two places of persistent memory stops at the first byte that cannot be read.
\<close>

definition mcsafe_copy :: "nova_env \<Rightarrow> nat \<Rightarrow> nat \<Rightarrow> nat \<Rightarrow> pm \<Rightarrow> pm \<times> bool" where
  "mcsafe_copy E dst src n P =
     (let k = length (takeWhile (media_ok E (trace P)) [src..<src + n])
      in (store dst (get_bytes (mem P) src k) P, k = n))"

definition poison_block :: "nat \<Rightarrow> nat" where
  "poison_block a = a - (a AND (POISON_RADIUS - 1))"

definition copy_pr :: "nova_env \<Rightarrow> nat \<Rightarrow> nat \<Rightarrow> pm \<Rightarrow> pm \<times> bool" where
  "copy_pr E bad_pr good_pr P =
     (let (P, ok) = mcsafe_copy E bad_pr good_pr POISON_RADIUS P
      in (nova_flush_buffer (support_clwb E) bad_pr POISON_RADIUS False P, ok))"

definition nova_repair_entry_pr :: "nova_env \<Rightarrow> nat \<Rightarrow> pm \<Rightarrow> (pm \<times> bool) res" where
  "nova_repair_entry_pr E entry P =
     (let alter_off = alter_log_entry E P entry in
      if alter_off = 0 then Inr (P, False)
      else if poison_block entry = 0 \<or> poison_block alter_off = 0 then Inl EOOPS
      else Inr (copy_pr E (poison_block entry) (poison_block alter_off) P))"

definition nova_repair_entry :: "nat \<Rightarrow> u8 list \<Rightarrow> nat \<Rightarrow> pm \<Rightarrow> pm" where
  "nova_repair_entry bad good entry_size P = memcpy_to_pmem_nocache bad (take entry_size good) P"

text \<open>
  A copy with one attempt at a repair. The result is None when the entry is lost.
\<close>

definition copy_or_repair_entry ::
    "nova_env \<Rightarrow> nat \<Rightarrow> pm \<Rightarrow> (pm \<times> (nat \<times> nat \<times> u8 list) option) res" where
  "copy_or_repair_entry E entry P =
     (case nova_get_entry_copy E P entry of
        Inr c \<Rightarrow> Inr (P, Some c)
      | Inl EOOPS \<Rightarrow> Inl EOOPS
      | Inl e \<Rightarrow>
          (case nova_repair_entry_pr E entry P of
             Inl e \<Rightarrow> Inl e
           | Inr (P, False) \<Rightarrow> Inr (P, None)
           | Inr (P, True) \<Rightarrow>
               (case nova_get_entry_copy E P entry of
                  Inr c \<Rightarrow> Inr (P, Some c)
                | Inl EOOPS \<Rightarrow> Inl EOOPS
                | Inl e \<Rightarrow> Inr (P, None))))"

text \<open>
  The verification returns whether the entry is good and, with checksums on, its copy.
\<close>

definition compare_entries ::
    "nova_env \<Rightarrow> nat \<Rightarrow> nat \<Rightarrow> nat \<times> nat \<times> u8 list \<Rightarrow> nat \<times> nat \<times> u8 list \<Rightarrow> pm
     \<Rightarrow> pm \<times> u8 list option" where
  "compare_entries E entry alter = (\<lambda>(entry_csum, entry_size, entry_copy)
       (alter_csum, alter_size, alter_copy) P.
     (let entry_bad = (entry_csum \<noteq> nova_calc_entry_csum E entry_copy);
          alter_bad = (alter_csum \<noteq> nova_calc_entry_csum E alter_copy) in
      if entry_bad \<and> alter_bad then (P, None)
      else if entry_bad then
        (nova_repair_entry entry alter_copy alter_size P, Some (take alter_size alter_copy))
      else if alter_bad then
        (nova_repair_entry alter entry_copy entry_size P, Some (take entry_size entry_copy))
      else
        (if take entry_size entry_copy \<noteq> take entry_size alter_copy
         then nova_repair_entry alter entry_copy entry_size P else P,
         Some (take entry_size entry_copy))))"

definition nova_verify_entry_csum ::
    "nova_env \<Rightarrow> nat \<Rightarrow> pm \<Rightarrow> (pm \<times> bool \<times> u8 list option) res" where
  "nova_verify_entry_csum E entry P =
     (if \<not> metadata_csum E then Inr (P, True, None)
      else case copy_or_repair_entry E entry P of
        Inl e \<Rightarrow> Inl e
      | Inr (P, None) \<Rightarrow> Inr (P, False, None)
      | Inr (P, Some c) \<Rightarrow>
          let alter = alter_log_entry E P entry in
          if alter = 0 then Inr (P, False, None)
          else case copy_or_repair_entry E alter P of
                 Inl e \<Rightarrow> Inl e
               | Inr (P, None) \<Rightarrow> Inr (P, False, None)
               | Inr (P, Some c') \<Rightarrow>
                   (case compare_entries E entry alter c c' P of
                      (P, None) \<Rightarrow> Inr (P, False, None)
                    | (P, Some bs) \<Rightarrow> Inr (P, True, Some bs)))"

subsection \<open>Inodes\<close>

definition nova_repair_inode_pr :: "nova_env \<Rightarrow> nat \<Rightarrow> nat \<Rightarrow> pm \<Rightarrow> (pm \<times> bool) res" where
  "nova_repair_inode_pr E bad_pi good_pi P =
     (if bad_pi = 0 \<or> good_pi = 0 then Inl EOOPS
      else Inr (copy_pr E (poison_block bad_pi) (poison_block good_pi) P))"

definition nova_repair_inode :: "nat \<Rightarrow> u8 list \<Rightarrow> pm \<Rightarrow> pm" where
  "nova_repair_inode bad_pi good_copy P = memcpy_to_pmem_nocache bad_pi (take sizeof_nova_inode good_copy) P"

text \<open>Reading an inode with one attempt at a repair from the other copy.\<close>

definition copy_or_repair_inode ::
    "nova_env \<Rightarrow> nat \<Rightarrow> nat \<Rightarrow> bool \<Rightarrow> pm \<Rightarrow> (pm \<times> u8 list option) res" where
  "copy_or_repair_inode E pi other repairable P =
     (case memcpy_mcsafe E P pi sizeof_nova_inode of
        Some pic \<Rightarrow> Inr (P, Some pic)
      | None \<Rightarrow>
          if \<not> repairable then Inr (P, None)
          else case nova_repair_inode_pr E pi other P of
                 Inl e \<Rightarrow> Inl e
               | Inr (P, False) \<Rightarrow> Inr (P, None)
               | Inr (P, True) \<Rightarrow> Inr (P, memcpy_mcsafe E P pi sizeof_nova_inode))"

definition compare_inodes :: "nova_env \<Rightarrow> nat \<Rightarrow> nat \<Rightarrow> u8 list \<Rightarrow> u8 list \<Rightarrow> pm \<Rightarrow> pm \<times> u8 list res" where
  "compare_inodes E pi alter_pi pic alter_pic P =
     (let inode_bad = \<not> nova_check_inode_checksum E pic;
          alter_bad = \<not> nova_check_inode_checksum E alter_pic in
      if inode_bad \<and> alter_bad then (P, Inl EIO)
      else if inode_bad then (nova_repair_inode pi alter_pic P, Inr alter_pic)
      else if alter_bad then (nova_repair_inode alter_pi pic P, Inr pic)
      else if pic \<noteq> alter_pic then (nova_repair_inode alter_pi pic P, Inr pic)
      else (P, Inr pic))"

text \<open>Without checksums the error of the copy is returned as it is.\<close>

definition nova_check_inode_integrity ::
    "nova_env \<Rightarrow> nat \<Rightarrow> nat \<Rightarrow> bool \<Rightarrow> pm \<Rightarrow> pm \<times> u8 list res" where
  "nova_check_inode_integrity E pi alter_pi check_replica P =
     (if \<not> metadata_csum E then
        (P, case memcpy_mcsafe E P pi sizeof_nova_inode of None \<Rightarrow> Inl EFAULT | Some pic \<Rightarrow> Inr pic)
      else case copy_or_repair_inode E pi alter_pi True P of
        Inl e \<Rightarrow> (P, Inl e)
      | Inr (P, None) \<Rightarrow> (P, Inl EIO)
      | Inr (P, Some pic) \<Rightarrow>
          let inode_bad = \<not> nova_check_inode_checksum E pic in
          if \<not> inode_bad \<and> \<not> check_replica then (P, Inr pic)
          else case copy_or_repair_inode E alter_pi pi (\<not> inode_bad) P of
                 Inl e \<Rightarrow> (P, Inl e)
               | Inr (P, None) \<Rightarrow> (P, Inl EIO)
               | Inr (P, Some alter_pic) \<Rightarrow> compare_inodes E pi alter_pi pic alter_pic P)"

end
