(* ===== verification/Mirror.thy ===== *)
theory Mirror
  imports Main
begin

text \<open>
  The contract of a pair of copies of which each is protected by a checksum: \<open>check\<close> looks at
  both, repairs what it can, and returns the content. \<open>primary\<close> and \<open>replica\<close> are what can be
  read of the copies.
\<close>

locale mirror =
  fixes inv :: "'s \<Rightarrow> bool" and check :: "'s \<Rightarrow> 's \<times> 'c option"
    and primary :: "'s \<Rightarrow> 'c option" and replica :: "'s \<Rightarrow> 'c option" and valid :: "'s \<Rightarrow> 'c \<Rightarrow> bool"
  assumes check_inv: "inv s \<Longrightarrow> check s = (s', Some c) \<Longrightarrow> inv s' \<and> valid s' = valid s"
    and check_agrees: "inv s \<Longrightarrow> check s = (s', Some c) \<Longrightarrow>
      valid s c \<and> primary s' = Some c \<and> replica s' = Some c"
    and check_stable: "inv s \<Longrightarrow> primary s = Some c \<Longrightarrow> replica s = Some c \<Longrightarrow> valid s c \<Longrightarrow>
      check s = (s, Some c)"
    and check_primary: "inv s \<Longrightarrow> primary s = Some c \<Longrightarrow> valid s c \<Longrightarrow> \<exists>s'. check s = (s', Some c)"
    and check_replica: "inv s \<Longrightarrow> replica s = Some c \<Longrightarrow> valid s c \<Longrightarrow>
      (\<And>p. primary s = Some p \<Longrightarrow> \<not> valid s p) \<Longrightarrow> \<exists>s'. check s = (s', Some c)"
begin

lemma check_again: "inv s \<Longrightarrow> check s = (s', Some c) \<Longrightarrow> check s' = (s', Some c)"
  using check_inv check_agrees check_stable by metis

text \<open>Damage to one of the copies, of any kind that the checksum detects, does not lose the content.\<close>

lemma single_fault:
  assumes "inv s" "check s = (s', Some c)" "inv d" "valid d = valid s"
    and "primary d = Some c \<or>
         (replica d = Some c \<and> (\<forall>p. primary d = Some p \<longrightarrow> \<not> valid d p))"
  shows "\<exists>d'. check d = (d', Some c) \<and> primary d' = Some c \<and> replica d' = Some c"
proof -
  have "valid d c" using check_agrees [OF assms(1,2)] assms(4) by simp
  then obtain d' where "check d = (d', Some c)"
    using assms(3,5) check_primary check_replica by metis
  then show ?thesis using check_agrees [OF assms(3)] by metis
qed

end

end
