(* ===== verification/Checksum_Inv.thy ===== *)
theory Checksum_Inv
  imports Checksum Mirror
begin

text \<open>
  Inodes and their replicas as a \<open>mirror\<close>. What is assumed of the media: a byte that can be read
  stays readable while the file system only writes (no new errors), storing a whole block of the
  poison radius makes it readable, and errors come in such blocks.
\<close>

definition media_model :: "nova_env \<Rightarrow> bool" where
  "media_model E \<longleftrightarrow>
     (\<forall>ev tr a. media_ok E tr a \<longrightarrow> media_ok E (ev # tr) a) \<and>
     (\<forall>i bs tr x. length bs = 512 \<longrightarrow> x \<in> {512 * i..<512 * i + 512} \<longrightarrow> media_ok E (Store (512 * i) bs # tr) x) \<and>
     (\<forall>tr a b. a div 512 = b div 512 \<longrightarrow> media_ok E tr a = media_ok E tr b)"

lemma unat_u32_less: "unat (c :: u32) < 4294967296"
  using unsigned_less [of c] by simp

lemma media_step: "media_model E \<Longrightarrow> media_ok E tr a \<Longrightarrow> media_ok E (ev # tr) a"
  unfolding media_model_def by blast

lemma media_later: "media_model E \<Longrightarrow> media_ok E tr a \<Longrightarrow> media_ok E (evs @ tr) a"
  by (induction evs) (simp_all add: media_step)

lemma media_written:
  "media_model E \<Longrightarrow> length bs = 512 \<Longrightarrow> x \<in> {512 * i..<512 * i + 512} \<Longrightarrow> media_ok E (Store (512 * i) bs # tr) x"
  unfolding media_model_def by blast

lemma mcsafe_Some: "memcpy_mcsafe E P a n = Some bs \<longleftrightarrow>
    (\<forall>x \<in> {a..<a + n}. media_ok E (trace P) x) \<and> bs = get_bytes (mem P) a n"
  by (auto simp: memcpy_mcsafe_def list_all_iff)

lemma mcsafe_None: "memcpy_mcsafe E P a n = None \<longleftrightarrow> (\<exists>x \<in> {a..<a + n}. \<not> media_ok E (trace P) x)"
  by (auto simp: memcpy_mcsafe_def list_all_iff)

text \<open>A place of \<open>n\<close> bytes inside one poison block, and its mirror image in another block.\<close>

definition twin :: "nat \<Rightarrow> nat \<Rightarrow> nat \<Rightarrow> bool" where
  "twin n a b \<longleftrightarrow> 0 < a \<and> 0 < b \<and> 0 < n \<and> a mod 512 = b mod 512 \<and> a mod 512 + n \<le> 512 \<and> a div 512 \<noteq> b div 512"

lemma twin_sym: "twin n a b \<Longrightarrow> twin n b a"
  by (auto simp: twin_def)

lemma poison_block_eq [simp]: "poison_block a = 512 * (a div 512)"
  by (simp add: poison_block_def POISON_RADIUS_def minus_mod_eq_mult_div)

lemma twin_in_block:
  assumes "twin n a b"
  shows "{a..<a + n} \<subseteq> {512 * (a div 512)..<512 * (a div 512) + 512}"
proof
  fix x assume "x \<in> {a..<a + n}"
  then have "a \<le> x" "x < a + n" by simp_all
  then have "512 * (a div 512) \<le> x \<and> x < 512 * (a div 512) + 512"
    using assms mult_div_mod_eq [of 512 a] unfolding twin_def by linarith
  then show "x \<in> {512 * (a div 512)..<512 * (a div 512) + 512}" by simp
qed

lemma blocks_apart:
  "i \<noteq> j \<Longrightarrow> {512 * i..<512 * i + 512} \<inter> {512 * j..<512 * j + 512} = ({} :: nat set)"
  by (cases "i < j") auto

lemma twin_apart:
  assumes "twin n a b"
  shows "{a..<a + n} \<inter> {b..<b + n} = {}"
proof -
  have "a div 512 \<noteq> b div 512" using assms unfolding twin_def by blast
  from blocks_apart [OF this] show ?thesis
    using twin_in_block [OF assms] twin_in_block [OF twin_sym [OF assms]] by blast
qed

lemma block_readable:
  assumes "media_model E" "media_ok E tr a" "x \<in> {512 * (a div 512)..<512 * (a div 512) + 512}"
  shows "media_ok E tr x"
proof -
  have "x div 512 = a div 512" using assms(3) by (intro div_nat_eqI) auto
  then show ?thesis using assms(1,2) by (metis media_model_def)
qed

lemma repair_block:
  assumes E: "media_model E" and ab: "twin n a b" and good: "memcpy_mcsafe E P b n = Some bs"
  shows "\<exists>P'. copy_pr E (poison_block a) (poison_block b) P = (P', True) \<and>
    memcpy_mcsafe E P' a n = Some bs \<and> memcpy_mcsafe E P' b n = Some bs"
proof -
  let ?A = "512 * (a div 512)" and ?B = "512 * (b div 512)"
  let ?src = "get_bytes (mem P) ?B 512"
  have n: "0 < n" using ab by (simp add: twin_def)
  have "media_ok E (trace P) b" using good n by (auto simp: mcsafe_Some)
  then have ok: "media_ok E (trace P) x" if "x \<in> {?B..<?B + 512}" for x
    using block_readable [OF E] that by blast
  then have len: "length (takeWhile (media_ok E (trace P)) [?B..<?B + 512]) = 512"
    by (subst takeWhile_eq_all_conv [THEN iffD2]) auto
  define P1 where "P1 = store ?A ?src P"
  define P' where "P' = nova_flush_buffer (support_clwb E) ?A 512 False P1"
  have P': "copy_pr E (poison_block a) (poison_block b) P = (P', True)"
    using len by (simp add: copy_pr_def mcsafe_copy_def POISON_RADIUS_def P'_def P1_def Let_def)
  have "0 < (512 :: nat) \<or> ?A mod 64 = 0" "(512 :: nat) + 63 < 2 ^ 32" by simp_all
  then obtain evs where
    "trace P' = (if False then [Sfence] else []) @ evs @ trace P1"
    "set evs \<subseteq> range Clwb \<union> range Clflush" "flushed_lines (set evs) = line_of ` {?A..<?A + 512}"
    unfolding P'_def by (rule flush_buffer_events)
  then have tr: "trace P' = evs @ Store ?A ?src # trace P" by (simp add: P1_def store_def)
  have m: "mem P' = put ?A ?src (mem P)" by (simp add: P'_def P1_def)
  have now: "media_ok E (trace P') x" if "x \<in> {?A..<?A + 512}" for x
    unfolding tr using that by (intro media_later [OF E] media_written [OF E]) simp
  have bytes: "get_bytes (mem P') a n = get_bytes (mem P) b n"
  proof (rule nth_equalityI)
    fix i assume "i < length (get_bytes (mem P') a n)"
    then have i: "i < n" by simp
    define r where "r = a mod 512 + i"
    have "a + i = ?A + r" "b + i = ?B + r" "r < 512"
      using ab i mult_div_mod_eq [of 512 a] mult_div_mod_eq [of 512 b] unfolding twin_def r_def by linarith+
    then show "get_bytes (mem P') a n ! i = get_bytes (mem P) b n ! i"
      using i by (simp add: m put_def)
  qed simp
  have "\<forall>x \<in> {a..<a + n}. media_ok E (trace P') x" using now twin_in_block [OF ab] by blast
  then have "memcpy_mcsafe E P' a n = Some bs" using good bytes unfolding mcsafe_Some by metis
  moreover have "get_bytes (mem P') b n = get_bytes (mem P) b n"
  proof -
    have "b + n \<le> ?A \<or> ?A + 512 \<le> b"
      using ab mult_div_mod_eq [of 512 b] unfolding twin_def by linarith
    then show ?thesis unfolding m by (intro get_put_other) simp
  qed
  then have "memcpy_mcsafe E P' b n = Some bs"
    using good media_later [OF E, of "trace P" _ "evs @ [Store ?A ?src]"] unfolding mcsafe_Some tr by simp
  ultimately show ?thesis using P' by blast
qed

text \<open>Overwriting one of two twins.\<close>

lemma rewrite_twin:
  assumes E: "media_model E" and ab: "twin n a b" and b: "memcpy_mcsafe E P b n = Some bs" "length bs = n"
    and a: "memcpy_mcsafe E P a n = Some old"
  shows "memcpy_mcsafe E (memcpy_to_pmem_nocache a bs P) a n = Some bs"
    and "memcpy_mcsafe E (memcpy_to_pmem_nocache a bs P) b n = Some bs"
proof -
  have ap: "a + n \<le> b \<or> b + n \<le> a" 
  proof (rule ccontr)
    assume "\<not> ?thesis"
    then have "max a b \<in> {a..<a + n} \<inter> {b..<b + n}" using ab by (auto simp: twin_def)
    then show False using twin_apart [OF ab] by blast
  qed
  show "memcpy_mcsafe E (memcpy_to_pmem_nocache a bs P) a n = Some bs"
    using media_step [OF E] a b(2)
    by (auto simp: mcsafe_Some memcpy_to_pmem_nocache_def nt_store_def)
  have "get_bytes (put a bs (mem P)) b n = get_bytes (mem P) b n"
    using ap b(2) by (intro get_put_other) auto
  then show "memcpy_mcsafe E (memcpy_to_pmem_nocache a bs P) b n = Some bs"
    using b(1) media_step [OF E] by (auto simp: mcsafe_Some memcpy_to_pmem_nocache_def nt_store_def)
qed

subsection \<open>Inodes\<close>

definition inode_pair :: "nova_env \<times> nat \<times> nat \<times> pm \<Rightarrow> bool" where
  "inode_pair = (\<lambda>(E, pi, alter, P). metadata_csum E \<and> media_model E \<and> 512 \<le> pi \<and> 512 \<le> alter \<and>
     twin sizeof_nova_inode pi alter)"

definition inode_check :: "nova_env \<times> nat \<times> nat \<times> pm \<Rightarrow> (nova_env \<times> nat \<times> nat \<times> pm) \<times> u8 list option" where
  "inode_check = (\<lambda>(E, pi, alter, P). case nova_check_inode_integrity E pi alter True P of
     (P', Inr c) \<Rightarrow> ((E, pi, alter, P'), Some c) | (P', Inl e) \<Rightarrow> ((E, pi, alter, P'), None))"

definition inode_primary :: "nova_env \<times> nat \<times> nat \<times> pm \<Rightarrow> u8 list option" where
  "inode_primary = (\<lambda>(E, pi, alter, P). memcpy_mcsafe E P pi sizeof_nova_inode)"

definition inode_replica :: "nova_env \<times> nat \<times> nat \<times> pm \<Rightarrow> u8 list option" where
  "inode_replica = (\<lambda>(E, pi, alter, P). memcpy_mcsafe E P alter sizeof_nova_inode)"

definition inode_valid :: "nova_env \<times> nat \<times> nat \<times> pm \<Rightarrow> u8 list \<Rightarrow> bool" where
  "inode_valid = (\<lambda>(E, pi, alter, P). nova_check_inode_checksum E)"

lemma copy_pr_readable:
  assumes E: "media_model E" and ab: "twin n a b" and ok: "copy_pr E (poison_block a) (poison_block b) P = (P', True)"
  shows "\<exists>bs. memcpy_mcsafe E P b n = Some bs"
proof -
  let ?B = "512 * (b div 512)"
  have "length (takeWhile (media_ok E (trace P)) [?B..<?B + 512]) = 512"
    using ok by (simp add: copy_pr_def mcsafe_copy_def POISON_RADIUS_def Let_def)
  then have "takeWhile (media_ok E (trace P)) [?B..<?B + 512] = [?B..<?B + 512]"
    by (metis takeWhile_eq_take length_takeWhile_le length_upt add_diff_cancel_left' take_all order_refl)
  then have "\<forall>x \<in> {?B..<?B + 512}. media_ok E (trace P) x"
    by (metis takeWhile_eq_all_conv set_upt)
  then have "\<forall>x \<in> {b..<b + n}. media_ok E (trace P) x"
    using twin_in_block [OF twin_sym [OF ab]] by blast
  then show ?thesis unfolding mcsafe_Some by blast
qed

text \<open>What reading with one attempt at a repair gives.\<close>

lemma copy_or_repair_ok:
  assumes E: "media_model E" and ab: "twin 120 a b" "512 \<le> a" "512 \<le> b"
    and r: "copy_or_repair_inode E a b rep P = Inr (P', Some bs)"
  shows "(P' = P \<and> memcpy_mcsafe E P a 120 = Some bs) \<or>
     (rep \<and> memcpy_mcsafe E P a 120 = None \<and> memcpy_mcsafe E P b 120 = Some bs \<and>
      memcpy_mcsafe E P' a 120 = Some bs \<and> memcpy_mcsafe E P' b 120 = Some bs)"
proof (cases "memcpy_mcsafe E P a 120")
  case None
  then have rep: "rep" using r by (auto simp: copy_or_repair_inode_def split: if_splits)
  obtain P1 ok where c: "copy_pr E (poison_block a) (poison_block b) P = (P1, ok)"
    by (cases "copy_pr E (poison_block a) (poison_block b) P")
  then have ok: "ok" "P' = P1" "memcpy_mcsafe E P1 a 120 = Some bs"
    using r None rep ab by (auto simp: copy_or_repair_inode_def nova_repair_inode_pr_def split: bool.splits)
  obtain cs where cs: "memcpy_mcsafe E P b 120 = Some cs"
    using copy_pr_readable [OF E ab(1), of P P1] c ok(1) by auto
  have "memcpy_mcsafe E P1 a 120 = Some cs \<and> memcpy_mcsafe E P1 b 120 = Some cs"
    using repair_block [OF E ab(1) cs] c by auto
  then show ?thesis using ok cs None rep by auto
next
  case (Some cs)
  then show ?thesis using r by (simp add: copy_or_repair_inode_def)
qed

lemma copy_or_repair_readable:
  "memcpy_mcsafe E P a 120 = Some bs \<Longrightarrow> copy_or_repair_inode E a b rep P = Inr (P, Some bs)"
  by (simp add: copy_or_repair_inode_def)

lemma copy_or_repair_from_twin:
  assumes E: "media_model E" and ab: "twin 120 a b" "512 \<le> a" "512 \<le> b"
    and r: "memcpy_mcsafe E P a 120 = None" "memcpy_mcsafe E P b 120 = Some bs"
  shows "\<exists>P'. copy_or_repair_inode E a b True P = Inr (P', Some bs) \<and>
    memcpy_mcsafe E P' a 120 = Some bs \<and> memcpy_mcsafe E P' b 120 = Some bs"
proof -
  obtain P' where "copy_pr E (poison_block a) (poison_block b) P = (P', True)"
     "memcpy_mcsafe E P' a 120 = Some bs \<and> memcpy_mcsafe E P' b 120 = Some bs"
    using repair_block [OF E ab(1) r(2)] by blast
  then show ?thesis using r ab by (auto simp: copy_or_repair_inode_def nova_repair_inode_pr_def)
qed

lemma mcsafe_length: "memcpy_mcsafe E P a n = Some bs \<Longrightarrow> length bs = n"
  by (auto simp: mcsafe_Some)

lemma compare_inodes_agrees:
  assumes E: "media_model E" and ab: "twin 120 a b"
    and r: "memcpy_mcsafe E P a 120 = Some x" "memcpy_mcsafe E P b 120 = Some y"
    and c: "compare_inodes E a b x y P = (P', Inr z)"
  shows "nova_check_inode_checksum E z \<and> memcpy_mcsafe E P' a 120 = Some z \<and> memcpy_mcsafe E P' b 120 = Some z"
  using c rewrite_twin [OF E ab r(2) mcsafe_length [OF r(2)] r(1)]
    rewrite_twin [OF E twin_sym [OF ab] r(1) mcsafe_length [OF r(1)] r(2)] r mcsafe_length [OF r(1)] mcsafe_length [OF r(2)]
  by (auto simp: compare_inodes_def nova_repair_inode_def Let_def split: if_splits)

lemma integrity_agrees:
  assumes E: "metadata_csum E" "media_model E" and ab: "twin 120 a b" "512 \<le> a" "512 \<le> b"
    and c: "nova_check_inode_integrity E a b True P = (P', Inr z)"
  shows "nova_check_inode_checksum E z \<and> memcpy_mcsafe E P' a 120 = Some z \<and> memcpy_mcsafe E P' b 120 = Some z"
proof -
  obtain P1 x where x: "copy_or_repair_inode E a b True P = Inr (P1, Some x)"
    using c E by (auto simp: nova_check_inode_integrity_def split: sum.splits option.splits)
  obtain P2 y where y: "copy_or_repair_inode E b a (nova_check_inode_checksum E x) P1 = Inr (P2, Some y)"
    and z: "compare_inodes E a b x y P2 = (P', Inr z)"
    using c E x by (auto simp: nova_check_inode_integrity_def Let_def split: sum.splits option.splits)
  have "memcpy_mcsafe E P1 a 120 = Some x"
    using copy_or_repair_ok [OF E(2) ab x] by blast
  then have "memcpy_mcsafe E P2 a 120 = Some x" "memcpy_mcsafe E P2 b 120 = Some y"
    using copy_or_repair_ok [OF E(2) twin_sym [OF ab(1)] ab(3,2) y] by auto
  then show ?thesis using compare_inodes_agrees [OF E(2) ab(1) _ _ z] by blast
qed

lemma integrity_primary:
  assumes E: "metadata_csum E" "media_model E" and ab: "twin 120 a b" "512 \<le> a" "512 \<le> b"
    and c: "memcpy_mcsafe E P a 120 = Some x" "nova_check_inode_checksum E x"
  shows "\<exists>P'. nova_check_inode_integrity E a b True P = (P', Inr x)"
proof (cases "memcpy_mcsafe E P b 120")
  case None
  obtain P1 where "copy_or_repair_inode E b a True P = Inr (P1, Some x)"
    using copy_or_repair_from_twin [OF E(2) twin_sym [OF ab(1)] ab(3,2) None c(1)] by blast
  then show ?thesis
    using c E by (simp add: nova_check_inode_integrity_def copy_or_repair_readable compare_inodes_def)
next
  case (Some y)
  then show ?thesis
    using c E by (auto simp: nova_check_inode_integrity_def copy_or_repair_readable compare_inodes_def Let_def)
qed

lemma integrity_replica:
  assumes E: "metadata_csum E" "media_model E" and ab: "twin 120 a b" "512 \<le> a" "512 \<le> b"
    and c: "memcpy_mcsafe E P b 120 = Some x" "nova_check_inode_checksum E x"
    and bad: "\<And>p. memcpy_mcsafe E P a 120 = Some p \<Longrightarrow> \<not> nova_check_inode_checksum E p"
  shows "\<exists>P'. nova_check_inode_integrity E a b True P = (P', Inr x)"
proof (cases "memcpy_mcsafe E P a 120")
  case None
  obtain P1 where "copy_or_repair_inode E a b True P = Inr (P1, Some x)" "memcpy_mcsafe E P1 b 120 = Some x"
    using copy_or_repair_from_twin [OF E(2) ab None c(1)] by blast
  then show ?thesis
    using c E by (simp add: nova_check_inode_integrity_def copy_or_repair_readable compare_inodes_def)
next
  case (Some y)
  then show ?thesis
    using c E bad [OF Some] by (simp add: nova_check_inode_integrity_def copy_or_repair_readable compare_inodes_def Let_def)
qed

interpretation inodes: mirror inode_pair inode_check inode_primary inode_replica inode_valid
proof unfold_locales
  fix s s' c assume i: "inode_pair s" and k: "inode_check s = (s', Some c)"
  obtain E pi alter P where s: "s = (E, pi, alter, P)" by (cases s)
  obtain P' where P': "nova_check_inode_integrity E pi alter True P = (P', Inr c)" "s' = (E, pi, alter, P')"
    using k by (auto simp: inode_check_def s split: prod.splits sum.splits)
  show "inode_pair s' \<and> inode_valid s' = inode_valid s"
    using i P' by (simp add: s inode_pair_def inode_valid_def)
  show "inode_valid s c \<and> inode_primary s' = Some c \<and> inode_replica s' = Some c"
    using integrity_agrees [OF _ _ _ _ _ P'(1)] i P'(2)
    by (simp add: s inode_pair_def inode_valid_def inode_primary_def inode_replica_def)
next
  fix s c assume "inode_pair s" "inode_primary s = Some c" "inode_replica s = Some c" "inode_valid s c"
  then show "inode_check s = (s, Some c)"
    by (cases s) (simp add: inode_pair_def inode_valid_def inode_primary_def inode_replica_def inode_check_def
        nova_check_inode_integrity_def copy_or_repair_readable compare_inodes_def)
next
  fix s c assume "inode_pair s" "inode_primary s = Some c" "inode_valid s c"
  then show "\<exists>s'. inode_check s = (s', Some c)"
    using integrity_primary
    by (cases s) (fastforce simp: inode_pair_def inode_valid_def inode_primary_def inode_check_def)
next
  fix s c assume "inode_pair s" "inode_replica s = Some c" "inode_valid s c"
    "\<And>p. inode_primary s = Some p \<Longrightarrow> \<not> inode_valid s p"
  then show "\<exists>s'. inode_check s = (s', Some c)"
    using integrity_replica
    by (cases s) (fastforce simp: inode_pair_def inode_valid_def inode_primary_def inode_replica_def inode_check_def)
qed

end
