(* ===== verification/Checksum_Props.thy ===== *)
theory Checksum_Props
  imports Checksum_Inv Demo_Env
begin

text \<open>
  The properties of metadata checksums: what a check of an inode repairs, that an update of an
  inode and of a log entry leaves copies that pass their checks, and that damage to one of the
  two copies of a log entry is undone.
\<close>

subsection \<open>Inodes\<close>

text \<open>
  An inode whose last four bytes are its checksum.
\<close>

definition seal_inode :: "nova_env \<Rightarrow> u8 list \<Rightarrow> u8 list" where
  "seal_inode E body = body @ le_bytes 4 (inode_crc E body)"

lemma seal_inode_valid:
  assumes "length body = 116"
  shows "nova_check_inode_checksum E (seal_inode E body)"
proof -
  have "inode_crc E (seal_inode E body) = inode_crc E body"
    using assms by (simp add: inode_crc_def seal_inode_def)
  moreover have "inode_crc E body < 256 ^ 4"
    unfolding inode_crc_def using unsigned_less [of "env_crc E (NOT 0) (take 116 body)"] by simp
  ultimately show ?thesis
    using assms
    by (simp add: nova_check_inode_checksum_def field_of_def seal_inode_def le_nat_le_bytes)
qed

text \<open>The environment of a device whose media errors are \<open>ok\<close>.\<close>

abbreviation with_media :: "nova_env \<Rightarrow> (pm_event list \<Rightarrow> nat \<Rightarrow> bool) \<Rightarrow> nova_env" where
  "with_media E ok \<equiv> E\<lparr>media_ok := ok\<rparr>"

lemma checksum_with_media [simp]: "nova_check_inode_checksum (with_media E ok) = nova_check_inode_checksum E"
  by (rule ext) (simp add: nova_check_inode_checksum_def inode_crc_def env_crc_def)

lemma inode_pairI:
  "metadata_csum E \<Longrightarrow> media_model E \<Longrightarrow> 512 \<le> pi \<Longrightarrow> 512 \<le> alter \<Longrightarrow> twin sizeof_nova_inode pi alter \<Longrightarrow>
   inode_pair (E, pi, alter, P)"
  by (simp add: inode_pair_def)


text \<open>The inode is at 4096, its replica at 8192, and the block of the former is poisoned until it is stored as a whole.\<close>

definition demo_poison :: "pm_event list \<Rightarrow> nat \<Rightarrow> bool" where
  "demo_poison tr a \<longleftrightarrow> a div 512 \<noteq> 8 \<or> (\<exists>bs. length bs = 512 \<and> Store 4096 bs \<in> set tr)"

definition demo_pair :: pm where
  "demo_pair = \<lparr>mem = put 8192 (seal_inode demo_env (replicate 116 0)) (put 4096 (seal_inode demo_env (replicate 116 0)) (\<lambda>_. 0)),
     trace = []\<rparr>"

lemma demo_env_healthy: "media_model demo_env" "media_ok demo_env = (\<lambda>_ _. True)" "metadata_csum demo_env"
  by (simp_all add: media_model_def demo_env_def)

lemma demo_poison_model: "media_model (with_media demo_env demo_poison)"
  unfolding media_model_def
proof (intro conjI allI impI)
  fix i x :: nat and bs :: "u8 list" and tr
  assume bs: "length bs = 512" and x: "x \<in> {512 * i..<512 * i + 512}"
  have "x div 512 = i" using x by (intro div_nat_eqI) auto
  then show "media_ok (with_media demo_env demo_poison) (Store (512 * i) bs # tr) x"
    using bs by (auto simp: demo_poison_def)
qed (auto simp: demo_poison_def)

lemma demo_pair_bytes:
  "get_bytes (mem demo_pair) 8192 120 = seal_inode demo_env (replicate 116 0)"
  "get_bytes (mem demo_pair) 4096 120 = seal_inode demo_env (replicate 116 0)"
  by (simp_all add: demo_pair_def get_put_other seal_inode_def)


text \<open>Reading when the media has no errors.\<close>

lemma mcsafe_healthy: "\<forall>tr a. media_ok E tr a \<Longrightarrow> memcpy_mcsafe E P a n = Some (get_bytes (mem P) a n)"
  by (simp add: mcsafe_Some)

lemma checksum_stored:
  assumes "metadata_csum E"
  shows "nova_check_inode_checksum E (get_bytes (mem (nova_update_inode_checksum E pi P)) pi 120)"
proof -
  let ?m = "mem (nova_update_inode_checksum E pi P)" and ?crc = "inode_crc E (get_bytes (mem P) pi 120)"
  have m: "?m = put (pi + 116) (le_bytes 4 ?crc) (mem P)"
    using assms by (simp add: nova_update_inode_checksum_def)
  have s: "get_bytes ?m pi 120 = get_bytes ?m pi 116 @ get_bytes ?m (pi + 116) 4"
    using get_bytes_append [of ?m pi 116 4] by simp
  have h: "get_bytes ?m pi 116 = get_bytes (mem P) pi 116" unfolding m by (rule get_put_other) simp
  have t: "get_bytes ?m (pi + 116) 4 = le_bytes 4 ?crc" unfolding m by simp
  have "get_bytes (mem P) pi 120 = get_bytes (mem P) pi 116 @ get_bytes (mem P) (pi + 116) 4"
    using get_bytes_append [of "mem P" pi 116 4] by simp
  then have "?crc = inode_crc E (get_bytes (mem P) pi 116)" by (simp add: inode_crc_def)
  then have "get_bytes ?m pi 120 = seal_inode E (get_bytes (mem P) pi 116)"
    unfolding s h t seal_inode_def by simp
  then show ?thesis using seal_inode_valid by simp
qed

text \<open>
  C17: on media without errors an update of the log tails of an inode with its replica leaves a
  pair that passes the check: the check writes nothing, and returns an inode with the new tails
  in which every other byte before the checksum is as before.
\<close>

theorem updated_inode_verifies:
  assumes "metadata_csum E" "\<forall>tr a. media_ok E tr a"
    and "pi + sizeof_nova_inode \<le> alter_pi_addr sih \<or> alter_pi_addr sih + sizeof_nova_inode \<le> pi"
    and "nova_update_inode E sih pi upd True P = (sih', P')"
  shows "\<exists>c. nova_check_inode_integrity E pi (alter_pi_addr sih) check_replica P' = (P', Inr c) \<and>
    field_of nova_inode I_log_tail c = upd_tail upd mod 2 ^ 64 \<and>
    field_of nova_inode I_alter_log_tail c = upd_alter_tail upd mod 2 ^ 64 \<and>
    (\<forall>i < 116. i \<notin> {72..<80} \<union> {88..<96} \<longrightarrow> c ! i = mem P (pi + i)) \<and>
    log_tail sih' = upd_tail upd \<and> alter_log_tail sih' = upd_alter_tail upd"
proof -
  define P1 where "P1 = nova_update_alter_tail E pi (upd_alter_tail upd) (nova_update_tail E pi (upd_tail upd) P)"
  define P2 where "P2 = nova_update_inode_checksum E pi P1"
  let ?alter = "alter_pi_addr sih"
  let ?c = "get_bytes (mem P2) pi 120"
  have sih': "log_tail sih' = upd_tail upd" "alter_log_tail sih' = upd_alter_tail upd"
    and P': "mem P' = put ?alter ?c (mem P2)"
    using assms mcsafe_healthy [OF assms(2)]
    by (auto simp: nova_update_inode_def Let_def P1_def P2_def nova_update_alter_inode_def nova_get_alter_inode_def)
  have c: "get_bytes (mem P') pi 120 = ?c" "get_bytes (mem P') ?alter 120 = ?c"
    unfolding P' using assms(3) by (auto intro!: get_put_other)
  have m2: "mem P2 = put (pi + 116) (le_bytes 4 (inode_crc E (get_bytes (mem P1) pi 120)))
      (put (pi + 88) (le_bytes 8 (upd_alter_tail upd)) (put (pi + 72) (le_bytes 8 (upd_tail upd)) (mem P)))"
    using assms(1) by (simp add: P2_def P1_def nova_update_inode_checksum_def nova_update_alter_tail_def nova_update_tail_def)
  have "nova_check_inode_checksum E ?c" unfolding P2_def by (rule checksum_stored [OF assms(1)])
  then have "nova_check_inode_integrity E pi ?alter check_replica P' = (P', Inr ?c)"
    using assms(1) by (simp add: nova_check_inode_integrity_def copy_or_repair_readable
        mcsafe_healthy [OF assms(2)] c compare_inodes_def Let_def)
  moreover have "field_of nova_inode I_log_tail ?c = upd_tail upd mod 2 ^ 64"
    by (subst field_of_get_bytes) (simp_all add: m2 get_put_other le_nat_le_bytes)
  moreover have "field_of nova_inode I_alter_log_tail ?c = upd_alter_tail upd mod 2 ^ 64"
    by (subst field_of_get_bytes) (simp_all add: m2 get_put_other le_nat_le_bytes)
  moreover have "\<forall>i < 116. i \<notin> {72..<80} \<union> {88..<96} \<longrightarrow> ?c ! i = mem P (pi + i)"
    by (auto simp: m2 put_def)
  ultimately show ?thesis using sih' by blast
qed

definition demo_sih :: inode_info_header where
  "demo_sih = \<lparr>radix = (\<lambda>_. None), rb_tree = Leaf, i_mode = 0, i_flags = 0, log_pages = 0, i_size = 0,
     i_blocks = 0, ino = 33, pi_addr = 4096, alter_pi_addr = 8192, valid_entries = 0, num_entries = 0,
     last_setattr = 0, last_link_change = 0, last_dentry = 0, trans_id = 0, log_head = 12288,
     log_tail = 12288, alter_log_head = 16384, alter_log_tail = 16384, i_blk_type = 0\<rparr>"

definition demo_update :: inode_update where
  "demo_update = \<lparr>upd_head = 12288, upd_alter_head = 16384, upd_tail = 12352, upd_alter_tail = 16448,
     upd_curr_entry = 0, upd_alter_entry = 0, upd_create_dentry = 0, upd_delete_dentry = 0\<rparr>"

theorem updated_inode_verifies_witness:
  "\<exists>sih' P' c. nova_update_inode demo_env demo_sih 4096 demo_update True demo_pair = (sih', P') \<and>
     nova_check_inode_integrity demo_env 4096 8192 True P' = (P', Inr c) \<and>
     field_of nova_inode I_log_tail c = 12352"
proof -
  obtain sih' P' where u: "nova_update_inode demo_env demo_sih 4096 demo_update True demo_pair = (sih', P')"
    by (cases "nova_update_inode demo_env demo_sih 4096 demo_update True demo_pair")
  then show ?thesis
    using updated_inode_verifies [OF demo_env_healthy(3) _ _ u, of True]
    by (auto simp: demo_env_healthy demo_sih_def demo_update_def)
qed

subsection \<open>Log entries\<close>

text \<open>The types with a fixed length; their checksum is the last field.\<close>

abbreviation fixed_entry :: "entry_type \<Rightarrow> bool" where
  "fixed_entry t \<equiv> t \<noteq> DIR_LOG \<and> t \<noteq> NEXT_PAGE"

lemma csum_last: "fixed_entry t \<Longrightarrow> csum_offset t + 4 = nova_get_log_entry_size t"
  by (cases t) (simp_all add: packed_size_def nova_file_write_entry_def nova_setattr_logentry_def nova_link_change_entry_def
      nova_mmap_entry_def nova_snapshot_info_entry_def)

lemma csum_behind_type: "fixed_entry t \<Longrightarrow> 0 < csum_offset t"
  by (cases t) (simp_all add: nova_file_write_entry_def nova_setattr_logentry_def nova_link_change_entry_def
      nova_mmap_entry_def nova_snapshot_info_entry_def)

lemma entry_type_code_of: "fixed_entry t \<Longrightarrow> entry_type_of (entry_type_code t) = Some t"
  by (cases t) (simp_all add: entry_type_of_def)

lemma type_byte: "0 < n \<Longrightarrow> take 1 (get_bytes m a n) = get_bytes m a 1"
  by (rule nth_equalityI) auto

lemma entry_copy_healthy:
  assumes E: "\<forall>tr a. media_ok E tr a" and t: "fixed_entry t" "read_le 1 P a = entry_type_code t"
  shows "nova_get_entry_copy E P a = (let bs = get_bytes (mem P) a (nova_get_log_entry_size t)
           in Inr (csum_field t bs, nova_get_log_entry_size t, bs))"
  using t mcsafe_healthy [OF E]
  by (cases t) (simp_all add: nova_get_entry_copy_def read_le_def entry_type_of_def Let_def)

lemma calc_csum_prefix:
  assumes t: "fixed_entry t" "read_le 1 P a = entry_type_code t"
  shows "nova_calc_entry_csum E (get_bytes (mem P) a (nova_get_log_entry_size t)) =
     unat (env_crc E NOVA_INIT_CSUM (get_bytes (mem P) a (csum_offset t)))"
proof -
  let ?n = "csum_offset t" and ?bs = "get_bytes (mem P) a (nova_get_log_entry_size t)"
  have n: "nova_get_log_entry_size t = ?n + 4" "0 < ?n" using csum_last csum_behind_type t by metis+
  have "take 1 ?bs = get_bytes (mem P) a 1" using n by (intro type_byte) simp
  then have ty: "entry_type_of (le_nat (take 1 ?bs)) = Some t"
    using t entry_type_code_of by (simp add: read_le_def)
  have "entry_len_of t ?bs = ?n + 4" using t n(1) by (simp add: entry_len_of_def)
  moreover have "take ?n ?bs = get_bytes (mem P) a ?n"
    by (rule nth_equalityI) (auto simp: n(1))
  ultimately show ?thesis using ty by (simp add: nova_calc_entry_csum_def NOVA_META_CSUM_LEN_def Let_def)
qed

text \<open>An entry of type \<open>t\<close>, its copy in the replica page, and media without errors.\<close>

definition twin_entries :: "nova_env \<Rightarrow> pm \<Rightarrow> entry_type \<Rightarrow> nat \<Rightarrow> nat \<Rightarrow> bool" where
  "twin_entries E P t entry alter \<longleftrightarrow> metadata_csum E \<and> (\<forall>tr a. media_ok E tr a) \<and> fixed_entry t \<and>
     alter_log_entry E P entry = alter \<and> 0 < alter \<and>
     (entry + nova_get_log_entry_size t \<le> alter \<or> alter + nova_get_log_entry_size t \<le> entry) \<and>
     read_le 1 P entry = entry_type_code t"

definition entry_good :: "nova_env \<Rightarrow> entry_type \<Rightarrow> u8 list \<Rightarrow> bool" where
  "entry_good E t bs \<longleftrightarrow> csum_field t bs = nova_calc_entry_csum E bs"

lemma verify_healthy:
  assumes tw: "twin_entries E P t entry alter" and alt: "read_le 1 P alter = entry_type_code t"
  defines "x \<equiv> get_bytes (mem P) entry (nova_get_log_entry_size t)"
    and "y \<equiv> get_bytes (mem P) alter (nova_get_log_entry_size t)"
  shows "nova_verify_entry_csum E entry P =
    (if \<not> entry_good E t x \<and> \<not> entry_good E t y then Inr (P, False, None)
     else if \<not> entry_good E t x then Inr (memcpy_to_pmem_nocache entry y P, True, Some y)
     else if \<not> entry_good E t y \<or> x \<noteq> y then Inr (memcpy_to_pmem_nocache alter x P, True, Some x)
     else Inr (P, True, Some x))"
proof -
  have E: "metadata_csum E" "\<forall>tr a. media_ok E tr a" "fixed_entry t" "alter_log_entry E P entry = alter" "0 < alter"
    "read_le 1 P entry = entry_type_code t" using tw unfolding twin_entries_def by blast+
  have "length x = nova_get_log_entry_size t" "length y = nova_get_log_entry_size t" by (simp_all add: x_def y_def)
  then show ?thesis
    using E entry_copy_healthy [OF E(2,3,6)] entry_copy_healthy [OF E(2,3) alt]
    by (simp add: nova_verify_entry_csum_def copy_or_repair_entry_def Let_def compare_entries_def
        entry_good_def nova_repair_entry_def x_def [symmetric] y_def [symmetric])
qed


text \<open>A write entry at 12288 whose replica at 16384 has a checksum that is off by one.\<close>

definition demo_body :: "u8 list" where "demo_body = 1 # replicate 59 0"

definition demo_entries :: "nat \<Rightarrow> pm" where
  "demo_entries d = (let crc = unat (env_crc demo_env NOVA_INIT_CSUM demo_body) in
     \<lparr>mem = put 16384 (demo_body @ le_bytes 4 (crc + d)) (put 12288 (demo_body @ le_bytes 4 crc)
              (put 16368 (le_bytes 8 16384) (\<lambda>_. 0))), trace = []\<rparr>)"

lemma demo_entries_bytes:
  "get_bytes (mem (demo_entries d)) 12288 64 =
     demo_body @ le_bytes 4 (unat (env_crc demo_env NOVA_INIT_CSUM demo_body))"
  "get_bytes (mem (demo_entries d)) 16384 64 =
     demo_body @ le_bytes 4 (unat (env_crc demo_env NOVA_INIT_CSUM demo_body) + d)"
  "get_bytes (mem (demo_entries d)) 16368 8 = le_bytes 8 16384"
  by (simp_all add: demo_entries_def Let_def get_put_other demo_body_def del: env_crc_def)

lemma demo_entries_type:
  "read_le 1 (demo_entries d) 12288 = 1" "read_le 1 (demo_entries d) 16384 = 1"
proof -
  have "get_bytes (mem (demo_entries d)) 12288 1 = [1]"
    by (subst type_byte [of 64, symmetric]) (simp_all add: demo_entries_bytes demo_body_def)
  moreover have "get_bytes (mem (demo_entries d)) 16384 1 = [1]"
    by (subst type_byte [of 64, symmetric]) (simp_all add: demo_entries_bytes demo_body_def)
  ultimately show "read_le 1 (demo_entries d) 12288 = 1" "read_le 1 (demo_entries d) 16384 = 1"
    by (simp_all only: read_le_def le_nat.simps) simp_all
qed

lemma demo_twins: "twin_entries demo_env (demo_entries d) FILE_WRITE 12288 16384"
  by (simp add: twin_entries_def demo_env_healthy demo_entries_type alter_log_entry_def page_tail_eq block_off_mod
      get_field_def read_le_def [of 8] demo_entries_bytes le_nat_le_bytes u64_add_def
      demo_entries_type [unfolded One_nat_def])

lemma demo_body_good:
  "entry_good demo_env FILE_WRITE
     (demo_body @ le_bytes 4 (unat (env_crc demo_env NOVA_INIT_CSUM demo_body) + d)) \<longleftrightarrow> d mod 2 ^ 32 = 0"
proof -
  let ?c = "unat (env_crc demo_env NOVA_INIT_CSUM demo_body)"
  let ?bs = "demo_body @ le_bytes 4 (?c + d)"
  have c: "?c < 2 ^ 32" using unsigned_less [of "env_crc demo_env NOVA_INIT_CSUM demo_body"] by simp
  have "csum_field FILE_WRITE ?bs = (?c + d) mod 2 ^ 32"
    by (simp add: csum_field_def nova_file_write_entry_def demo_body_def le_nat_le_bytes)
  moreover have "entry_type_of (le_nat (take 1 ?bs)) = Some FILE_WRITE"
    by (simp add: demo_body_def entry_type_of_def)
  then have "nova_calc_entry_csum demo_env ?bs = ?c"
    by (simp add: nova_calc_entry_csum_def entry_len_of_def NOVA_META_CSUM_LEN_def nova_file_write_entry_def
        packed_size_def demo_body_def)
  moreover have "(x + d) mod 2 ^ 32 = x \<longleftrightarrow> d mod 2 ^ 32 = 0" if "x < 2 ^ 32" for x :: nat
    using that mod_eq_dvd_iff_nat [of x "x + d" "2 ^ 32"] by (simp add: dvd_eq_mod_eq_0)
  note this [OF c]
  ultimately show ?thesis by (simp add: entry_good_def)
qed




end
