(* ===== verification/Data_Protect.thy ===== *)
theory Data_Protect
  imports Checksum
begin

text \<open>
  Checksums and parity of file data: the second half of \<^verbatim>\<open>checksum.c\<close>, \<^verbatim>\<open>parity.c\<close>, and the address
  computations of \<^verbatim>\<open>nova.h\<close>. A block of 4096 bytes is eight stripes; every stripe has two copies
  of its checksum, every block one parity stripe. The buffers the code hands around are in
  kernel memory (\<open>Dram\<close>) or in persistent memory (\<open>Nvmm\<close>).
\<close>

definition blk_type_to_size :: "nat \<Rightarrow> nat" where
  "blk_type_to_size t = (if t = 0 then 0x1000 else if t = 1 then 0x200000 else 0x40000000)"

datatype buffer = Dram "u8 list" | Nvmm nat

fun read_buf :: "pm \<Rightarrow> buffer \<Rightarrow> nat \<Rightarrow> nat \<Rightarrow> u8 list" where
  "read_buf P (Dram bs) off n = take n (drop off bs)"
| "read_buf P (Nvmm a) off n = get_bytes (mem P) (a + off) n"

subsection \<open>Where checksums and parity are\<close>

text \<open>
  The null pointer is None. The array of free lists has \<open>cpus\<close> elements.
\<close>

definition nova_get_data_csum_addr :: "nova_env \<Rightarrow> sb_info \<Rightarrow> nat \<Rightarrow> nat \<Rightarrow> nat option" where
  "nova_get_data_csum_addr E sbi strp_nr replica =
     (if \<not> data_csum E then None
      else
        let blocknr = strp_nr div 8;
            idx = blocknr div per_list_blocks sbi
        in if cpus sbi \<le> idx \<or> length (free_lists sbi) \<le> idx then None
           else
             let strp_nr = strp_nr - idx * per_list_blocks sbi * 8;
                 free_list = free_lists sbi ! idx;
                 blockoff = (if replica = 0 then csum_start free_list
                             else replica_csum_start free_list) * 4096
             in if num_csum_blocks free_list \<le> (NOVA_DATA_CSUM_LEN * strp_nr) div 4096 then None
                else Some (blockoff + NOVA_DATA_CSUM_LEN * strp_nr))"

definition nova_get_parity_addr :: "nova_env \<Rightarrow> sb_info \<Rightarrow> nat \<Rightarrow> nat option" where
  "nova_get_parity_addr E sbi blocknr =
     (if \<not> data_parity E then None
      else
        let idx = blocknr div per_list_blocks sbi
        in if cpus sbi \<le> idx \<or> length (free_lists sbi) \<le> idx then None
           else
             let free_list = free_lists sbi ! idx;
                 blockoff = parity_start free_list * 4096;
                 rel = u64_sub blocknr (block_start free_list)
             in if num_parity_blocks free_list \<le> rel div 8 then None
                else Some (blockoff + rel * NOVA_STRIPE_SIZE))"

subsection \<open>Finding the block of a file page\<close>

text \<open>
  A page number outside the range of the entry only prints a warning; the subtraction wraps.
\<close>

definition get_nvmm :: "u8 list \<Rightarrow> nat \<Rightarrow> nat" where
  "get_nvmm entryc pgoff =
     u64_sub (u64_add (field_of nova_file_write_entry W_block entryc div 4096) pgoff)
       (field_of nova_file_write_entry W_pgoff entryc)"

definition nova_get_write_entry :: "inode_info_header \<Rightarrow> nat \<Rightarrow> nat option" where
  "nova_get_write_entry sih blocknr = radix sih blocknr"

definition nova_find_nvmm_block :: "nova_env \<Rightarrow> pm \<Rightarrow> inode_info_header \<Rightarrow> nat option \<Rightarrow> nat \<Rightarrow> nat" where
  "nova_find_nvmm_block E P sih entry blocknr =
     (case (case entry of Some e \<Rightarrow> Some e | None \<Rightarrow> nova_get_write_entry sih blocknr) of
        None \<Rightarrow> 0
      | Some e \<Rightarrow>
          (case memcpy_mcsafe E P e (packed_size nova_file_write_entry) of
             None \<Rightarrow> 0
           | Some entryc \<Rightarrow> u64_mul (get_nvmm entryc blocknr) 4096))"

subsection \<open>Checksums of stripes\<close>

definition stripe_crc :: "nova_env \<Rightarrow> u8 list \<Rightarrow> u32" where
  "stripe_crc E strp = env_crc E NOVA_INIT_CSUM strp"

definition csum_bytes :: "u32 \<Rightarrow> u8 list" where
  "csum_bytes c = le_bytes 4 (unat c)"

text \<open>The loop over groups of eight stripes; \<open>off\<close> is the place in the buffer.\<close>

definition store_8_csums :: "nova_env \<Rightarrow> nat \<Rightarrow> nat \<Rightarrow> u8 list \<Rightarrow> pm \<Rightarrow> pm" where
  "store_8_csums E csum_addr csum_addr1 src P =
     (if support_clwb E then
        nova_flush_buffer True csum_addr1 (NOVA_DATA_CSUM_LEN * 8) False
          (nova_flush_buffer True csum_addr (NOVA_DATA_CSUM_LEN * 8) False
            (store csum_addr1 src (store csum_addr src P)))
      else memcpy_to_pmem_nocache csum_addr1 src (memcpy_to_pmem_nocache csum_addr src P))"

fun stripe_csum_by8 ::
    "nova_env \<Rightarrow> sb_info \<Rightarrow> buffer \<Rightarrow> bool \<Rightarrow> nat \<Rightarrow> nat \<Rightarrow> nat \<Rightarrow> pm \<Rightarrow> (pm \<times> nat \<times> nat \<times> nat) res" where
  "stripe_csum_by8 E sbi buf zero strps strp_nr off P =
     (if 8 \<le> strps then
        (let src = (if zero then concat (map csum_bytes (zero_csum sbi))
                    else concat (map (\<lambda>k. csum_bytes (stripe_crc E (read_buf P buf (off + k * NOVA_STRIPE_SIZE) NOVA_STRIPE_SIZE)))
                                 [0..<8]))
         in case (nova_get_data_csum_addr E sbi strp_nr 0, nova_get_data_csum_addr E sbi strp_nr 1) of
              (Some csum_addr, Some csum_addr1) \<Rightarrow>
                stripe_csum_by8 E sbi buf zero (strps - 8) (strp_nr + 8)
                  (if zero then off else off + NOVA_STRIPE_SIZE * 8)
                  (store_8_csums E csum_addr csum_addr1 src P)
            | _ \<Rightarrow> Inl EOOPS)
      else Inr (P, strps, strp_nr, off))"

fun stripe_csum_single ::
    "nova_env \<Rightarrow> sb_info \<Rightarrow> buffer \<Rightarrow> bool \<Rightarrow> nat \<Rightarrow> nat \<Rightarrow> nat \<Rightarrow> pm \<Rightarrow> pm res" where
  "stripe_csum_single E sbi buf zero 0 strp_nr off P = Inr P"
| "stripe_csum_single E sbi buf zero (Suc strps) strp_nr off P =
     (let csum = (if zero then hd (zero_csum sbi)
                  else stripe_crc E (read_buf P buf off NOVA_STRIPE_SIZE))
      in case (nova_get_data_csum_addr E sbi strp_nr 0, nova_get_data_csum_addr E sbi strp_nr 1) of
           (Some csum_addr, Some csum_addr1) \<Rightarrow>
             stripe_csum_single E sbi buf zero strps (strp_nr + 1)
               (if zero then off else off + NOVA_STRIPE_SIZE)
               (memcpy_to_pmem_nocache csum_addr1 (csum_bytes csum)
                 (memcpy_to_pmem_nocache csum_addr (csum_bytes csum) P))
         | _ \<Rightarrow> Inl EOOPS)"

declare stripe_csum_by8.simps [simp del]

definition nova_update_stripe_csum ::
    "nova_env \<Rightarrow> sb_info \<Rightarrow> nat \<Rightarrow> nat \<Rightarrow> buffer \<Rightarrow> nat \<Rightarrow> bool \<Rightarrow> pm \<Rightarrow> pm res" where
  "nova_update_stripe_csum E sbi strps strp_nr buf off zero P =
     (case stripe_csum_by8 E sbi buf zero strps strp_nr off P of
        Inl e \<Rightarrow> Inl e
      | Inr (P, strps, strp_nr, off) \<Rightarrow> stripe_csum_single E sbi buf zero strps strp_nr off P)"

definition nova_update_block_csum ::
    "nova_env \<Rightarrow> sb_info \<Rightarrow> buffer \<Rightarrow> nat \<Rightarrow> nat \<Rightarrow> nat \<Rightarrow> nat \<Rightarrow> bool \<Rightarrow> pm \<Rightarrow> pm res" where
  "nova_update_block_csum E sbi block ptr blocknr offset bytes zero P =
     (let blockoff = nova_get_block_off blocknr;
          strp_index = offset div NOVA_STRIPE_SIZE;
          strp_offset = offset - strp_index * NOVA_STRIPE_SIZE;
          strps = u64_sub (strp_offset + bytes) 1 div NOVA_STRIPE_SIZE + 1;
          strp_nr = (blockoff + offset) div NOVA_STRIPE_SIZE
      in nova_update_stripe_csum E sbi strps strp_nr block (ptr + strp_index * NOVA_STRIPE_SIZE) zero P)"

definition nova_update_pgoff_csum ::
    "nova_env \<Rightarrow> sb_info \<Rightarrow> inode_info_header \<Rightarrow> nat option \<Rightarrow> nat \<Rightarrow> bool \<Rightarrow> pm \<Rightarrow> pm res" where
  "nova_update_pgoff_csum E sbi sih entry pgoff zero P =
     (let count = blk_type_to_size (i_blk_type sih) div NOVA_STRIPE_SIZE;
          blockoff = nova_find_nvmm_block E P sih entry pgoff
      in if blockoff = 0 then Inr P
         else nova_update_stripe_csum E sbi count (blockoff div NOVA_STRIPE_SIZE) (Nvmm blockoff) 0 zero P)"

subsection \<open>Parity\<close>

definition xor_bytes :: "u8 list \<Rightarrow> u8 list \<Rightarrow> u8 list" where
  "xor_bytes = map2 (XOR)"

text \<open>
  The exclusive or of the stripes, \<open>w\<close> bytes at a time: 16 with SSE2, 8 without.
\<close>

definition parity_chunk :: "nat \<Rightarrow> nat \<Rightarrow> nat \<Rightarrow> u8 list \<Rightarrow> u8 list" where
  "parity_chunk w num_strps i block =
     foldl (\<lambda>acc strp. xor_bytes acc (take w (drop (strp * NOVA_STRIPE_SIZE + i) block)))
       (take w (drop i block)) [1..<num_strps]"

definition nova_calculate_block_parity :: "nova_env \<Rightarrow> sb_info \<Rightarrow> u8 list \<Rightarrow> u8 list" where
  "nova_calculate_block_parity E sbi block =
     (let num_strps = blocksize sbi div NOVA_STRIPE_SIZE; w = (if xmm2 E then 16 else 8)
      in concat (map (\<lambda>k. parity_chunk w num_strps (k * w) block) [0..<NOVA_STRIPE_SIZE div w]))"

text \<open>The function returns 0 also when it has done nothing.\<close>

definition nova_update_block_parity ::
    "nova_env \<Rightarrow> sb_info \<Rightarrow> buffer option \<Rightarrow> nat \<Rightarrow> bool \<Rightarrow> pm \<Rightarrow> pm res" where
  "nova_update_block_parity E sbi block blocknr zero P =
     (if \<not> kmalloc_ok E (trace P) NOVA_STRIPE_SIZE then Inr P
      else case block of
             None \<Rightarrow> Inr P
           | Some buf \<Rightarrow>
               (let parity = (if zero then replicate NOVA_STRIPE_SIZE 0
                              else nova_calculate_block_parity E sbi (read_buf P buf 0 (blocksize sbi)))
                in case nova_get_parity_addr E sbi blocknr of
                     None \<Rightarrow> Inl EOOPS
                   | Some nvmmptr \<Rightarrow> Inr (memcpy_to_pmem_nocache nvmmptr parity P)))"

definition nova_update_pgoff_parity ::
    "nova_env \<Rightarrow> sb_info \<Rightarrow> inode_info_header \<Rightarrow> nat option \<Rightarrow> nat \<Rightarrow> bool \<Rightarrow> pm \<Rightarrow> pm res" where
  "nova_update_pgoff_parity E sbi sih entry pgoff zero P =
     (let blockoff = nova_find_nvmm_block E P sih entry pgoff
      in if blockoff = 0 then Inr P
         else nova_update_block_parity E sbi (Some (Nvmm blockoff)) (nova_get_blocknr blockoff) zero P)"

subsection \<open>Checksums and parity of a whole block at once\<close>

text \<open>
  One round of the unrolled loop reads a quad word of every stripe; it feeds them to eight
  checksum accumulators and appends their exclusive or to the parity. The pointer to the block
  moves along and is not reset.
\<close>

fun unrolled_loop :: "bool \<Rightarrow> (nat \<Rightarrow> u8 list) \<Rightarrow> nat \<Rightarrow> u64w list \<Rightarrow> u8 list \<Rightarrow> u64w list \<times> u8 list" where
  "unrolled_loop with_csum qword_at 0 acc parity = (acc, parity)"
| "unrolled_loop with_csum qword_at (Suc n) acc parity =
     (let i = NOVA_STRIPE_SIZE div 8 - Suc n;
          qwd = map (\<lambda>strp. qword_at (strp * NOVA_STRIPE_SIZE + 8 * i)) [0..<8];
          acc = (if with_csum then map2 (\<lambda>q a. crc32q a (le_word q)) qwd acc else acc)
      in unrolled_loop with_csum qword_at n acc (parity @ foldl xor_bytes (hd qwd) (tl qwd)))"

definition unrolled_csum_parity ::
    "nova_env \<Rightarrow> sb_info \<Rightarrow> buffer \<Rightarrow> nat \<Rightarrow> nat \<Rightarrow> bool \<Rightarrow> pm \<Rightarrow> pm res" where
  "unrolled_csum_parity E sbi block blocknr strp_nr unroll_csum P =
     (let (acc, parity) = unrolled_loop (data_csum E \<and> unroll_csum) (\<lambda>off. read_buf P block off 8)
                            (NOVA_STRIPE_SIZE div 8) (replicate 8 1) [];
          P1 = (if data_csum E \<and> unroll_csum then
                  let crc = concat (map (\<lambda>a. csum_bytes (ucast a)) acc)
                  in case (nova_get_data_csum_addr E sbi strp_nr 0, nova_get_data_csum_addr E sbi strp_nr 1) of
                       (Some nvmmptr, Some nvmmptr1) \<Rightarrow>
                         Inr (memcpy_to_pmem_nocache nvmmptr1 crc (memcpy_to_pmem_nocache nvmmptr crc P))
                     | _ \<Rightarrow> Inl EOOPS
                else Inr P)
      in case P1 of
           Inl e \<Rightarrow> Inl e
         | Inr P \<Rightarrow>
             if data_parity E then
               (case nova_get_parity_addr E sbi blocknr of
                  None \<Rightarrow> Inl EOOPS
                | Some nvmmptr \<Rightarrow> Inr (memcpy_to_pmem_nocache nvmmptr parity P))
             else Inr P)"

definition nova_update_block_csum_parity ::
    "nova_env \<Rightarrow> sb_info \<Rightarrow> buffer \<Rightarrow> nat \<Rightarrow> nat \<Rightarrow> nat \<Rightarrow> pm \<Rightarrow> pm res" where
  "nova_update_block_csum_parity E sbi block blocknr offset bytes P =
     (let blockoff = nova_get_block_off blocknr;
          strp_nr = blockoff div NOVA_STRIPE_SIZE;
          strp_offset = offset mod NOVA_STRIPE_SIZE;
          num_strps = u64_sub (strp_offset + bytes) 1 div NOVA_STRIPE_SIZE + 1;
          unroll_parity = (blocksize sbi div NOVA_STRIPE_SIZE = 8 \<and> num_strps = 8);
          unroll_csum = (unroll_parity \<and> xmm4_2 E)
      in if unroll_parity \<and> data_parity E \<and> \<not> kmalloc_ok E (trace P) NOVA_STRIPE_SIZE then Inr P
         else
           let ptr = (if unroll_parity then NOVA_STRIPE_SIZE else 0)
           in case (if unroll_parity then unrolled_csum_parity E sbi block blocknr strp_nr unroll_csum P else Inr P) of
                Inl e \<Rightarrow> Inl e
              | Inr P \<Rightarrow>
                  (case (if data_csum E \<and> \<not> unroll_csum
                         then nova_update_block_csum E sbi block ptr blocknr offset bytes False P else Inr P) of
                     Inl e \<Rightarrow> Inl e
                   | Inr P \<Rightarrow>
                       if data_parity E \<and> \<not> unroll_parity
                       then nova_update_block_parity E sbi (Some block) blocknr False P else Inr P))"

subsection \<open>Restoring a stripe\<close>

text \<open>
  The candidates: the reconstruction with its first \<open>i\<close> bytes taken from the damaged stripe.
\<close>

fun restore_loop :: "nova_env \<Rightarrow> nat \<Rightarrow> nat \<Rightarrow> bool \<Rightarrow> u8 list \<Rightarrow> nat list \<Rightarrow> u8 list \<Rightarrow> (u8 list \<times> u32) option" where
  "restore_loop E csum0 csum1 only_first badstrip [] strip = None"
| "restore_loop E csum0 csum1 only_first badstrip (i # is) strip =
     (let strip = take i badstrip @ drop i strip;
          csum_calc = stripe_crc E strip
      in if unat csum_calc = csum0 \<or> unat csum_calc = csum1 then Some (strip, csum_calc)
         else if only_first then None
         else restore_loop E csum0 csum1 only_first badstrip is strip)"

text \<open>The block with the parity in the place of the damaged stripe; None after a media error.\<close>

definition gather_strips :: "nova_env \<Rightarrow> pm \<Rightarrow> nat \<Rightarrow> nat \<Rightarrow> nat \<Rightarrow> nat \<Rightarrow> u8 list option" where
  "gather_strips E P num_strps blockptr badstrip_id parity =
     (let strips = map (\<lambda>i. memcpy_mcsafe E P
                          (if i = badstrip_id then parity else blockptr + i * NOVA_STRIPE_SIZE) NOVA_STRIPE_SIZE)
                     [0..<num_strps]
      in if None \<in> set strips then None else Some (concat (map the strips)))"

definition nova_restore_data ::
    "nova_env \<Rightarrow> sb_info \<Rightarrow> nat \<Rightarrow> nat \<Rightarrow> u8 list \<Rightarrow> bool \<Rightarrow> nat \<Rightarrow> nat \<Rightarrow> pm \<Rightarrow> pm \<times> u32 res" where
  "nova_restore_data E sbi blocknr badstrip_id badstrip nvmmerr csum0 csum1 P =
     (let blockptr = nova_get_block_off blocknr;
          stripptr = blockptr + badstrip_id * NOVA_STRIPE_SIZE
      in if \<not> kmalloc_ok E (trace P) (blocksize sbi) \<or> \<not> kmalloc_ok E (trace P) NOVA_STRIPE_SIZE
         then (P, Inl ENOMEM)
         else case nova_get_parity_addr E sbi blocknr of
                None \<Rightarrow> (P, Inl EIO)
              | Some parity \<Rightarrow>
                  let num_strps = blocksize sbi div NOVA_STRIPE_SIZE in
                  case gather_strips E P num_strps blockptr badstrip_id parity of
                    None \<Rightarrow> (P, Inl EFAULT)
                  | Some block \<Rightarrow>
                      (case restore_loop E csum0 csum1 (nvmmerr \<or> badstrip_id = num_strps - 1) badstrip
                              [0..<NOVA_STRIPE_SIZE] (nova_calculate_block_parity E sbi block) of
                         None \<Rightarrow> (P, Inl EIO)
                       | Some (strip, csum_good) \<Rightarrow>
                           (memcpy_to_pmem_nocache stripptr strip P, Inr csum_good)))"

subsection \<open>Verification\<close>

text \<open>
  One stripe: the state afterwards and its good checksum, None when the data is lost. The
  contents of the buffer after a media error are not looked at.
\<close>

definition check_stripe ::
    "nova_env \<Rightarrow> sb_info \<Rightarrow> nat \<Rightarrow> nat \<Rightarrow> nat \<Rightarrow> nat \<Rightarrow> nat \<Rightarrow> pm \<Rightarrow> pm \<times> u32 option" where
  "check_stripe E sbi blocknr strp_index strp_ptr csum_nvmm0 csum_nvmm1 P =
     (case memcpy_mcsafe E P strp_ptr NOVA_STRIPE_SIZE of
        Some strip \<Rightarrow>
          (let csum_calc = stripe_crc E strip in
           if unat csum_calc = csum_nvmm0 \<or> unat csum_calc = csum_nvmm1 then (P, Some csum_calc)
           else if \<not> data_parity E then (P, None)
           else case nova_restore_data E sbi blocknr strp_index strip False csum_nvmm0 csum_nvmm1 P of
                  (P, Inl e) \<Rightarrow> (P, None)
                | (P, Inr csum_calc) \<Rightarrow> (P, Some csum_calc))
      | None \<Rightarrow>
          if \<not> data_parity E then (P, None)
          else case nova_restore_data E sbi blocknr strp_index [] True csum_nvmm0 csum_nvmm1 P of
                 (P, Inl e) \<Rightarrow> (P, None)
               | (P, Inr csum_calc) \<Rightarrow> (P, Some csum_calc))"

definition repair_csums :: "nat \<Rightarrow> nat \<Rightarrow> nat \<Rightarrow> nat \<Rightarrow> u32 \<Rightarrow> pm \<Rightarrow> pm" where
  "repair_csums csum_addr0 csum_addr1 csum_nvmm0 csum_nvmm1 csum_calc P =
     (if csum_nvmm0 \<noteq> csum_nvmm1 then
        (let P = (if csum_nvmm0 \<noteq> unat csum_calc
                  then memcpy_to_pmem_nocache csum_addr0 (csum_bytes csum_calc) P else P)
         in if csum_nvmm1 \<noteq> unat csum_calc
            then memcpy_to_pmem_nocache csum_addr1 (csum_bytes csum_calc) P else P)
      else P)"

fun verify_stripes ::
    "nova_env \<Rightarrow> sb_info \<Rightarrow> nat \<Rightarrow> nat \<Rightarrow> nat \<Rightarrow> nat \<Rightarrow> nat \<Rightarrow> nat \<Rightarrow> pm \<Rightarrow> (pm \<times> bool) res" where
  "verify_stripes E sbi blksize 0 blocknr strp_nr strp_index strp_ptr P = Inr (P, True)"
| "verify_stripes E sbi blksize (Suc strps) blocknr strp_nr strp_index strp_ptr P =
     (case (nova_get_data_csum_addr E sbi strp_nr 0, nova_get_data_csum_addr E sbi strp_nr 1) of
        (Some csum_addr0, Some csum_addr1) \<Rightarrow>
          (let csum_nvmm0 = read_le 4 P csum_addr0; csum_nvmm1 = read_le 4 P csum_addr1 in
           case check_stripe E sbi blocknr strp_index strp_ptr csum_nvmm0 csum_nvmm1 P of
             (P, None) \<Rightarrow> Inr (P, False)
           | (P, Some csum_calc) \<Rightarrow>
               let P = repair_csums csum_addr0 csum_addr1 csum_nvmm0 csum_nvmm1 csum_calc P;
                   wrap = (strp_index + 1 = blksize div NOVA_STRIPE_SIZE)
               in verify_stripes E sbi blksize strps (if wrap then blocknr + 1 else blocknr) (strp_nr + 1)
                    (if wrap then 0 else strp_index + 1) (strp_ptr + NOVA_STRIPE_SIZE) P)
      | _ \<Rightarrow> Inl EOOPS)"

definition nova_verify_data_csum ::
    "nova_env \<Rightarrow> sb_info \<Rightarrow> inode_info_header \<Rightarrow> nat \<Rightarrow> nat \<Rightarrow> nat \<Rightarrow> pm \<Rightarrow> (pm \<times> bool) res" where
  "nova_verify_data_csum E sbi sih blocknr offset bytes P =
     (let strps = u64_sub (offset + bytes) 1 div NOVA_STRIPE_SIZE - offset div NOVA_STRIPE_SIZE + 1;
          blockoff = nova_get_block_off blocknr;
          strp_index = offset div NOVA_STRIPE_SIZE
      in if \<not> kmalloc_ok E (trace P) NOVA_STRIPE_SIZE then Inr (P, False)
         else verify_stripes E sbi (blk_type_to_size (i_blk_type sih)) strps blocknr
                ((blockoff + offset) div NOVA_STRIPE_SIZE) strp_index
                (blockoff + strp_index * NOVA_STRIPE_SIZE) P)"

subsection \<open>Truncation\<close>

definition nova_update_truncated_block_csum ::
    "nova_env \<Rightarrow> sb_info \<Rightarrow> inode_info_header \<Rightarrow> nat \<Rightarrow> pm \<Rightarrow> pm \<times> unit res" where
  "nova_update_truncated_block_csum E sbi sih newsize P =
     (let offset = newsize mod blocksize sbi;
          len = blocksize sbi - offset;
          nvmm = nova_find_nvmm_block E P sih None (newsize div blocksize sbi)
      in if nvmm = 0 then (P, Inl EFAULT)
         else
           let strp_index = offset div NOVA_STRIPE_SIZE;
               strp_offset = offset - strp_index * NOVA_STRIPE_SIZE;
               strps = (strp_offset + len - 1) div NOVA_STRIPE_SIZE + 1;
               strp_nr = (nvmm + offset) div NOVA_STRIPE_SIZE;
               strp_addr = nvmm + strp_index * NOVA_STRIPE_SIZE;
               zero_rest = (\<lambda>strps strp_nr P. if 0 < strps
                  then (case nova_update_stripe_csum E sbi strps strp_nr (Dram []) 0 True P of
                          Inl e \<Rightarrow> (P, Inl e) | Inr P \<Rightarrow> (P, Inr ()))
                  else (P, Inr ()))
           in if 0 < strp_offset then
                if \<not> kmalloc_ok E (trace P) NOVA_STRIPE_SIZE then (P, Inl ENOMEM)
                else case memcpy_mcsafe E P strp_addr strp_offset of
                       None \<Rightarrow> (P, Inl EIO)
                     | Some bs \<Rightarrow>
                         let tail_strp = bs @ replicate (NOVA_STRIPE_SIZE - strp_offset) 0
                         in case nova_update_stripe_csum E sbi 1 strp_nr (Dram tail_strp) 0 False P of
                              Inl e \<Rightarrow> (P, Inl e)
                            | Inr P \<Rightarrow> zero_rest (strps - 1) (strp_nr + 1) P
              else zero_rest strps strp_nr P)"

definition nova_update_truncated_block_parity ::
    "nova_env \<Rightarrow> sb_info \<Rightarrow> inode_info_header \<Rightarrow> nat \<Rightarrow> pm \<Rightarrow> pm \<times> unit res" where
  "nova_update_truncated_block_parity E sbi sih newsize P =
     (let nvmm = nova_find_nvmm_block E P sih None (newsize div blocksize sbi)
      in if nvmm = 0 then (P, Inl EFAULT)
         else if \<not> kmalloc_ok E (trace P) (blocksize sbi) then (P, Inl ENOMEM)
         else case memcpy_mcsafe E P nvmm (blocksize sbi) of
                None \<Rightarrow> (P, Inl EIO)
              | Some block \<Rightarrow>
                  (case nova_update_block_parity E sbi (Some (Dram block)) (nova_get_blocknr nvmm) False P of
                     Inl e \<Rightarrow> (P, Inl e)
                   | Inr P \<Rightarrow> (P, Inr ())))"

end
