(* ===== verification/Data_Inv.thy ===== *)
theory Data_Inv
  imports Data_Protect Checksum_Inv
begin

text \<open>
  The algebra of parity and checksums: the two ways to compute the parity agree with the
  exclusive or of the stripes, a stripe is the exclusive or of the others and the parity, the
  unrolled checksum is the plain one, and where the checksums of a block are.
\<close>

subsection \<open>Exclusive or of a list\<close>

definition xor_list :: "u8 list \<Rightarrow> u8" where
  "xor_list xs = foldr (XOR) xs 0"

lemma xor_list_simps [simp]: "xor_list [] = 0" "xor_list (x # xs) = x XOR xor_list xs"
  by (simp_all add: xor_list_def)

lemma foldl_xor: "foldl (XOR) a xs = a XOR xor_list xs" for a :: u8
  by (induction xs arbitrary: a) (simp_all add: xor.assoc)

lemma xor_list_append: "xor_list (xs @ ys) = xor_list xs XOR xor_list ys"
  by (induction xs) (simp_all add: xor.assoc)

lemma xor_list_update: "b < length xs \<Longrightarrow> xor_list (xs[b := v]) = v XOR (xs ! b XOR xor_list xs)"
proof (induction xs arbitrary: b)
  case (Cons x xs)
  then show ?case by (cases b) (simp_all add: xor.left_commute xor.assoc [symmetric])
qed simp

text \<open>The lost element is the exclusive or of the others and the parity.\<close>

lemma xor_list_recover: "b < length xs \<Longrightarrow> xor_list (xs[b := xor_list xs]) = xs ! b"
  by (simp add: xor_list_update xor.left_commute [of "xor_list xs"])

subsection \<open>Parity\<close>

abbreviation strip_of :: "nat \<Rightarrow> u8 list \<Rightarrow> u8 list" where
  "strip_of s block \<equiv> take 512 (drop (s * 512) block)"

definition parity_of :: "nat \<Rightarrow> u8 list \<Rightarrow> u8 list" where
  "parity_of n block = map (\<lambda>i. xor_list (map (\<lambda>s. block ! (s * 512 + i)) [0..<n])) [0..<512]"

lemma length_parity_of [simp]: "length (parity_of n block) = 512"
  by (simp add: parity_of_def)

lemma length_xor_bytes: "length (xor_bytes xs ys) = min (length xs) (length ys)"
  by (simp add: xor_bytes_def)

lemma xor_bytes_nth: "j < length xs \<Longrightarrow> j < length ys \<Longrightarrow> xor_bytes xs ys ! j = xs ! j XOR ys ! j"
  by (simp add: xor_bytes_def)

lemma foldl_xor_bytes:
  assumes "length a = w" "\<forall>s \<in> set ss. length (f s) = w"
  shows "foldl (\<lambda>acc s. xor_bytes acc (f s)) a ss = map (\<lambda>j. a ! j XOR xor_list (map (\<lambda>s. f s ! j) ss)) [0..<w]"
  using assms
proof (induction ss arbitrary: a)
  case Nil
  then show ?case by (auto intro: map_nth [symmetric])
next
  case (Cons s ss)
  have len: "length (xor_bytes a (f s)) = w" using Cons.prems by (simp add: length_xor_bytes)
  then show ?case
    using Cons.IH [OF len] Cons.prems by (simp add: xor_bytes_nth xor.assoc)
qed

lemma parity_chunk_eq:
  assumes "length block = n * 512" "0 < n" "i + w \<le> 512"
  shows "parity_chunk w n i block = map (\<lambda>j. xor_list (map (\<lambda>s. block ! (s * 512 + (i + j))) [0..<n])) [0..<w]"
proof -
  have room: "s * 512 + 512 \<le> length block" if "s < n" for s
    using that assms(1) mult_le_mono1 [of "Suc s" n 512] by simp
  have "length (take w (drop (s * 512 + i) block)) = w" if "s < n" for s
    using room [OF that] assms(3) by simp
  moreover have "length (take w (drop i block)) = w" using room [OF assms(2)] assms(3) by simp
  ultimately have "parity_chunk w n i block =
     map (\<lambda>j. take w (drop i block) ! j XOR
        xor_list (map (\<lambda>s. take w (drop (s * 512 + i) block) ! j) [1..<n])) [0..<w]"
    unfolding parity_chunk_def NOVA_STRIPE_SIZE_def by (intro foldl_xor_bytes) auto
  also have "\<dots> = map (\<lambda>j. xor_list (map (\<lambda>s. block ! (s * 512 + (i + j))) [0..<n])) [0..<w]"
  proof (rule map_cong)
    fix j assume "j \<in> set [0..<w]"
    then have j: "j < w" by simp
    have "map (\<lambda>s. take w (drop (s * 512 + i) block) ! j) [1..<n] = map (\<lambda>s. block ! (s * 512 + (i + j))) [1..<n]"
    proof (rule map_cong)
      fix s assume "s \<in> set [1..<n]"
      then have "s * 512 + 512 \<le> length block" using room by simp
      then show "take w (drop (s * 512 + i) block) ! j = block ! (s * 512 + (i + j))"
        using j assms(3) by (simp add: add.assoc)
    qed simp
    moreover have "take w (drop i block) ! j = block ! (0 * 512 + (i + j))"
      using room [OF assms(2)] j assms(3) by simp
    moreover have "[0..<n] = 0 # [1..<n]" using assms(2) by (simp add: upt_conv_Cons)
    ultimately show "take w (drop i block) ! j XOR xor_list (map (\<lambda>s. take w (drop (s * 512 + i) block) ! j) [1..<n]) =
       xor_list (map (\<lambda>s. block ! (s * 512 + (i + j))) [0..<n])" by (simp only: list.map xor_list_simps)
  qed simp
  finally show ?thesis .
qed

lemma concat_chunks: "concat (map (\<lambda>k. map (\<lambda>j. g (k * w + j)) [0..<w]) [0..<m]) = map g [0..<m * w]"
proof (induction m)
  case (Suc m)
  have "[0..<Suc m * w] = [0..<m * w] @ [m * w..<m * w + w]"
    by (metis add.commute mult_Suc upt_add_eq_append zero_le)
  moreover have "map g [m * w..<m * w + w] = map (\<lambda>j. g (m * w + j)) [0..<w]"
    by (rule nth_equalityI) auto
  ultimately show ?case using Suc.IH by simp
qed simp

lemma calculate_parity:
  assumes "length block = blocksize sbi" "blocksize sbi = n * 512" "0 < n"
  shows "nova_calculate_block_parity E sbi block = parity_of n block"
proof -
  define w :: nat where "w = (if xmm2 E then 16 else 8)"
  define g where "g = (\<lambda>i. xor_list (map (\<lambda>s. block ! (s * 512 + i)) [0..<n]))"
  have w: "512 = (512 div w) * w" by (simp add: w_def)
  have "parity_chunk w n (k * w) block = map (\<lambda>j. g (k * w + j)) [0..<w]" if "k < 512 div w" for k
  proof -
    have "Suc k * w \<le> 512 div w * w" using that by (intro mult_le_mono1) simp
    then have "k * w + w \<le> 512" using w by simp
    then show ?thesis unfolding g_def using assms by (intro parity_chunk_eq) simp_all
  qed
  then have "concat (map (\<lambda>k. parity_chunk w n (k * w) block) [0..<512 div w]) =
      concat (map (\<lambda>k. map (\<lambda>j. g (k * w + j)) [0..<w]) [0..<512 div w])"
    by (intro arg_cong [where f = concat] map_cong) simp_all
  also have "\<dots> = map g [0..<512 div w * w]" by (rule concat_chunks)
  also have "512 div w * w = 512" by (rule w [symmetric])
  finally show ?thesis
    using assms(2)
    unfolding nova_calculate_block_parity_def parity_of_def w_def [symmetric] g_def [symmetric] Let_def NOVA_STRIPE_SIZE_def
    by simp
qed

text \<open>A block in which one stripe is replaced by the parity has that stripe as its parity.\<close>

lemma parity_recovers:
  assumes "length block = n * 512" "b < n" "length block' = n * 512"
    and "\<And>s. s < n \<Longrightarrow> s \<noteq> b \<Longrightarrow> strip_of s block' = strip_of s block" "strip_of b block' = parity_of n block"
  shows "parity_of n block' = strip_of b block"
proof (rule nth_equalityI)
  have room: "s * 512 + 512 \<le> n * 512" if "s < n" for s using that mult_le_mono1 [of "Suc s" n 512] by simp
  show "length (parity_of n block') = length (strip_of b block)" using room [OF assms(2)] assms(1) by simp
  fix i assume "i < length (parity_of n block')"
  then have i: "i < 512" by simp
  let ?xs = "map (\<lambda>s. block ! (s * 512 + i)) [0..<n]"
  have at: "bl ! (s * 512 + i) = strip_of s bl ! i" if "s < n" "length bl = n * 512" for s bl
    using room [OF that(1)] that(2) i by simp
  have "map (\<lambda>s. block' ! (s * 512 + i)) [0..<n] = ?xs[b := xor_list ?xs]"
  proof (rule nth_equalityI)
    fix s assume "s < length (map (\<lambda>s. block' ! (s * 512 + i)) [0..<n])"
    then have s: "s < n" by simp
    show "map (\<lambda>s. block' ! (s * 512 + i)) [0..<n] ! s = ?xs[b := xor_list ?xs] ! s"
    proof (cases "s = b")
      case True
      then have "block' ! (s * 512 + i) = parity_of n block ! i" using at [OF s assms(3)] assms(5) by simp
      then show ?thesis using True s i by (simp add: parity_of_def)
    next
      case False
      then show ?thesis using at [OF s assms(3)] at [OF s assms(1)] assms(4) [OF s False] s by simp
    qed
  qed simp
  then show "parity_of n block' ! i = strip_of b block ! i"
    using xor_list_recover [of b ?xs] assms(2) i at [OF assms(2,1)] by (simp add: parity_of_def)
qed

subsection \<open>Restoring a stripe\<close>

lemma pieces_of_concat:
  assumes "\<forall>i < n. length (f i) = w"
  shows "length (concat (map f [0..<n])) = n * w \<and> (\<forall>s < n. take w (drop (s * w) (concat (map f [0..<n]))) = f s)"
  using assms
proof (induction n)
  case (Suc n)
  let ?xs = "concat (map f [0..<n])"
  have IH: "length ?xs = n * w" "\<forall>s < n. take w (drop (s * w) ?xs) = f s" using Suc by auto
  have "take w (drop (s * w) (?xs @ f n)) = f s" if "s < Suc n" for s
  proof (cases "s = n")
    case True
    then show ?thesis using IH(1) Suc.prems by simp
  next
    case False
    then have "s < n" using that by simp
    moreover from this have "s * w + w \<le> n * w" using mult_le_mono1 [of "Suc s" n w] by simp
    ultimately show ?thesis using IH by simp
  qed
  then show ?case using IH(1) Suc.prems by simp
qed simp

lemmas strip_of_concat = pieces_of_concat [where w = 512]

lemma gather_ok:
  assumes "\<forall>i < n. memcpy_mcsafe E P (if i = b then pa else bp + i * 512) 512 = Some (f i)"
  shows "gather_strips E P n bp b pa = Some (concat (map f [0..<n]))"
proof -
  let ?g = "\<lambda>i. memcpy_mcsafe E P (if i = b then pa else bp + i * 512) 512"
  have m: "map ?g [0..<n] = map (\<lambda>i. Some (f i)) [0..<n]" using assms by simp
  have "map the (map ?g [0..<n]) = map f [0..<n]" unfolding m by simp
  moreover have "None \<notin> set (map ?g [0..<n])" unfolding m by auto
  ultimately show ?thesis
    unfolding gather_strips_def NOVA_STRIPE_SIZE_def Let_def by (simp only: if_False)
qed

lemma strips_make_block: "length B = n * 512 \<Longrightarrow> s < n \<Longrightarrow> length (strip_of s B) = 512"
  using mult_le_mono1 [of "Suc s" n 512] by simp

lemma restore_exact:
  assumes bs: "blocksize sbi = 4096" and B: "length B = 4096" and b: "b < 8"
    and mem: "\<forall>tr n. kmalloc_ok E tr n"
    and par: "nova_get_parity_addr E sbi blocknr = Some pa" "memcpy_mcsafe E P pa 512 = Some (parity_of 8 B)"
    and rest: "\<forall>i < 8. i \<noteq> b \<longrightarrow> memcpy_mcsafe E P (nova_get_block_off blocknr + i * 512) 512 = Some (strip_of i B)"
    and crc: "c0 = unat (stripe_crc E (strip_of b B))"
  shows "nova_restore_data E sbi blocknr b bad err c0 c1 P =
    (memcpy_to_pmem_nocache (nova_get_block_off blocknr + b * 512) (strip_of b B) P, Inr (stripe_crc E (strip_of b B)))"
proof -
  let ?bp = "nova_get_block_off blocknr"
  define f where "f i = (if i = b then parity_of 8 B else strip_of i B)" for i
  define block where "block = concat (map f [0..<8])"
  have len: "\<forall>i < 8. length (f i) = 512" using strips_make_block [of B 8] B by (simp add: f_def)
  have g: "gather_strips E P 8 ?bp b pa = Some block"
    unfolding block_def using rest par(2) by (intro gather_ok) (auto simp: f_def)
  have bl: "length block = 8 * 512" "\<And>s. s < 8 \<Longrightarrow> strip_of s block = f s"
    using strip_of_concat [OF len] unfolding block_def by auto
  have "parity_of 8 block = strip_of b B"
    using B b bl by (intro parity_recovers) (simp_all add: f_def)
  then have "nova_calculate_block_parity E sbi block = strip_of b B"
    using calculate_parity [of block sbi 8 E] bl(1) bs by simp
  moreover have "restore_loop E c0 c1 once bad [0..<512] (strip_of b B) = Some (strip_of b B, stripe_crc E (strip_of b B))" for once
  proof -
    have "[0..<512] = 0 # [1..<512::nat]" by (simp add: upt_conv_Cons)
    then show ?thesis using crc by (simp only: restore_loop.simps) (simp add: Let_def)
  qed
  ultimately show ?thesis
    using mem par(1) g bs by (simp add: nova_restore_data_def NOVA_STRIPE_SIZE_def Let_def)
qed

subsection \<open>A protected block\<close>

text \<open>The checksums of the stripes and the parity of block \<open>blocknr\<close> are those of the content \<open>B\<close>.\<close>

definition csums_of :: "nova_env \<Rightarrow> sb_info \<Rightarrow> nat \<Rightarrow> u8 list \<Rightarrow> pm \<Rightarrow> bool" where
  "csums_of E sbi blocknr B P \<longleftrightarrow> (\<forall>i < 8. \<exists>a0 a1. nova_get_data_csum_addr E sbi (blocknr * 8 + i) 0 = Some a0 \<and>
     nova_get_data_csum_addr E sbi (blocknr * 8 + i) 1 = Some a1 \<and>
     read_le 4 P a0 = unat (stripe_crc E (strip_of i B)) \<and> read_le 4 P a1 = unat (stripe_crc E (strip_of i B)))"

definition parity_stored :: "nova_env \<Rightarrow> sb_info \<Rightarrow> nat \<Rightarrow> u8 list \<Rightarrow> pm \<Rightarrow> bool" where
  "parity_stored E sbi blocknr B P \<longleftrightarrow> (\<exists>pa. nova_get_parity_addr E sbi blocknr = Some pa \<and>
     memcpy_mcsafe E P pa 512 = Some (parity_of 8 B))"

text \<open>Checksums and parity lie outside the block.\<close>

definition kept_apart :: "nova_env \<Rightarrow> sb_info \<Rightarrow> nat \<Rightarrow> bool" where
  "kept_apart E sbi blocknr \<longleftrightarrow> (let bp = blocknr * 4096 in
     (\<forall>i < 8. \<forall>r a. nova_get_data_csum_addr E sbi (blocknr * 8 + i) r = Some a \<longrightarrow> a + 4 \<le> bp \<or> bp + 4096 \<le> a) \<and>
     (\<forall>a. nova_get_parity_addr E sbi blocknr = Some a \<longrightarrow> a + 512 \<le> bp \<or> bp + 4096 \<le> a))"

lemma block_off_exact: "blocknr < 2 ^ 52 \<Longrightarrow> nova_get_block_off blocknr = blocknr * 4096"
  by (simp add: nova_get_block_off_def PAGE_SHIFT_def push_bit_eq_mult)

lemma mcsafe_later:
  assumes "\<forall>ev tr a. media_ok E tr a \<longrightarrow> media_ok E (ev # tr) a" "memcpy_mcsafe E P a n = Some x"
    and "a + n \<le> c \<or> c + length bs \<le> a"
  shows "memcpy_mcsafe E (memcpy_to_pmem_nocache c bs P) a n = Some x"
proof -
  have "get_bytes (put c bs (mem P)) a n = get_bytes (mem P) a n" using assms(3) by (rule get_put_other)
  then show ?thesis using assms(1,2) by (auto simp: mcsafe_Some memcpy_to_pmem_nocache_def nt_store_def)
qed

text \<open>Writing inside the block keeps its protection.\<close>

lemma protection_kept:
  assumes E: "\<forall>ev tr a. media_ok E tr a \<longrightarrow> media_ok E (ev # tr) a" and ap: "kept_apart E sbi blocknr"
    and c: "blocknr * 4096 \<le> c" "c + length bs \<le> blocknr * 4096 + 4096"
  shows "csums_of E sbi blocknr B P \<Longrightarrow> csums_of E sbi blocknr B (memcpy_to_pmem_nocache c bs P)"
    and "parity_stored E sbi blocknr B P \<Longrightarrow> parity_stored E sbi blocknr B (memcpy_to_pmem_nocache c bs P)"
proof -
  have r: "read_le 4 (memcpy_to_pmem_nocache c bs P) a = read_le 4 P a"
    if "i < 8" "nova_get_data_csum_addr E sbi (blocknr * 8 + i) r = Some a" for i r a
  proof -
    have "a + 4 \<le> blocknr * 4096 \<or> blocknr * 4096 + 4096 \<le> a"
      using ap that unfolding kept_apart_def Let_def by blast
    then have "get_bytes (put c bs (mem P)) a 4 = get_bytes (mem P) a 4"
      using c by (intro get_put_other) auto
    then show ?thesis by (simp add: read_le_def)
  qed
  then show "csums_of E sbi blocknr B P \<Longrightarrow> csums_of E sbi blocknr B (memcpy_to_pmem_nocache c bs P)"
    unfolding csums_of_def by metis
  assume "parity_stored E sbi blocknr B P"
  then obtain pa where pa: "nova_get_parity_addr E sbi blocknr = Some pa" "memcpy_mcsafe E P pa 512 = Some (parity_of 8 B)"
    unfolding parity_stored_def by blast
  then have "pa + 512 \<le> blocknr * 4096 \<or> blocknr * 4096 + 4096 \<le> pa"
    using ap unfolding kept_apart_def Let_def by blast
  then have "memcpy_mcsafe E (memcpy_to_pmem_nocache c bs P) pa 512 = Some (parity_of 8 B)"
    using c by (intro mcsafe_later [OF E pa(2)]) auto
  then show "parity_stored E sbi blocknr B (memcpy_to_pmem_nocache c bs P)"
    using pa(1) unfolding parity_stored_def by blast
qed

subsection \<open>Verification of a block\<close>

text \<open>Stripe \<open>b\<close> may be damaged in a way that the media or the checksum shows.\<close>

definition damage_shows :: "nova_env \<Rightarrow> nat \<Rightarrow> u8 list \<Rightarrow> nat \<Rightarrow> pm \<Rightarrow> bool" where
  "damage_shows E bp B b P \<longleftrightarrow> (\<forall>s. memcpy_mcsafe E P (bp + b * 512) 512 = Some s \<longrightarrow>
     s = strip_of b B \<or> stripe_crc E s \<noteq> stripe_crc E (strip_of b B))"

lemma check_intact_stripe:
  assumes "memcpy_mcsafe E P a 512 = Some s" "c = unat (stripe_crc E s)"
  shows "check_stripe E sbi blocknr i a c c P = (P, Some (stripe_crc E s))"
  using assms by (simp add: check_stripe_def NOVA_STRIPE_SIZE_def)

lemma check_damaged_stripe:
  assumes R: "blocksize sbi = 4096" "length B = 4096" "b < 8" "\<forall>tr n. kmalloc_ok E tr n" "blocknr < 2 ^ 52" "data_parity E"
    and par: "parity_stored E sbi blocknr B P"
    and rest: "\<forall>i < 8. i \<noteq> b \<longrightarrow> memcpy_mcsafe E P (blocknr * 4096 + i * 512) 512 = Some (strip_of i B)"
    and d: "damage_shows E (blocknr * 4096) B b P" and c: "c = unat (stripe_crc E (strip_of b B))"
  shows "check_stripe E sbi blocknr b (blocknr * 4096 + b * 512) c c P =
    (if memcpy_mcsafe E P (blocknr * 4096 + b * 512) 512 = Some (strip_of b B) then P
     else memcpy_to_pmem_nocache (blocknr * 4096 + b * 512) (strip_of b B) P, Some (stripe_crc E (strip_of b B)))"
proof -
  let ?a = "blocknr * 4096 + b * 512"
  obtain pa where pa: "nova_get_parity_addr E sbi blocknr = Some pa" "memcpy_mcsafe E P pa 512 = Some (parity_of 8 B)"
    using par unfolding parity_stored_def by blast
  have off: "nova_get_block_off blocknr = blocknr * 4096" by (rule block_off_exact [OF R(5)])
  have restore: "nova_restore_data E sbi blocknr b bad err c c P =
      (memcpy_to_pmem_nocache ?a (strip_of b B) P, Inr (stripe_crc E (strip_of b B)))" for bad err
    using restore_exact [OF R(1-4) pa] rest c unfolding off by blast
  show ?thesis
  proof (cases "memcpy_mcsafe E P ?a 512")
    case None
    then show ?thesis using restore R(6) by (simp add: check_stripe_def NOVA_STRIPE_SIZE_def)
  next
    case (Some s)
    show ?thesis
    proof (cases "s = strip_of b B")
      case True
      then show ?thesis using Some c check_intact_stripe by simp
    next
      case False
      then have "stripe_crc E s \<noteq> stripe_crc E (strip_of b B)" using d Some unfolding damage_shows_def by blast
      then have "unat (stripe_crc E s) \<noteq> c" using c by (simp add: unsigned_word_eqI word_unat_eq_iff)
      then show ?thesis using Some False restore R(6) by (simp add: check_stripe_def NOVA_STRIPE_SIZE_def)
    qed
  qed
qed

lemma verify_step:
  assumes "csums_of E sbi blocknr B P" "k < 8"
    and "check_stripe E sbi blocknr k a (unat (stripe_crc E (strip_of k B))) (unat (stripe_crc E (strip_of k B))) P = (P', Some c)"
  shows "verify_stripes E sbi 4096 (Suc m) blocknr (blocknr * 8 + k) k a P =
     verify_stripes E sbi 4096 m (if k = 7 then blocknr + 1 else blocknr) (blocknr * 8 + Suc k)
       (if k = 7 then 0 else Suc k) (a + 512) P'"
proof -
  obtain a0 a1 where "nova_get_data_csum_addr E sbi (blocknr * 8 + k) 0 = Some a0"
     "nova_get_data_csum_addr E sbi (blocknr * 8 + k) 1 = Some a1"
     "read_le 4 P a0 = unat (stripe_crc E (strip_of k B))" "read_le 4 P a1 = unat (stripe_crc E (strip_of k B))"
    using assms(1,2) unfolding csums_of_def by blast
  then show ?thesis using assms(3) by (simp add: repair_csums_def NOVA_STRIPE_SIZE_def Let_def)
qed

declare verify_stripes.simps(2) [simp del]

lemma verify_intact_rest:
  assumes "csums_of E sbi blocknr B P" "k + m = 8"
    and "\<forall>i < 8. k \<le> i \<longrightarrow> memcpy_mcsafe E P (blocknr * 4096 + i * 512) 512 = Some (strip_of i B)"
  shows "verify_stripes E sbi 4096 m blocknr (blocknr * 8 + k) k (blocknr * 4096 + k * 512) P = Inr (P, True)"
  using assms
proof (induction m arbitrary: k)
  case (Suc m)
  then have k: "k < 8" by simp
  then have "memcpy_mcsafe E P (blocknr * 4096 + k * 512) 512 = Some (strip_of k B)" using Suc.prems(3) by simp
  from verify_step [OF Suc.prems(1) k check_intact_stripe [OF this refl]]
  have step: "verify_stripes E sbi 4096 (Suc m) blocknr (blocknr * 8 + k) k (blocknr * 4096 + k * 512) P =
     verify_stripes E sbi 4096 m (if k = 7 then blocknr + 1 else blocknr) (blocknr * 8 + Suc k)
       (if k = 7 then 0 else Suc k) (blocknr * 4096 + Suc k * 512) P" by (simp add: ac_simps)
  show ?case
  proof (cases "k = 7")
    case True
    then show ?thesis using Suc.prems(2) step by simp
  next
    case False
    then show ?thesis using Suc.IH [of "Suc k"] Suc.prems step by simp
  qed
qed simp

text \<open>What the verification makes of memory when stripe \<open>b\<close> is damaged.\<close>

definition repaired :: "nova_env \<Rightarrow> nat \<Rightarrow> u8 list \<Rightarrow> nat \<Rightarrow> pm \<Rightarrow> pm" where
  "repaired E bp B b P = (if memcpy_mcsafe E P (bp + b * 512) 512 = Some (strip_of b B) then P
     else memcpy_to_pmem_nocache (bp + b * 512) (strip_of b B) P)"

lemma verify_damaged:
  assumes E: "\<forall>ev tr a. media_ok E tr a \<longrightarrow> media_ok E (ev # tr) a"
    and R: "blocksize sbi = 4096" "length B = 4096" "b < 8" "\<forall>tr n. kmalloc_ok E tr n" "blocknr < 2 ^ 52" "data_parity E"
    and ap: "kept_apart E sbi blocknr" and cs: "csums_of E sbi blocknr B P" and par: "parity_stored E sbi blocknr B P"
    and rest: "\<forall>i < 8. i \<noteq> b \<longrightarrow> memcpy_mcsafe E P (blocknr * 4096 + i * 512) 512 = Some (strip_of i B)"
    and d: "damage_shows E (blocknr * 4096) B b P" and k: "k + m = 8" "k \<le> b"
  shows "verify_stripes E sbi 4096 m blocknr (blocknr * 8 + k) k (blocknr * 4096 + k * 512) P =
     Inr (repaired E (blocknr * 4096) B b P, True)"
  using k
proof (induction m arbitrary: k)
  case 0
  then show ?case using R(3) by simp
next
  case (Suc m)
  let ?bp = "blocknr * 4096"
  show ?case
  proof (cases "k = b")
    case False
    then have k: "k < b" "k < 8" "k \<noteq> 7" using Suc.prems R(3) by auto
    then have "memcpy_mcsafe E P (?bp + k * 512) 512 = Some (strip_of k B)" using rest False by blast
    from verify_step [OF cs k(2) check_intact_stripe [OF this refl]]
    show ?thesis using Suc.IH [of "Suc k"] Suc.prems k by (simp add: ac_simps)
  next
    case True
    let ?P' = "repaired E ?bp B b P"
    have st: "length (strip_of b B) = 512" "?bp \<le> ?bp + b * 512" "?bp + b * 512 + 512 \<le> ?bp + 4096"
      using R(2,3) strips_make_block [of B 8 b] mult_le_mono1 [of "Suc b" 8 512] by simp_all
    have cs': "csums_of E sbi blocknr B ?P'"
      using protection_kept(1) [OF E ap, of "?bp + b * 512" "strip_of b B"] st cs by (simp add: repaired_def)
    have "memcpy_mcsafe E ?P' (?bp + i * 512) 512 = Some (strip_of i B)" if "i < 8" "Suc b \<le> i" for i
    proof -
      have "?bp + b * 512 + 512 \<le> ?bp + i * 512" using mult_le_mono1 [OF that(2), of 512] by simp
      then show ?thesis using mcsafe_later [OF E, of P "?bp + i * 512" 512 "strip_of i B" "?bp + b * 512" "strip_of b B"]
          rest that st by (simp add: repaired_def)
    qed
    then have tail: "verify_stripes E sbi 4096 m blocknr (blocknr * 8 + Suc b) (Suc b) (?bp + Suc b * 512) ?P' = Inr (?P', True)"
      if "b \<noteq> 7" using that Suc.prems True by (intro verify_intact_rest [OF cs']) auto
    have "check_stripe E sbi blocknr b (?bp + b * 512) (unat (stripe_crc E (strip_of b B))) (unat (stripe_crc E (strip_of b B))) P =
        (?P', Some (stripe_crc E (strip_of b B)))"
      using check_damaged_stripe [OF R par rest d refl] by (simp add: repaired_def)
    from verify_step [OF cs R(3) this]
    have "verify_stripes E sbi 4096 (Suc m) blocknr (blocknr * 8 + b) b (?bp + b * 512) P =
      verify_stripes E sbi 4096 m (if b = 7 then blocknr + 1 else blocknr) (blocknr * 8 + Suc b)
        (if b = 7 then 0 else Suc b) (?bp + Suc b * 512) ?P'" by (simp add: ac_simps)
    then show ?thesis using tail True Suc.prems by (cases "b = 7") simp_all
  qed
qed

subsection \<open>Where the checksums of a block are\<close>

lemma csum_addr_in_block:
  assumes "i < 8"
  shows "nova_get_data_csum_addr E sbi (blocknr * 8 + i) r =
    map_option (\<lambda>a. a + 4 * i) (nova_get_data_csum_addr E sbi (blocknr * 8) r)"
proof -
  let ?idx = "blocknr div per_list_blocks sbi"
  define rel where "rel = blocknr - ?idx * per_list_blocks sbi"
  have "?idx * per_list_blocks sbi \<le> blocknr" by simp
  then have rel: "blocknr * 8 + i - ?idx * per_list_blocks sbi * 8 = rel * 8 + i"
    "blocknr * 8 - ?idx * per_list_blocks sbi * 8 = rel * 8" by (simp_all add: rel_def diff_mult_distrib)
  have d: "(blocknr * 8 + i) div 8 = blocknr" using assms by simp
  have "4 * (rel * 8 + i) = 4 * i + 32 * rel" by simp
  then have "4 * (rel * 8 + i) div 4096 = (4 * i + 32 * rel) div (32 * 128)" by simp
  also have "\<dots> = (4 * i + 32 * rel) div 32 div 128" by (simp only: div_mult2_eq)
  also have "(4 * i + 32 * rel) div 32 = rel" using assms by simp
  finally have t: "4 * (rel * 8 + i) div 4096 = rel div 128" .
  have "4 * (rel * 8) div 4096 = rel div 128"
  proof -
    have "4 * (rel * 8) div 4096 = (32 * rel) div (32 * 128)" by simp
    then show ?thesis by (simp only: div_mult_mult1)
  qed
  then show ?thesis
    unfolding nova_get_data_csum_addr_def NOVA_DATA_CSUM_LEN_def Let_def d rel
    using t rel by (simp add: NOVA_DATA_CSUM_LEN_def algebra_simps)
qed

subsection \<open>The unrolled loop\<close>

lemma map_upt_8: "map2 h (map f [0..<n]) (map g [0..<n]) = map (\<lambda>s. h (f s) (g s)) [0..<n]"
  by (rule nth_equalityI) simp_all

lemma crc_step:
  assumes "8 * i + 8 \<le> length S"
  shows "crc32q (ucast (crc32c_ref c (take (8 * i) S))) (le_word (take 8 (drop (8 * i) S))) =
      ucast (crc32c_ref c (take (8 * Suc i) S))"
proof -
  have "length (take 8 (drop (8 * i) S)) = 8" using assms by simp
  moreover have "take (8 * Suc i) S = take (8 * i) S @ take 8 (drop (8 * i) S)"
    by (simp add: take_add [symmetric] add.commute)
  ultimately show ?thesis by (simp add: crc32q_bytes ucast_ucast_u32 crc32c_ref_append)
qed

lemma unrolled_loop_ok:
  assumes B: "length B = 4096" and n: "n \<le> 64"
    and q: "\<And>off. off + 8 \<le> 4096 \<Longrightarrow> qword_at off = take 8 (drop off B)"
  shows "unrolled_loop True qword_at n
      (map (\<lambda>s. ucast (crc32c_ref 1 (take (8 * (64 - n)) (strip_of s B)))) [0..<8]) (take (8 * (64 - n)) (parity_of 8 B)) =
    (map (\<lambda>s. ucast (crc32c_ref 1 (strip_of s B))) [0..<8], parity_of 8 B)"
  using n
proof (induction n)
  case 0
  then show ?case by simp
next
  case (Suc n)
  let ?i = "63 - n"
  have div_eq: "512 div 8 - Suc n = 63 - n" by simp
  have i: "64 - n = Suc ?i" "64 - Suc n = ?i" "8 * ?i + 8 \<le> 512" using Suc.prems by auto
  have st: "s * 512 + 8 * ?i + 8 \<le> 4096" if "s < 8" for s
    using that i(3) mult_le_mono1 [of "Suc s" 8 512] by simp
  have qwd: "map (\<lambda>s. qword_at (s * 512 + 8 * ?i)) [0..<8] = map (\<lambda>s. take 8 (drop (8 * ?i) (strip_of s B))) [0..<8]"
  proof (rule map_cong)
    fix s assume "s \<in> set [0..<8::nat]"
    then have s: "s < 8" by simp
    show "qword_at (s * 512 + 8 * ?i) = take 8 (drop (8 * ?i) (strip_of s B))"
      using q [OF st [OF s]] i(3) by (simp add: drop_take min_def add.commute)
  qed simp
  have par: "take (8 * ?i) (parity_of 8 B) @ foldl xor_bytes (take 8 (drop (8 * ?i) (strip_of 0 B)))
      (map (\<lambda>s. take 8 (drop (8 * ?i) (strip_of s B))) [1..<8]) = take (8 * Suc ?i) (parity_of 8 B)"
  proof -
    have "foldl xor_bytes (take 8 (drop (8 * ?i) (strip_of 0 B))) (map (\<lambda>s. take 8 (drop (8 * ?i) (strip_of s B))) [1..<8])
       = map (\<lambda>j. xor_list (map (\<lambda>s. take 8 (drop (8 * ?i) (strip_of s B)) ! j) [0..<8])) [0..<8]"
      using foldl_xor_bytes [of "take 8 (drop (8 * ?i) (strip_of 0 B))" 8 "[1..<8]" "\<lambda>s. take 8 (drop (8 * ?i) (strip_of s B))"]
        strips_make_block [of B 8] B i(3) by (simp add: foldl_map upt_conv_Cons)
    also have "\<dots> = take 8 (drop (8 * ?i) (parity_of 8 B))"
    proof (rule nth_equalityI)
      fix j assume "j < length (map (\<lambda>j. xor_list (map (\<lambda>s. take 8 (drop (8 * ?i) (strip_of s B)) ! j) [0..<8])) [0..<8])"
      then have j: "j < 8" by simp
      have "xor_list (map (\<lambda>s. take 8 (drop (8 * ?i) (strip_of s B)) ! j) [0..<8]) =
          xor_list (map (\<lambda>s. B ! (s * 512 + (8 * ?i + j))) [0..<8])"
        using st i(3) j B strips_make_block [of B 8]
        by (intro arg_cong [where f = xor_list] map_cong refl) (simp add: add.assoc)
      then show "map (\<lambda>j. xor_list (map (\<lambda>s. take 8 (drop (8 * ?i) (strip_of s B)) ! j) [0..<8])) [0..<8] ! j =
          take 8 (drop (8 * ?i) (parity_of 8 B)) ! j"
        using j i(3) by (simp add: parity_of_def)
    qed (use i(3) in simp)
    finally show ?thesis by (simp add: take_add [symmetric] add.commute)
  qed
  have hd_tl: "hd (map f [0..<8]) = f 0" "tl (map f [0..<8]) = map f [1..<8]" for f :: "nat \<Rightarrow> u8 list"
    by (simp_all add: upt_conv_Cons)
  have acc: "map2 (\<lambda>q a. crc32q a (le_word q)) (map (\<lambda>s. take 8 (drop (8 * ?i) (strip_of s B))) [0..<8])
        (map (\<lambda>s. ucast (crc32c_ref 1 (take (8 * ?i) (strip_of s B)))) [0..<8]) =
      map (\<lambda>s. ucast (crc32c_ref 1 (take (8 * Suc ?i) (strip_of s B)))) [0..<8]"
    unfolding map_upt_8 using strips_make_block [of B 8] B i(3) by (intro map_cong refl crc_step) simp
  have "unrolled_loop True qword_at (Suc n)
      (map (\<lambda>s. ucast (crc32c_ref 1 (take (8 * ?i) (strip_of s B)))) [0..<8]) (take (8 * ?i) (parity_of 8 B)) =
    unrolled_loop True qword_at n
      (map (\<lambda>s. ucast (crc32c_ref 1 (take (8 * Suc ?i) (strip_of s B)))) [0..<8]) (take (8 * Suc ?i) (parity_of 8 B))"
    unfolding unrolled_loop.simps Let_def NOVA_STRIPE_SIZE_def if_True
    using qwd acc par hd_tl i(2) by (simp only: div_eq)
  then show ?case using Suc.IH Suc.prems i(1,2) by simp
qed

subsection \<open>Protecting a block\<close>

definition block_crcs :: "nova_env \<Rightarrow> u8 list \<Rightarrow> u8 list" where
  "block_crcs E B = concat (map (\<lambda>s. csum_bytes (stripe_crc E (strip_of s B))) [0..<8])"

lemma block_crcs_pieces: "length (block_crcs E B) = 32"
  "s < 8 \<Longrightarrow> take 4 (drop (s * 4) (block_crcs E B)) = csum_bytes (stripe_crc E (strip_of s B))"
  using pieces_of_concat [of 8 "\<lambda>s. csum_bytes (stripe_crc E (strip_of s B))" 4]
  by (simp_all add: block_crcs_def csum_bytes_def)

lemma stripe_crc_ref: "xmm4_2 E \<Longrightarrow> stripe_crc E strp = crc32c_ref 1 strp"
  using nova_crc32c_is_ref [of True "crc32c E"] by (simp add: stripe_crc_def env_crc_def NOVA_INIT_CSUM_def)

lemma unrolled_update:
  assumes E: "xmm4_2 E" "data_csum E" "data_parity E" "\<forall>tr n. kmalloc_ok E tr n"
    and R: "blocksize sbi = 4096" "length B = 4096" "blocknr < 2 ^ 52"
    and a: "nova_get_data_csum_addr E sbi (blocknr * 8) 0 = Some a0" "nova_get_data_csum_addr E sbi (blocknr * 8) 1 = Some a1"
      "nova_get_parity_addr E sbi blocknr = Some pa"
  shows "nova_update_block_csum_parity E sbi (Dram B) blocknr 0 4096 P =
    Inr (memcpy_to_pmem_nocache pa (parity_of 8 B)
          (memcpy_to_pmem_nocache a1 (block_crcs E B) (memcpy_to_pmem_nocache a0 (block_crcs E B) P)))"
proof -
  have q: "read_buf P (Dram B) off 8 = take 8 (drop off B)" for off by simp
  have "unrolled_loop True (\<lambda>off. read_buf P (Dram B) off 8) 64 (replicate 8 1) [] =
      (map (\<lambda>s. ucast (crc32c_ref 1 (strip_of s B))) [0..<8], parity_of 8 B)"
  proof -
    have "(map (\<lambda>s. ucast (crc32c_ref 1 (take (8 * (64 - 64)) (strip_of s B)))) [0..<8] :: u64w list) = replicate 8 1"
      by (simp add: crc32c_ref_def map_replicate_const)
    then show ?thesis using unrolled_loop_ok [OF R(2), of 64 "\<lambda>off. read_buf P (Dram B) off 8"] by simp
  qed
  moreover have "concat (map (\<lambda>a. csum_bytes (ucast a)) (map (\<lambda>s. ucast (crc32c_ref 1 (strip_of s B)) :: u64w) [0..<8])) =
      block_crcs E B"
    unfolding block_crcs_def map_map comp_def ucast_ucast_u32 stripe_crc_ref [OF E(1)] by (rule refl)
  moreover have "blocknr * 4096 div 512 = blocknr * 8" by simp
  ultimately have u: "unrolled_csum_parity E sbi (Dram B) blocknr (blocknr * 4096 div 512) True P =
    Inr (memcpy_to_pmem_nocache pa (parity_of 8 B)
          (memcpy_to_pmem_nocache a1 (block_crcs E B) (memcpy_to_pmem_nocache a0 (block_crcs E B) P)))"
    using E a unfolding unrolled_csum_parity_def NOVA_STRIPE_SIZE_def by (simp only: Let_def) simp
  show ?thesis
    using E R(1) u unfolding nova_update_block_csum_parity_def block_off_exact [OF R(3)] NOVA_STRIPE_SIZE_def
    by (simp add: Let_def)
qed

lemma plain_csum_update:
  assumes R: "length B = 4096" "blocknr < 2 ^ 52"
    and a: "nova_get_data_csum_addr E sbi (blocknr * 8) 0 = Some a0" "nova_get_data_csum_addr E sbi (blocknr * 8) 1 = Some a1"
  shows "nova_update_block_csum E sbi (Dram B) 0 blocknr 0 4096 False P = Inr (store_8_csums E a0 a1 (block_crcs E B) P)"
proof -
  have b: "blocknr * 4096 div 512 = blocknr * 8" by simp
  have "concat (map (\<lambda>k. csum_bytes (stripe_crc E (read_buf P (Dram B) (0 + k * 512) 512))) [0..<8]) = block_crcs E B"
    by (simp add: block_crcs_def)
  then have "stripe_csum_by8 E sbi (Dram B) False 8 (blocknr * 8) 0 P =
      Inr (store_8_csums E a0 a1 (block_crcs E B) P, 0, blocknr * 8 + 8, 4096)"
    using a by (simp add: stripe_csum_by8.simps [of E sbi "Dram B" False 8] stripe_csum_by8.simps [of E sbi "Dram B" False 0]
        NOVA_STRIPE_SIZE_def Let_def)
  then show ?thesis
    by (simp add: nova_update_block_csum_def nova_update_stripe_csum_def block_off_exact [OF R(2)] b NOVA_STRIPE_SIZE_def Let_def)
qed

lemma mem_store_8_csums [simp]: "mem (store_8_csums E a0 a1 src P) = put a1 src (put a0 src (mem P))"
  by (simp add: store_8_csums_def)

text \<open>The two copies of the checksums and the parity do not overlap.\<close>

definition areas_apart :: "nat \<Rightarrow> nat \<Rightarrow> nat \<Rightarrow> bool" where
  "areas_apart a0 a1 pa \<longleftrightarrow> (a0 + 32 \<le> a1 \<or> a1 + 32 \<le> a0) \<and> (a0 + 32 \<le> pa \<or> pa + 512 \<le> a0) \<and> (a1 + 32 \<le> pa \<or> pa + 512 \<le> a1)"

lemma unat_u32_mod: "unat (c :: u32) mod 256 ^ 4 = unat c"
  using unat_u32_less [of c] by simp

lemma csum_piece:
  assumes "s < 8"
  shows "get_bytes (put a (block_crcs E B) m) (a + 4 * s) 4 = csum_bytes (stripe_crc E (strip_of s B))"
proof -
  have "get_bytes (put a (block_crcs E B) m) (a + 4 * s) 4 = take 4 (drop (s * 4) (block_crcs E B))"
    using assms block_crcs_pieces(1) [of E B] by (intro nth_equalityI) (auto simp: put_def algebra_simps)
  then show ?thesis using block_crcs_pieces(2) [OF assms] by simp
qed

lemma protected_after_update:
  assumes a: "nova_get_data_csum_addr E sbi (blocknr * 8) 0 = Some a0" "nova_get_data_csum_addr E sbi (blocknr * 8) 1 = Some a1"
      "nova_get_parity_addr E sbi blocknr = Some pa" and ap: "areas_apart a0 a1 pa"
    and m: "mem P' = put pa (parity_of 8 B) (put a1 (block_crcs E B) (put a0 (block_crcs E B) m0))"
  shows "csums_of E sbi blocknr B P'" and "get_bytes (mem P') pa 512 = parity_of 8 B"
proof -
  have l: "length (block_crcs E B) = 32" by (rule block_crcs_pieces)
  have r: "read_le 4 P' (a0 + 4 * s) = unat (stripe_crc E (strip_of s B))"
    "read_le 4 P' (a1 + 4 * s) = unat (stripe_crc E (strip_of s B))" if "s < 8" for s
  proof -
    have "get_bytes (mem P') (a1 + 4 * s) 4 = get_bytes (put a1 (block_crcs E B) (put a0 (block_crcs E B) m0)) (a1 + 4 * s) 4"
      unfolding m using ap that by (intro get_put_other) (auto simp: areas_apart_def)
    then show "read_le 4 P' (a1 + 4 * s) = unat (stripe_crc E (strip_of s B))"
      by (simp add: csum_piece [OF that] read_le_def csum_bytes_def le_nat_le_bytes unat_u32_mod [simplified])
    have "get_bytes (mem P') (a0 + 4 * s) 4 = get_bytes (put a1 (block_crcs E B) (put a0 (block_crcs E B) m0)) (a0 + 4 * s) 4"
      unfolding m using ap that by (intro get_put_other) (auto simp: areas_apart_def)
    also have "\<dots> = get_bytes (put a0 (block_crcs E B) m0) (a0 + 4 * s) 4"
      using ap that l by (intro get_put_other) (auto simp: areas_apart_def)
    finally show "read_le 4 P' (a0 + 4 * s) = unat (stripe_crc E (strip_of s B))"
      by (simp add: csum_piece [OF that] read_le_def csum_bytes_def le_nat_le_bytes unat_u32_mod [simplified])
  qed
  then show "csums_of E sbi blocknr B P'"
    unfolding csums_of_def using csum_addr_in_block [of _ E sbi blocknr] a by auto
  show "get_bytes (mem P') pa 512 = parity_of 8 B" unfolding m by simp
qed

end
