(* ===== verification/Data_Props.thy ===== *)
theory Data_Props
  imports Data_Inv Demo_Env
begin

text \<open>
  The properties of data protection: a block with its checksums and parity survives damage to
  one of its stripes, and the unrolled code stores what the plain code stores.
\<close>

subsection \<open>Recovery\<close>


subsection \<open>The unrolled code\<close>


subsection \<open>A concrete device\<close>

text \<open>
  Block 100 of a device with one list: its checksums are in blocks 10 and 20, its parity behind
  block 30. One of its stripes cannot be read.
\<close>

definition data_list :: free_list where
  "data_list = demo_list\<lparr>csum_start := 10, replica_csum_start := 20, num_csum_blocks := 4, parity_start := 30,
     num_parity_blocks := 8\<rparr>"

definition data_sb :: sb_info where
  "data_sb = demo_sb\<lparr>free_lists := [data_list]\<rparr>"

definition data_env :: nova_env where
  "data_env = demo_env\<lparr>media_ok := (\<lambda>tr a. a div 512 \<noteq> 803)\<rparr>"

definition data_sih :: inode_info_header where
  "data_sih = \<lparr>radix = (\<lambda>_. None), rb_tree = Leaf, i_mode = 0, i_flags = 0, log_pages = 0, i_size = 4096,
     i_blocks = 1, ino = 33, pi_addr = 4096, alter_pi_addr = 8192, valid_entries = 0, num_entries = 0,
     last_setattr = 0, last_link_change = 0, last_dentry = 0, trans_id = 0, log_head = 0, log_tail = 0,
     alter_log_head = 0, alter_log_tail = 0, i_blk_type = 0\<rparr>"

lemma data_env_simps [simp]:
  "xmm4_2 data_env" "data_csum data_env" "data_parity data_env" "kmalloc_ok data_env = (\<lambda>_ _. True)"
  "media_ok data_env = (\<lambda>tr a. a div 512 \<noteq> 803)" "blocksize data_sb = 4096" "free_lists data_sb = [data_list]"
  "per_list_blocks data_sb = 2000" "cpus data_sb = 1"
  by (simp_all add: data_env_def demo_env_def data_sb_def demo_sb_def)

lemma data_addresses:
  "nova_get_data_csum_addr data_env data_sb 800 0 = Some 44160"
  "nova_get_data_csum_addr data_env data_sb 800 1 = Some 85120"
  "nova_get_parity_addr data_env data_sb 100 = Some 141312"
  by (simp_all add: nova_get_data_csum_addr_def nova_get_parity_addr_def data_list_def demo_list_def
      NOVA_DATA_CSUM_LEN_def NOVA_STRIPE_SIZE_def)

lemma data_csum_addr: "nova_get_data_csum_addr data_env data_sb 800 r = Some (if r = 0 then 44160 else 85120)"
  by (simp add: nova_get_data_csum_addr_def data_list_def demo_list_def NOVA_DATA_CSUM_LEN_def Let_def)

lemma data_areas: "areas_apart 44160 85120 141312"
  by (simp add: areas_apart_def)


text \<open>The protected state, of which stripe 3 is lost.\<close>

definition data_pm :: pm where
  "data_pm = \<lparr>mem = put 141312 (parity_of 8 (replicate 4096 1)) (put 85120 (block_crcs data_env (replicate 4096 1))
     (put 44160 (block_crcs data_env (replicate 4096 1)) (\<lambda>_. 1))), trace = []\<rparr>"

lemma data_pm_stripe:
  assumes "i < 8" "i \<noteq> 3"
  shows "memcpy_mcsafe data_env data_pm (409600 + i * 512) 512 = Some (strip_of i (replicate 4096 1))"
proof -
  have "x div 512 = 800 + i" if "x \<in> {409600 + i * 512..<409600 + i * 512 + 512}" for x
    using that by (intro div_nat_eqI) auto
  moreover have "length (block_crcs data_env (replicate 4096 1)) = 32" by (rule block_crcs_pieces)
  then have "get_bytes (mem data_pm) (409600 + i * 512) 512 = get_bytes (\<lambda>_. 1) (409600 + i * 512) 512"
    by (simp add: data_pm_def get_put_other)
  moreover have "strip_of i (replicate 4096 1) = (replicate 512 1 :: u8 list)"
  proof -
    have "512 \<le> 4096 - i * 512" using assms(1) mult_le_mono1 [of i 7 512] by simp
    then show ?thesis by (simp add: min_def)
  qed
  ultimately show ?thesis using assms(2) by (auto simp: mcsafe_Some get_bytes_def map_replicate_const)
qed


end
