(* ===== verification/Squint.thy ===== *)
theory Squint
  imports Nova_Prelude
begin

text \<open>
  The trace device \<^verbatim>\<open>/proc/squint\<close> (\<^verbatim>\<open>squint_module.c\<close> of \<^verbatim>\<open>kfifo_kernel_module\<close>, of
  \<^verbatim>\<open>kfifo_kernel_evaluation\<close> and of \<^verbatim>\<open>llvm_evaluation/NOVA/nova\<close>, the wrappers of \<^verbatim>\<open>print.c\<close>, and
  \<^verbatim>\<open>mockfs.c\<close>): the traced program writes records into a kfifo, a user process reads them.

  The kfifo of the kernel, \<^verbatim>\<open>proc_create\<close>, the stack walker and the symbol table are the fields
  of \<open>kernel\<close>; \<open>kfifo_ok\<close> states what the kernel documents of a kfifo. Characters are those of a
  \<^typ>\<open>string\<close>; the newline is \<open>CHR 0x0A\<close>.
\<close>

subsection \<open>The kernel services\<close>

record 'f kernel =
  kfifo_alloc :: "nat \<Rightarrow> 'f res"
  kfifo_in :: "'f \<Rightarrow> string \<Rightarrow> 'f"
  kfifo_to_user :: "'f \<Rightarrow> nat \<Rightarrow> 'f \<times> string res"
  kfifo_avail :: "'f \<Rightarrow> nat"
  proc_create :: "string \<Rightarrow> bool"
  stack_trace :: "nat list"
  symbol_name :: "nat \<Rightarrow> string"

text \<open>
  A kfifo of capacity \<open>n\<close> keeps its bytes in order; a write stores what fits; a read takes from the
  front; when the copy to the user fails, some bytes may be gone.
\<close>

definition kfifo_ok :: "'f kernel \<Rightarrow> ('f \<Rightarrow> string) \<Rightarrow> nat \<Rightarrow> bool" where
  "kfifo_ok K content n \<longleftrightarrow>
     (\<forall>f. kfifo_alloc K n = Inr f \<longrightarrow> content f = []) \<and>
     (\<forall>f s. content (kfifo_in K f s) = content f @ take (n - length (content f)) s) \<and>
     (\<forall>f k f' out. kfifo_to_user K f k = (f', Inr out) \<longrightarrow>
        content f = out @ content f' \<and> length out = min k (length (content f))) \<and>
     (\<forall>f k f' e. kfifo_to_user K f k = (f', Inl e) \<longrightarrow> (\<exists>gone. content f = gone @ content f')) \<and>
     (\<forall>f. kfifo_avail K f = n - length (content f))"

definition KFIFO_LEN :: nat where "KFIFO_LEN = 16384"
definition KFIFO_THRESHOLD_LEN :: nat where "KFIFO_THRESHOLD_LEN = 500"

subsection \<open>Formatting\<close>

text \<open>\<open>snprintf\<close> into a buffer of \<open>n\<close> bytes, and the text that \<open>strlen\<close> delimits.\<close>

definition snprintf :: "nat \<Rightarrow> string \<Rightarrow> string" where
  "snprintf n s = take (n - 1) s"

definition c_text :: "string \<Rightarrow> string" where
  "c_text s = takeWhile (\<lambda>c. c \<noteq> CHR 0x00) s"

definition digit_char :: "nat \<Rightarrow> char" where
  "digit_char d = (if d < 10 then char_of (48 + d) else char_of (87 + d))"

text \<open>\<^verbatim>\<open>%lu\<close> and \<^verbatim>\<open>%px\<close> (16 hexadecimal digits).\<close>

fun decimal :: "nat \<Rightarrow> string" where
  "decimal n = (if n < 10 then [digit_char n] else decimal (n div 10) @ [digit_char (n mod 10)])"

primrec hex :: "nat \<Rightarrow> nat \<Rightarrow> string" where
  "hex 0 n = []"
| "hex (Suc k) n = hex k (n div 16) @ [digit_char (n mod 16)]"

declare decimal.simps [simp del]

definition trace_line :: "'f kernel \<Rightarrow> nat \<Rightarrow> string" where
  "trace_line K a = snprintf 200 (''[<'' @ hex 16 a @ ''>] '' @ symbol_name K a @ [CHR 0x0A])"

definition store_line :: "nat \<Rightarrow> string" where
  "store_line addr = snprintf 40 (''@ store: '' @ decimal addr @ [CHR 0x0A])"

subsection \<open>The module\<close>

text \<open>The state of the module: its kfifo while it is loaded, and the entries of \<^verbatim>\<open>/proc\<close>.\<close>

record 'f squint_module =
  squint_dev :: "'f option"
  proc_entries :: "string set"

definition kfifo_squint_init :: "'f kernel \<Rightarrow> 'f squint_module \<Rightarrow> 'f squint_module \<times> unit res" where
  "kfifo_squint_init K M =
     (case kfifo_alloc K KFIFO_LEN of
        Inl e \<Rightarrow> (M, Inl e)
      | Inr f \<Rightarrow>
          if \<not> proc_create K ''squint'' then (M\<lparr>squint_dev := None\<rparr>, Inl ENOMEM)
          else (M\<lparr>squint_dev := Some f, proc_entries := insert ''squint'' (proc_entries M)\<rparr>, Inr ()))"

definition kfifo_squint_exit :: "'f squint_module \<Rightarrow> 'f squint_module" where
  "kfifo_squint_exit M = M\<lparr>squint_dev := None, proc_entries := proc_entries M - {''squint''}\<rparr>"

definition SquintDeviceRead :: "'f kernel \<Rightarrow> nat \<Rightarrow> 'f \<Rightarrow> 'f \<times> nat res \<times> string" where
  "SquintDeviceRead K count f =
     (case kfifo_to_user K f count of
        (f, Inl e) \<Rightarrow> (f, Inl e, [])
      | (f, Inr out) \<Rightarrow> (f, Inr (length out), out))"

definition squint_fifo_write :: "'f kernel \<Rightarrow> string \<Rightarrow> 'f \<Rightarrow> 'f" where
  "squint_fifo_write K input f = kfifo_in K f (c_text input)"

text \<open>At most 32 frames are walked.\<close>

definition stack_entries :: "'f kernel \<Rightarrow> nat list" where
  "stack_entries K = take 32 (stack_trace K)"

definition print_trace :: "'f kernel \<Rightarrow> 'f \<Rightarrow> 'f" where
  "print_trace K f = fold (\<lambda>a. squint_fifo_write K (trace_line K a)) (stack_entries K) f"

definition write_flush_trace :: "'f kernel \<Rightarrow> 'f \<Rightarrow> 'f" where
  "write_flush_trace K f = print_trace K (squint_fifo_write K (''@ flush'' @ [CHR 0x0A]) f)"

definition write_fence_trace :: "'f kernel \<Rightarrow> 'f \<Rightarrow> 'f" where
  "write_fence_trace K f = print_trace K (squint_fifo_write K (''@ fence'' @ [CHR 0x0A]) f)"

definition write_store_trace :: "'f kernel \<Rightarrow> nat \<Rightarrow> 'f \<Rightarrow> 'f" where
  "write_store_trace K addr f = print_trace K (squint_fifo_write K (store_line addr) f)"

text \<open>The wrappers that the instrumentation calls: the address of a flush and the size of a store are dropped.\<close>

definition write_fence_trace_wrapper :: "'f kernel \<Rightarrow> 'f \<Rightarrow> 'f" where
  "write_fence_trace_wrapper K = write_fence_trace K"

definition write_flush_trace_wrapper :: "'f kernel \<Rightarrow> nat \<Rightarrow> 'f \<Rightarrow> 'f" where
  "write_flush_trace_wrapper K addr = write_flush_trace K"

definition write_store_trace_wrapper :: "'f kernel \<Rightarrow> nat \<Rightarrow> nat \<Rightarrow> 'f \<Rightarrow> 'f" where
  "write_store_trace_wrapper K addr sz = write_store_trace K addr"

text \<open>
  The copy of the module beside NOVA prints all 32 slots of the array, also those the walker
  did not fill; what they held before is \<open>uninit\<close>.
\<close>

definition nova_stack_entries :: "'f kernel \<Rightarrow> nat list \<Rightarrow> nat list" where
  "nova_stack_entries K uninit = (let es = stack_entries K in es @ drop (length es) (take 32 uninit))"

definition nova_print_trace :: "'f kernel \<Rightarrow> nat list \<Rightarrow> 'f \<Rightarrow> 'f" where
  "nova_print_trace K uninit f =
     fold (\<lambda>a. squint_fifo_write K (trace_line K a)) (nova_stack_entries K uninit) f"

subsection \<open>The module that makes writers wait\<close>

text \<open>
  In \<^verbatim>\<open>kfifo_kernel_evaluation\<close> a writer that leaves less than the threshold free goes to sleep until
  a reader has made room. Writers and the reader run concurrently. The program counter of a
  writer: at the start of \<open>squint_fifo_write\<close>; after the write; after it saw too little room; in
  the condition of \<^verbatim>\<open>wait_event_interruptible\<close>; asleep on the queue. A writer is its program
  counter and the texts it has still to write. Signals are not modelled.
\<close>

datatype writer_pc = Ready | Wrote | Low | Waiting | Asleep
datatype reader_pc = Idle | Copied | Waking | WakeUp

record 'f squint_sys =
  fifo :: 'f
  asleep :: nat
  writers :: "(writer_pc \<times> string list) list"
  reader :: reader_pc
  delivered :: string
  attempted :: string

definition wake_up :: "(writer_pc \<times> string list) list \<Rightarrow> (writer_pc \<times> string list) list" where
  "wake_up ws = map (\<lambda>(pc, ms). (if pc = Asleep then Waiting else pc, ms)) ws"

text \<open>
  One step of the system. The texts delivered to the reader and attempted by the writers are kept
  in \<open>delivered\<close> and \<open>attempted\<close>. The read of the device copies successfully.
\<close>

inductive squint_step :: "'f kernel \<Rightarrow> 'f squint_sys \<Rightarrow> 'f squint_sys \<Rightarrow> bool" for K :: "'f kernel" where
  step_write: "i < length (writers s) \<Longrightarrow> writers s ! i = (Ready, msg # ms) \<Longrightarrow>
    squint_step K s (s\<lparr>fifo := squint_fifo_write K msg (fifo s), writers := (writers s)[i := (Wrote, ms)],
       attempted := attempted s @ c_text msg\<rparr>)"
| step_enough: "i < length (writers s) \<Longrightarrow> writers s ! i = (Wrote, ms) \<Longrightarrow>
    \<not> kfifo_avail K (fifo s) < KFIFO_THRESHOLD_LEN \<Longrightarrow>
    squint_step K s (s\<lparr>writers := (writers s)[i := (Ready, ms)]\<rparr>)"
| step_low: "i < length (writers s) \<Longrightarrow> writers s ! i = (Wrote, ms) \<Longrightarrow>
    kfifo_avail K (fifo s) < KFIFO_THRESHOLD_LEN \<Longrightarrow>
    squint_step K s (s\<lparr>writers := (writers s)[i := (Low, ms)]\<rparr>)"
| step_mark: "i < length (writers s) \<Longrightarrow> writers s ! i = (Low, ms) \<Longrightarrow>
    squint_step K s (s\<lparr>asleep := 1, writers := (writers s)[i := (Waiting, ms)]\<rparr>)"
| step_resume: "i < length (writers s) \<Longrightarrow> writers s ! i = (Waiting, ms) \<Longrightarrow>
    KFIFO_THRESHOLD_LEN < kfifo_avail K (fifo s) \<Longrightarrow>
    squint_step K s (s\<lparr>writers := (writers s)[i := (Ready, ms)]\<rparr>)"
| step_sleep: "i < length (writers s) \<Longrightarrow> writers s ! i = (Waiting, ms) \<Longrightarrow>
    \<not> KFIFO_THRESHOLD_LEN < kfifo_avail K (fifo s) \<Longrightarrow>
    squint_step K s (s\<lparr>writers := (writers s)[i := (Asleep, ms)]\<rparr>)"
| step_read: "reader s = Idle \<Longrightarrow> SquintDeviceRead K count (fifo s) = (f, Inr n, out) \<Longrightarrow>
    squint_step K s (s\<lparr>fifo := f, reader := Copied, delivered := delivered s @ out\<rparr>)"
| step_see: "reader s = Copied \<Longrightarrow> asleep s = 1 \<Longrightarrow> KFIFO_THRESHOLD_LEN < kfifo_avail K (fifo s) \<Longrightarrow>
    squint_step K s (s\<lparr>reader := Waking\<rparr>)"
| step_return: "reader s = Copied \<Longrightarrow> \<not> (asleep s = 1 \<and> KFIFO_THRESHOLD_LEN < kfifo_avail K (fifo s)) \<Longrightarrow>
    squint_step K s (s\<lparr>reader := Idle\<rparr>)"
| step_clear: "reader s = Waking \<Longrightarrow> squint_step K s (s\<lparr>asleep := 0, reader := WakeUp\<rparr>)"
| step_wake: "reader s = WakeUp \<Longrightarrow> squint_step K s (s\<lparr>writers := wake_up (writers s), reader := Idle\<rparr>)"

inductive_cases squint_stepE: "squint_step K s s'"

inductive squint_reach :: "'f kernel \<Rightarrow> 'f squint_sys \<Rightarrow> 'f squint_sys \<Rightarrow> bool" for K :: "'f kernel" where
  reach_refl: "squint_reach K s s"
| reach_step: "squint_reach K s t \<Longrightarrow> squint_step K t u \<Longrightarrow> squint_reach K s u"

text \<open>The device just loaded, with writers that will write the given texts.\<close>

definition squint_start :: "'f \<Rightarrow> string list list \<Rightarrow> 'f squint_sys" where
  "squint_start f progs = \<lparr>fifo = f, asleep = 0, writers = map (Pair Ready) progs, reader = Idle,
     delivered = [], attempted = []\<rparr>"

subsection \<open>The mock file system\<close>

text \<open>The reads of the two devices, and the initialization, which does not undo its first step.\<close>

definition TraceDeviceRead :: "'f kernel \<Rightarrow> 'f \<Rightarrow> 'f \<times> nat" where
  "TraceDeviceRead K f = (write_flush_trace K f, 0)"

definition NoTraceDeviceRead :: "'f \<Rightarrow> 'f \<times> nat" where
  "NoTraceDeviceRead f = (f, 0)"

definition mockfs_init :: "'f kernel \<Rightarrow> string set \<Rightarrow> string set \<times> unit res" where
  "mockfs_init K entries =
     (if \<not> proc_create K ''MockFStrace'' then (entries, Inl ENOMEM)
      else if \<not> proc_create K ''MockFSnotrace'' then (insert ''MockFStrace'' entries, Inl ENOMEM)
      else ({''MockFStrace'', ''MockFSnotrace''} \<union> entries, Inr ()))"

definition mockfs_exit :: "string set \<Rightarrow> string set" where
  "mockfs_exit entries = entries - {''MockFStrace'', ''MockFSnotrace''}"

end
