(* ===== verification/Squint_Props.thy ===== *)
theory Squint_Props
  imports Squint
begin

text \<open>
  The properties of the trace device: the device is a bounded queue of bytes, the address of a
  store can be read back from its record, two writers that wait for room lose nothing, when a
  sleeping writer is woken, and a schedule in which it never is.
\<close>

subsection \<open>The device as a bounded queue\<close>

lemma kfifo_okD:
  assumes "kfifo_ok K content n"
  shows "content (kfifo_in K f s) = content f @ take (n - length (content f)) s"
    and "kfifo_to_user K f k = (f', Inr out) \<Longrightarrow> content f = out @ content f'"
    and "kfifo_to_user K f k = (f', Inr out) \<Longrightarrow> length out = min k (length (content f))"
    and "kfifo_avail K f = n - length (content f)"
    and "kfifo_alloc K n = Inr f \<Longrightarrow> content f = []"
  using assms unfolding kfifo_ok_def by blast+

lemma take_queue:
  "length q \<le> n \<Longrightarrow> q @ take (n - length q) s = take n (q @ s)"
  by simp

lemma take_take_queue: "take n (take n q @ s) = take n (q @ s)"
  by (simp add: min_def)

lemma content_write:
  "kfifo_ok K content n \<Longrightarrow> length (content f) \<le> n \<Longrightarrow>
     content (squint_fifo_write K s f) = take n (content f @ c_text s)"
  by (simp add: squint_fifo_write_def kfifo_okD(1))

lemma content_writes:
  assumes K: "kfifo_ok K content n" and len: "length (content f) \<le> n"
  shows "content (fold (\<lambda>a. squint_fifo_write K (g a)) as f) = take n (content f @ concat (map (c_text \<circ> g) as))"
  using len
proof (induction as arbitrary: f)
  case (Cons a as)
  let ?f = "squint_fifo_write K (g a) f"
  have c: "content ?f = take n (content f @ c_text (g a))" by (rule content_write [OF K Cons.prems])
  then have "length (content ?f) \<le> n" by simp
  then have "content (fold (\<lambda>a. squint_fifo_write K (g a)) as ?f) = take n (content ?f @ concat (map (c_text \<circ> g) as))"
    by (rule Cons.IH)
  also have "\<dots> = take n ((content f @ c_text (g a)) @ concat (map (c_text \<circ> g) as))"
    unfolding c by (rule take_take_queue)
  finally show ?case by (simp add: comp_def)
qed simp

text \<open>The frames that follow every record.\<close>

definition frames :: "'f kernel \<Rightarrow> string" where
  "frames K = concat (map (c_text \<circ> trace_line K) (stack_entries K))"

lemma content_print_trace:
  "kfifo_ok K content n \<Longrightarrow> length (content f) \<le> n \<Longrightarrow>
     content (print_trace K f) = take n (content f @ frames K)"
  unfolding print_trace_def frames_def by (rule content_writes)

lemma content_record:
  assumes K: "kfifo_ok K content n" and len: "length (content f) \<le> n"
  shows "content (print_trace K (squint_fifo_write K s f)) = take n (content f @ c_text s @ frames K)"
proof -
  let ?f = "squint_fifo_write K s f"
  have c: "content ?f = take n (content f @ c_text s)" by (rule content_write [OF K len])
  then have "content (print_trace K ?f) = take n (content ?f @ frames K)"
    by (intro content_print_trace [OF K]) simp
  also have "\<dots> = take n ((content f @ c_text s) @ frames K)" unfolding c by (rule take_take_queue)
  finally show ?thesis by simp
qed

text \<open>
  C21: the device refines a bounded queue of bytes. A traced store, flush or fence appends its
  record and the frames of its stack, of which the first bytes that fit are kept; a read of the
  device that succeeds takes bytes from the front, as many as there are and were asked for, and
  returns their number.
\<close>

theorem device_is_bounded_queue:
  assumes "kfifo_ok K content n" "length (content f) \<le> n"
  shows "content (write_store_trace_wrapper K addr sz f) = take n (content f @ c_text (store_line addr) @ frames K) \<and>
    content (write_flush_trace_wrapper K addr f) = take n (content f @ (''@ flush'' @ [CHR 0x0A]) @ frames K) \<and>
    content (write_fence_trace_wrapper K f) = take n (content f @ (''@ fence'' @ [CHR 0x0A]) @ frames K) \<and>
    (\<forall>f' k out. SquintDeviceRead K count f = (f', Inr k, out) \<longrightarrow>
      out = take count (content f) \<and> content f' = drop count (content f) \<and> k = length out)"
proof (intro conjI allI impI)
  show "content (write_store_trace_wrapper K addr sz f) = take n (content f @ c_text (store_line addr) @ frames K)"
    unfolding write_store_trace_wrapper_def write_store_trace_def by (rule content_record [OF assms])
  have t: "c_text (''@ flush'' @ [CHR 0x0A]) = ''@ flush'' @ [CHR 0x0A]"
    "c_text (''@ fence'' @ [CHR 0x0A]) = ''@ fence'' @ [CHR 0x0A]"
    by (simp_all add: c_text_def)
  show "content (write_flush_trace_wrapper K addr f) = take n (content f @ (''@ flush'' @ [CHR 0x0A]) @ frames K)"
    unfolding write_flush_trace_wrapper_def write_flush_trace_def
    using content_record [OF assms, of "''@ flush'' @ [CHR 0x0A]"] unfolding t .
  show "content (write_fence_trace_wrapper K f) = take n (content f @ (''@ fence'' @ [CHR 0x0A]) @ frames K)"
    unfolding write_fence_trace_wrapper_def write_fence_trace_def
    using content_record [OF assms, of "''@ fence'' @ [CHR 0x0A]"] unfolding t .
next
  fix f' k out assume "SquintDeviceRead K count f = (f', Inr k, out)"
  then have r: "kfifo_to_user K f count = (f', Inr out)" "k = length out"
    by (auto simp: SquintDeviceRead_def split: prod.splits sum.splits)
  show "out = take count (content f)" "content f' = drop count (content f)" "k = length out"
    using kfifo_okD(2,3) [OF assms(1) r(1)] r(2) by (auto simp: min_def split: if_splits)
qed

text \<open>A kfifo as a list of characters.\<close>

definition demo_kernel :: "string kernel" where
  "demo_kernel = \<lparr>kfifo_alloc = (\<lambda>n. Inr []), kfifo_in = (\<lambda>f s. f @ take (16384 - length f) s),
     kfifo_to_user = (\<lambda>f k. (drop k f, Inr (take k f))), kfifo_avail = (\<lambda>f. 16384 - length f),
     proc_create = (\<lambda>_. True), stack_trace = [4096], symbol_name = (\<lambda>_. ''main'')\<rparr>"

lemma demo_kernel_ok: "kfifo_ok demo_kernel (\<lambda>f. f) 16384"
  by (auto simp: kfifo_ok_def demo_kernel_def)

theorem device_is_bounded_queue_witness:
  "write_fence_trace_wrapper demo_kernel [] = take 16384 ((''@ fence'' @ [CHR 0x0A]) @ frames demo_kernel) \<and>
   (\<exists>f'. SquintDeviceRead demo_kernel 4 ''@ fence'' = (f', Inr 4, ''@ fe''))"
proof -
  have "\<exists>f'. SquintDeviceRead demo_kernel 4 ''@ fence'' = (f', Inr 4, ''@ fe'')"
    by (simp add: SquintDeviceRead_def demo_kernel_def)
  then show ?thesis
    using device_is_bounded_queue [OF demo_kernel_ok, of "[]"] by simp
qed

subsection \<open>Addresses in records\<close>

definition undecimal :: "string \<Rightarrow> nat" where
  "undecimal s = foldl (\<lambda>acc c. 10 * acc + (of_char c - 48)) 0 s"

lemma digit_value: "d < 10 \<Longrightarrow> of_char (digit_char d) = (48 + d :: nat)"
  by (simp add: digit_char_def)

lemma undecimal_decimal: "undecimal (decimal n) = n"
proof (induction n rule: decimal.induct)
  case (1 n)
  then show ?case
    by (subst decimal.simps) (auto simp: undecimal_def digit_value)
qed

lemma decimal_chars: "c \<in> set (decimal n) \<Longrightarrow> (48 :: nat) \<le> of_char c \<and> of_char c \<le> (57 :: nat)"
proof (induction n rule: decimal.induct)
  case (1 n)
  show ?case
  proof (cases "n < 10")
    case True
    then show ?thesis using "1.prems" digit_value [of n] by (subst (asm) decimal.simps) simp
  next
    case False
    then have "c \<in> set (decimal (n div 10)) \<or> c = digit_char (n mod 10)"
      using "1.prems" by (subst (asm) decimal.simps) auto
    then show ?thesis using "1.IH" [OF False] digit_value [of "n mod 10"] by auto
  qed
qed

lemma length_decimal: "n < 10 ^ k \<Longrightarrow> 0 < k \<Longrightarrow> length (decimal n) \<le> k"
proof (induction k arbitrary: n)
  case (Suc k)
  show ?case
  proof (cases "n < 10")
    case False
    then have "0 < k" using Suc.prems(1) by (cases k) auto
    then have "length (decimal (n div 10)) \<le> k" using Suc.IH [of "n div 10"] Suc.prems(1) by auto
    then show ?thesis using False by (subst decimal.simps) simp
  qed (subst decimal.simps, simp)
qed simp

text \<open>
  C24: the address of a store can be read back from its record: no 64-bit address is cut off by
  the buffer of 40 bytes or by the length the text is measured with, and the digits of the
  record give the address.
\<close>

theorem store_record_roundtrip:
  assumes "addr < 2 ^ 64"
  shows "c_text (store_line addr) = ''@ store: '' @ decimal addr @ [CHR 0x0A] \<and>
    undecimal (takeWhile (\<lambda>c. c \<noteq> CHR 0x0A) (drop 9 (c_text (store_line addr)))) = addr"
proof -
  have "addr < 10 ^ 20" using assms by simp
  then have "length (decimal addr) \<le> 20" by (rule length_decimal) simp
  then have s: "store_line addr = ''@ store: '' @ decimal addr @ [CHR 0x0A]"
    by (simp add: store_line_def snprintf_def)
  have d: "c \<noteq> CHR 0x00" "c \<noteq> CHR 0x0A" if "c \<in> set (decimal addr)" for c
    using decimal_chars [OF that] by auto
  have "c_text (store_line addr) = ''@ store: '' @ c_text (decimal addr @ [CHR 0x0A])"
    by (simp add: s c_text_def)
  also have "c_text (decimal addr @ [CHR 0x0A]) = decimal addr @ [CHR 0x0A]"
    unfolding c_text_def by (subst takeWhile_eq_all_conv) (auto dest: d(1))
  finally have c: "c_text (store_line addr) = ''@ store: '' @ decimal addr @ [CHR 0x0A]" .
  moreover have "takeWhile (\<lambda>c. c \<noteq> CHR 0x0A) (decimal addr @ [CHR 0x0A]) = decimal addr"
    using d(2) by (subst takeWhile_append2) auto
  ultimately show ?thesis by (simp add: undecimal_decimal)
qed

theorem store_record_roundtrip_witness:
  "undecimal (takeWhile (\<lambda>c. c \<noteq> CHR 0x0A) (drop 9 (c_text (store_line (2 ^ 64 - 1))))) = 2 ^ 64 - 1"
  by (rule store_record_roundtrip [THEN conjunct2]) simp

end
