(* ===== verification/Squint_Wait.thy ===== *)
theory Squint_Wait
  imports Squint_Props
begin

text \<open>
  Writers that wait for room in the trace device, under every interleaving with the reader: an
  invariant that bounds how full the device gets, and what becomes of sleeping writers.
\<close>

subsection \<open>Counting the writers that are not ready\<close>

definition not_ready :: "(writer_pc \<times> string list) list \<Rightarrow> nat" where
  "not_ready ws = length (filter (\<lambda>w. fst w \<noteq> Ready) ws)"

lemma not_ready_le: "not_ready ws \<le> length ws"
  by (simp add: not_ready_def)

lemma not_ready_update:
  "i < length ws \<Longrightarrow> not_ready (ws[i := w]) + (if fst (ws ! i) = Ready then 0 else 1) =
     not_ready ws + (if fst w = Ready then 0 else 1)"
proof (induction ws arbitrary: i)
  case (Cons v ws)
  show ?case
  proof (cases i)
    case (Suc j)
    then show ?thesis using Cons.IH [of j] Cons.prems by (auto simp: not_ready_def split: if_splits)
  qed (simp add: not_ready_def)
qed simp

lemma not_ready_less:
  assumes "i < length ws" "fst (ws ! i) = Ready"
  shows "not_ready ws < length ws"
  using assms not_ready_update [of i ws "(Wrote, [])"] not_ready_le [of "ws[i := (Wrote, [])]"] by simp

lemma not_ready_wake_up: "not_ready (wake_up ws) = not_ready ws"
  by (induction ws) (auto simp: not_ready_def wake_up_def split: if_splits)

subsection \<open>The invariant\<close>

definition texts_bounded :: "nat \<Rightarrow> (writer_pc \<times> string list) list \<Rightarrow> bool" where
  "texts_bounded b ws \<longleftrightarrow> (\<forall>w \<in> set ws. \<forall>m \<in> set (snd w). length (c_text m) \<le> b)"

definition squint_inv :: "'f kernel \<Rightarrow> ('f \<Rightarrow> string) \<Rightarrow> nat \<Rightarrow> nat \<Rightarrow> 'f squint_sys \<Rightarrow> bool" where
  "squint_inv K content k b s \<longleftrightarrow> length (writers s) = k \<and> texts_bounded b (writers s) \<and>
     delivered s @ content (fifo s) = attempted s \<and>
     KFIFO_THRESHOLD_LEN \<le> kfifo_avail K (fifo s) + b * not_ready (writers s)"

lemma texts_bounded_update:
  assumes "texts_bounded b ws" "i < length ws" "ws ! i = (pc, ms' @ ms)"
  shows "texts_bounded b (ws[i := (pc', ms)])"
proof -
  have "(pc, ms' @ ms) \<in> set ws" using assms(2,3) nth_mem by metis
  then have "\<forall>m \<in> set ms. length (c_text m) \<le> b" using assms(1) by (fastforce simp: texts_bounded_def)
  then show ?thesis
    using assms(1) set_update_subset_insert [of ws i "(pc', ms)"] by (fastforce simp: texts_bounded_def)
qed

lemma texts_bounded_wake_up: "texts_bounded b ws \<Longrightarrow> texts_bounded b (wake_up ws)"
  by (auto simp: texts_bounded_def wake_up_def)

text \<open>A writer that only changes its program counter.\<close>

lemma inv_move:
  assumes I: "squint_inv K content k b s" and i: "i < length (writers s)" "writers s ! i = (pc, ms)"
    and pc: "pc' = Ready \<longrightarrow> KFIFO_THRESHOLD_LEN \<le> kfifo_avail K (fifo s)" "pc \<noteq> Ready"
  shows "squint_inv K content k b (s\<lparr>writers := (writers s)[i := (pc', ms)]\<rparr>)"
proof -
  have "texts_bounded b ((writers s)[i := (pc', ms)])"
    using texts_bounded_update [where ms' = "[]"] I i by (simp add: squint_inv_def)
  moreover have "KFIFO_THRESHOLD_LEN \<le> kfifo_avail K (fifo s) + b * not_ready ((writers s)[i := (pc', ms)])"
  proof (cases "pc' = Ready")
    case False
    then show ?thesis
      using not_ready_update [OF i(1), of "(pc', ms)"] i(2) pc(2) I by (simp add: squint_inv_def)
  qed (use pc in simp)
  ultimately show ?thesis using I by (simp add: squint_inv_def)
qed

lemma inv_write:
  assumes K: "kfifo_ok K content KFIFO_LEN" and I: "squint_inv K content k b s" and room: "k * b \<le> KFIFO_THRESHOLD_LEN"
    and i: "i < length (writers s)" "writers s ! i = (Ready, msg # ms)"
  shows "squint_inv K content k b (s\<lparr>fifo := squint_fifo_write K msg (fifo s),
     writers := (writers s)[i := (Wrote, ms)], attempted := attempted s @ c_text msg\<rparr>)"
proof -
  let ?ws = "writers s" and ?ws' = "(writers s)[i := (Wrote, ms)]" and ?f' = "squint_fifo_write K msg (fifo s)"
  have tb: "texts_bounded b ?ws'" using texts_bounded_update [of b ?ws i Ready "[msg]" ms] I i by (simp add: squint_inv_def)
  have "(Ready, msg # ms) \<in> set ?ws" using i nth_mem by metis
  then have msg: "length (c_text msg) \<le> b" using I by (fastforce simp: squint_inv_def texts_bounded_def)
  have nr: "not_ready ?ws' = Suc (not_ready ?ws)" using not_ready_update [OF i(1), of "(Wrote, ms)"] i(2) by simp
  have "Suc (not_ready ?ws) \<le> k" using not_ready_less [OF i(1)] i(2) I by (simp add: squint_inv_def)
  then have "b * Suc (not_ready ?ws) \<le> b * k" by (rule mult_le_mono2)
  then have "b * not_ready ?ws + b \<le> KFIFO_THRESHOLD_LEN" using room by (simp add: mult.commute)
  then have fits: "length (c_text msg) \<le> kfifo_avail K (fifo s)"
    using I msg by (simp add: squint_inv_def)
  then have c: "content ?f' = content (fifo s) @ c_text msg"
    by (simp add: squint_fifo_write_def kfifo_okD(1) [OF K] kfifo_okD(4) [OF K])
  have "KFIFO_THRESHOLD_LEN \<le> kfifo_avail K ?f' + b * not_ready ?ws'"
    using I msg fits unfolding squint_inv_def nr kfifo_okD(4) [OF K] c length_append mult_Suc_right by linarith
  then show ?thesis using I tb c by (simp add: squint_inv_def)
qed

lemma inv_step:
  assumes K: "kfifo_ok K content KFIFO_LEN" and room: "k * b \<le> KFIFO_THRESHOLD_LEN"
    and I: "squint_inv K content k b s" and st: "squint_step K s s'"
  shows "squint_inv K content k b s'"
  using st
proof cases
  case (step_write i msg ms)
  then show ?thesis using inv_write [OF K I room] by simp
next
  case (step_mark i ms)
  have "squint_inv K content k b (s\<lparr>writers := (writers s)[i := (Waiting, ms)]\<rparr>)"
    using inv_move [OF I step_mark(2,3)] by simp
  then show ?thesis unfolding step_mark(1) by (simp add: squint_inv_def)
next
  case (step_read count f n out)
  then have r: "kfifo_to_user K (fifo s) count = (f, Inr out)"
    by (auto simp: SquintDeviceRead_def split: prod.splits sum.splits)
  have "kfifo_avail K (fifo s) \<le> kfifo_avail K f"
    using kfifo_okD(2) [OF K r] by (simp add: kfifo_okD(4) [OF K])
  then show ?thesis using I kfifo_okD(2) [OF K r] unfolding step_read(1) by (simp add: squint_inv_def)
next
  case step_wake
  then show ?thesis using I
    by (simp add: squint_inv_def not_ready_wake_up texts_bounded_wake_up) (simp add: wake_up_def)
qed (use inv_move [OF I] I in \<open>auto simp: squint_inv_def\<close>)

lemma inv_start:
  assumes K: "kfifo_ok K content KFIFO_LEN" and f: "kfifo_alloc K KFIFO_LEN = Inr f"
    and b: "\<forall>ms \<in> set progs. \<forall>m \<in> set ms. length (c_text m) \<le> b"
  shows "squint_inv K content (length progs) b (squint_start f progs)"
  using b kfifo_okD(5) [OF K f]
  by (auto simp: squint_inv_def squint_start_def texts_bounded_def kfifo_okD(4) [OF K] KFIFO_LEN_def
      KFIFO_THRESHOLD_LEN_def)

lemma inv_reach:
  assumes "squint_reach K s t" "kfifo_ok K content KFIFO_LEN" "k * b \<le> KFIFO_THRESHOLD_LEN" "squint_inv K content k b s"
  shows "squint_inv K content k b t"
  using assms by (induction rule: squint_reach.induct) (auto intro: inv_step)

text \<open>Every text the module writes is shorter than the buffer of 200 bytes.\<close>

lemma snprintf_length: "length (c_text (snprintf n s)) \<le> n - 1"
  unfolding c_text_def snprintf_def by (metis length_takeWhile_le length_take min.cobounded2 order_trans)

lemma module_texts_short:
  "length (c_text (trace_line K a)) \<le> 199" "length (c_text (store_line addr)) \<le> 199"
proof -
  show "length (c_text (trace_line K a)) \<le> 199"
    unfolding trace_line_def using snprintf_length [of 200] by simp
  have "length (c_text (store_line addr)) \<le> 39"
    unfolding store_line_def using snprintf_length [of 40] by simp
  then show "length (c_text (store_line addr)) \<le> 199" by simp
qed


lemma demo_write:
  "squint_reach demo_kernel (squint_start [] [[''ab'']])
     (squint_start [] [[''ab'']]\<lparr>fifo := ''ab'', writers := [(Wrote, [])], attempted := ''ab''\<rparr>)"
proof -
  let ?s = "squint_start [] [[''ab'']] :: string squint_sys"
  have "squint_step demo_kernel ?s (?s\<lparr>fifo := squint_fifo_write demo_kernel ''ab'' (fifo ?s),
      writers := (writers ?s)[0 := (Wrote, [])], attempted := attempted ?s @ c_text ''ab''\<rparr>)"
    by (rule step_write) (simp_all add: squint_start_def)
  then show ?thesis
    using reach_step [OF reach_refl] by (simp add: squint_start_def squint_fifo_write_def demo_kernel_def c_text_def)
qed


subsection \<open>Sleeping writers\<close>

lemma reach_trans: "squint_reach K t u \<Longrightarrow> squint_reach K s t \<Longrightarrow> squint_reach K s u"
  by (induction rule: squint_reach.induct) (auto intro: reach_step)

text \<open>
  C22: a read that makes room wakes the writers, unless another thread runs in the middle of it:
  from a state with the flag set, an idle reader and a read of \<open>count\<close> bytes that leaves more than
  the threshold free, the steps of the reader alone clear the flag and move every sleeping writer
  to its condition, which holds then, so that each of them can go on writing.
\<close>

theorem read_wakes_writers:
  assumes "reader s = Idle" "asleep s = 1" "SquintDeviceRead K count (fifo s) = (f, Inr n, out)"
    and "KFIFO_THRESHOLD_LEN < kfifo_avail K f"
    and "i < length (writers s)" "writers s ! i = (Asleep, ms)"
  shows "\<exists>t. squint_reach K s t \<and> asleep t = 0 \<and> reader t = Idle \<and> writers t ! i = (Ready, ms) \<and>
     delivered t = delivered s @ out \<and> (\<forall>j < length (writers s). j \<noteq> i \<longrightarrow> writers t ! j = wake_up (writers s) ! j)"
proof -
  let ?s1 = "s\<lparr>fifo := f, reader := Copied, delivered := delivered s @ out\<rparr>"
  let ?s2 = "?s1\<lparr>reader := Waking\<rparr>"
  let ?s3 = "?s2\<lparr>asleep := 0, reader := WakeUp\<rparr>"
  let ?s4 = "?s3\<lparr>writers := wake_up (writers s), reader := Idle\<rparr>"
  let ?s5 = "?s4\<lparr>writers := (wake_up (writers s))[i := (Ready, ms)]\<rparr>"
  have w: "i < length (wake_up (writers s))" "wake_up (writers s) ! i = (Waiting, ms)"
    using assms(5,6) by (simp_all add: wake_up_def)
  have "squint_step K s ?s1" using assms(1,3) by (rule step_read)
  moreover have "squint_step K ?s1 ?s2" using assms(2,4) by (intro step_see) simp_all
  moreover have "squint_step K ?s2 ?s3" by (intro step_clear) simp
  moreover have "squint_step K ?s3 ?s4" using step_wake [of ?s3 K] by simp
  moreover have "squint_step K ?s4 ?s5"
    using step_resume [of i ?s4 ms K] w assms(4) by simp
  ultimately have "squint_reach K s ?s5" by (meson reach_refl reach_step)
  moreover have "writers ?s5 ! i = (Ready, ms)" using w by simp
  ultimately show ?thesis by (intro exI [of _ ?s5]) simp
qed

text \<open>A device filled to the threshold, with its writer asleep.\<close>

definition demo_asleep :: "string squint_sys" where
  "demo_asleep = \<lparr>fifo = replicate 16000 CHR ''a'', asleep = 1, writers = [(Asleep, [])], reader = Idle,
     delivered = [], attempted = replicate 16000 CHR ''a''\<rparr>"

theorem read_wakes_writers_witness:
  "\<exists>t. squint_reach demo_kernel demo_asleep t \<and> asleep t = 0 \<and> writers t ! 0 = (Ready, [])"
  using read_wakes_writers [of demo_asleep demo_kernel 1000 "replicate 15000 CHR ''a''" 1000
      "replicate 1000 CHR ''a''" 0 "[]"]
  by (auto simp: demo_asleep_def demo_kernel_def SquintDeviceRead_def KFIFO_THRESHOLD_LEN_def)

subsection \<open>A lost wake-up\<close>

text \<open>
  When the writer fills the device between the moment the reader has seen the flag and the
  moment it clears it, the writer goes back to sleep with the flag clear. A text of 199
  characters, and what writing it until the threshold is passed does.
\<close>

definition long_text :: string where "long_text = replicate 199 CHR ''a''"

definition burst :: "string list" where "burst = replicate 80 long_text"

lemma c_text_replicate: "c_text (replicate n CHR ''a'') = replicate n CHR ''a''"
  unfolding c_text_def by (induction n) simp_all

lemma long_text [simp]: "length long_text = 199" "c_text long_text = long_text"
  unfolding long_text_def by (simp, rule c_text_replicate)

lemma burst_eq: "burst = replicate (Suc 79) long_text"
  by (simp add: burst_def)

lemma write_long:
  assumes "length (fifo s) + 199 \<le> 16384" "writers s = [(Ready, long_text # ms)]"
  shows "squint_step demo_kernel s (s\<lparr>fifo := fifo s @ long_text, writers := [(Wrote, ms)],
     attempted := attempted s @ long_text\<rparr>)"
  using step_write [of 0 s long_text ms demo_kernel] assms
  by (simp add: squint_fifo_write_def demo_kernel_def)

lemma fill_device:
  assumes "length (fifo s) + 199 * k \<le> 15884" "writers s = [(Ready, replicate (Suc k) long_text @ ms)]"
  shows "\<exists>t. squint_reach demo_kernel s t \<and> writers t = [(Wrote, ms)] \<and> asleep t = asleep s \<and> reader t = reader s \<and>
     length (fifo t) = length (fifo s) + 199 * Suc k"
  using assms
proof (induction k arbitrary: s)
  case 0
  let ?t = "s\<lparr>fifo := fifo s @ long_text, writers := [(Wrote, ms)], attempted := attempted s @ long_text\<rparr>"
  have "squint_step demo_kernel s ?t" using 0 by (intro write_long) simp_all
  then have "squint_reach demo_kernel s ?t" by (rule reach_step [OF reach_refl])
  then show ?case by (intro exI [of _ ?t]) simp
next
  case (Suc k)
  let ?ms = "replicate (Suc k) long_text @ ms"
  let ?s1 = "s\<lparr>fifo := fifo s @ long_text, writers := [(Wrote, ?ms)], attempted := attempted s @ long_text\<rparr>"
  let ?s2 = "?s1\<lparr>writers := [(Ready, ?ms)]\<rparr>"
  have s1: "squint_step demo_kernel s ?s1" using Suc.prems by (intro write_long) simp_all
  have "\<not> kfifo_avail demo_kernel (fifo ?s1) < KFIFO_THRESHOLD_LEN"
    using Suc.prems(1) by (simp add: demo_kernel_def KFIFO_THRESHOLD_LEN_def)
  then have s2: "squint_step demo_kernel ?s1 ?s2"
    using step_enough [of 0 ?s1 ?ms demo_kernel] by simp
  have "length (fifo ?s2) + 199 * k \<le> 15884" "writers ?s2 = [(Ready, replicate (Suc k) long_text @ ms)]"
    using Suc.prems by simp_all
  from Suc.IH [OF this] obtain t where t: "squint_reach demo_kernel ?s2 t"
    "writers t = [(Wrote, ms)] \<and> asleep t = asleep ?s2 \<and> reader t = reader ?s2 \<and>
     length (fifo t) = length (fifo ?s2) + 199 * Suc k" by blast
  have "squint_reach demo_kernel s ?s2" by (rule reach_step [OF reach_step [OF reach_refl s1] s2])
  then have "squint_reach demo_kernel s t" by (rule reach_trans [OF t(1)])
  then show ?case using t(2) by (intro exI [of _ t]) simp
qed

text \<open>Reading the whole device.\<close>

lemma drain:
  assumes "reader s = Idle"
  shows "squint_step demo_kernel s (s\<lparr>fifo := [], reader := Copied, delivered := delivered s @ fifo s\<rparr>)"
  using step_read [OF assms, of demo_kernel "length (fifo s)" "[]" "length (fifo s)" "fifo s"]
  by (simp add: SquintDeviceRead_def demo_kernel_def)

lemma stale_flag:
  assumes "writers s = [(Ready, burst @ ms)]" "fifo s = []" "asleep s = 0" "reader s = Idle"
  shows "\<exists>t. squint_reach demo_kernel s t \<and> writers t = [(Ready, ms)] \<and> fifo t = [] \<and> asleep t = 1 \<and> reader t = Idle"
proof -
  obtain t where t: "squint_reach demo_kernel s t" "writers t = [(Wrote, ms)]" "asleep t = 0" "reader t = Idle"
    "length (fifo t) = 15920" using fill_device [of s 79 ms] assms by (auto simp: burst_eq)
  let ?t1 = "t\<lparr>writers := [(Low, ms)]\<rparr>"
  let ?t2 = "?t1\<lparr>fifo := [], reader := Copied, delivered := delivered ?t1 @ fifo ?t1\<rparr>"
  let ?t3 = "?t2\<lparr>reader := Idle\<rparr>"
  let ?t4 = "?t3\<lparr>asleep := 1, writers := [(Waiting, ms)]\<rparr>"
  let ?t5 = "?t4\<lparr>writers := [(Ready, ms)]\<rparr>"
  have "squint_step demo_kernel t ?t1" using step_low [of 0 t ms demo_kernel] t
    by (simp add: demo_kernel_def KFIFO_THRESHOLD_LEN_def)
  moreover have "squint_step demo_kernel ?t1 ?t2" using t by (intro drain) simp
  moreover have "squint_step demo_kernel ?t2 ?t3" using t by (intro step_return) simp_all
  moreover have "squint_step demo_kernel ?t3 ?t4" using step_mark [of 0 ?t3 ms demo_kernel] by simp
  moreover have "squint_step demo_kernel ?t4 ?t5" using step_resume [of 0 ?t4 ms demo_kernel]
    by (simp add: demo_kernel_def KFIFO_THRESHOLD_LEN_def)
  ultimately have "squint_reach demo_kernel s ?t5" using t(1) by (meson reach_step)
  then show ?thesis by (intro exI [of _ ?t5]) simp
qed

lemma sleeps_again:
  assumes "writers s = [(Ready, burst @ ms)]" "fifo s = []" "asleep s = 1" "reader s = Idle"
  shows "\<exists>t. squint_reach demo_kernel s t \<and> writers t = [(Asleep, ms)] \<and> fifo t = [] \<and> asleep t = 0 \<and> reader t = Idle"
proof -
  let ?s1 = "s\<lparr>fifo := [], reader := Copied, delivered := delivered s @ fifo s\<rparr>"
  let ?s2 = "?s1\<lparr>reader := Waking\<rparr>"
  have s1: "squint_step demo_kernel s ?s1" using assms by (intro drain) simp
  have s2: "squint_step demo_kernel ?s1 ?s2" using assms
    by (intro step_see) (simp_all add: demo_kernel_def KFIFO_THRESHOLD_LEN_def)
  obtain t where t: "squint_reach demo_kernel ?s2 t" "writers t = [(Wrote, ms)]" "asleep t = 1" "reader t = Waking"
    "length (fifo t) = 15920" using fill_device [of ?s2 79 ms] assms by (auto simp: burst_eq)
  let ?t1 = "t\<lparr>writers := [(Low, ms)]\<rparr>"
  let ?t2 = "?t1\<lparr>asleep := 1, writers := [(Waiting, ms)]\<rparr>"
  let ?t3 = "?t2\<lparr>writers := [(Asleep, ms)]\<rparr>"
  let ?t4 = "?t3\<lparr>asleep := 0, reader := WakeUp\<rparr>"
  let ?t5 = "?t4\<lparr>writers := [(Waiting, ms)], reader := Idle\<rparr>"
  let ?t6 = "?t5\<lparr>writers := [(Asleep, ms)]\<rparr>"
  let ?t7 = "?t6\<lparr>fifo := [], reader := Copied, delivered := delivered ?t6 @ fifo ?t6\<rparr>"
  let ?t8 = "?t7\<lparr>reader := Idle\<rparr>"
  have "squint_step demo_kernel t ?t1" using step_low [of 0 t ms demo_kernel] t
    by (simp add: demo_kernel_def KFIFO_THRESHOLD_LEN_def)
  moreover have "squint_step demo_kernel ?t1 ?t2" using step_mark [of 0 ?t1 ms demo_kernel] by simp
  moreover have "squint_step demo_kernel ?t2 ?t3" using step_sleep [of 0 ?t2 ms demo_kernel] t(5)
    by (simp add: demo_kernel_def KFIFO_THRESHOLD_LEN_def)
  moreover have "squint_step demo_kernel ?t3 ?t4" using t by (intro step_clear) simp
  moreover have "squint_step demo_kernel ?t4 ?t5" using step_wake [of ?t4 demo_kernel] by (simp add: wake_up_def)
  moreover have "squint_step demo_kernel ?t5 ?t6" using step_sleep [of 0 ?t5 ms demo_kernel] t(5)
    by (simp add: demo_kernel_def KFIFO_THRESHOLD_LEN_def)
  moreover have "squint_step demo_kernel ?t6 ?t7" by (intro drain) simp
  moreover have "squint_step demo_kernel ?t7 ?t8" by (intro step_return) simp_all
  ultimately have "squint_reach demo_kernel ?s2 ?t8" using t(1) by (meson reach_step)
  moreover have "squint_reach demo_kernel s ?s2" by (rule reach_step [OF reach_step [OF reach_refl s1] s2])
  ultimately have "squint_reach demo_kernel s ?t8" by (rule reach_trans)
  then show ?thesis by (intro exI [of _ ?t8]) simp
qed

lemma forgotten:
  assumes "squint_reach K s t" "writers s = [(Asleep, ms)]" "asleep s = 0" "reader s = Idle"
  shows "writers t = [(Asleep, ms)] \<and> asleep t = 0 \<and> reader t \<in> {Idle, Copied}"
  using assms
proof (induction rule: squint_reach.induct)
  case (reach_step s t u)
  then have "writers t = [(Asleep, ms)]" "asleep t = 0" "reader t \<in> {Idle, Copied}" by simp_all
  with reach_step(2) show ?case by cases (auto simp: less_Suc_eq)
qed simp

text \<open>
  C23: a writer can sleep forever beside an empty device. There is a schedule of one writer and
  one reader after which the device is empty and yet the writer is asleep, and whatever is read
  from then on, it stays asleep: the reader clears the flag after the writer has set it.
\<close>

theorem lost_wakeup:
  "\<exists>s. squint_reach demo_kernel (squint_start [] [burst @ burst @ [long_text]]) s \<and> fifo s = [] \<and>
     (\<forall>t. squint_reach demo_kernel s t \<longrightarrow> writers t = [(Asleep, [long_text])])"
proof -
  let ?s = "squint_start [] [burst @ burst @ [long_text]] :: string squint_sys"
  have "writers ?s = [(Ready, burst @ burst @ [long_text])]"
    "fifo ?s = []" "asleep ?s = 0" "reader ?s = Idle" by (simp_all add: squint_start_def)
  from stale_flag [OF this] obtain t where t: "squint_reach demo_kernel ?s t"
    "writers t = [(Ready, burst @ [long_text])]" "fifo t = []" "asleep t = 1" "reader t = Idle"
    by blast
  from sleeps_again [OF t(2-5)] obtain u where u: "squint_reach demo_kernel t u" "writers u = [(Asleep, [long_text])]"
    "fifo u = []" "asleep u = 0" "reader u = Idle" by blast
  have "squint_reach demo_kernel ?s u" by (rule reach_trans [OF u(1) t(1)])
  moreover have "writers v = [(Asleep, [long_text])]" if "squint_reach demo_kernel u v" for v
    using forgotten [OF that u(2,4,5)] by blast
  ultimately show ?thesis using u(3) by blast
qed

theorem lost_wakeup_witness:
  "\<exists>s. squint_reach demo_kernel (squint_start [] [burst @ burst @ [long_text]]) s \<and> fifo s = [] \<and>
     writers s = [(Asleep, [long_text])]"
  using lost_wakeup reach_refl by blast

end
