(* ===== verification/Instrumentation.thy ===== *)
theory Instrumentation
  imports Nova_Prelude
begin

text \<open>
  The LLVM passes that insert the calls of the trace functions (\<^verbatim>\<open>fencePass.cpp\<close>, and its copy of
  the correctness evaluation), and the test for persistent addresses (\<^verbatim>\<open>is_pmem.cpp\<close>).

  A function of the intermediate representation is its name and its blocks of instructions; an
  instruction that neither stores, fences nor calls is \<open>OtherInst\<close>. What the passes ask of LLVM is
  the record \<open>llvm\<close>: the instructions that a pointer cast emits with the value it gives, the
  size of a type, and the first place of a block where an instruction may be inserted.
\<close>

subsection \<open>Functions\<close>

datatype ir_val = Local nat | Argument nat | ConstantInt int

datatype ir_instr =
    StoreInst ir_val ir_val nat
  | FenceInst
  | CallInst string "ir_val list"
  | OtherInst string

record ir_function =
  fname :: string
  fblocks :: "ir_instr list list"

record llvm =
  pointer_cast :: "ir_val \<Rightarrow> ir_instr list \<times> ir_val"
  type_store_size :: "nat \<Rightarrow> nat"
  first_insertion :: "ir_instr list \<Rightarrow> nat"

text \<open>\<^verbatim>\<open>StringRef::contains\<close>.\<close>

fun is_prefix :: "string \<Rightarrow> string \<Rightarrow> bool" where
  "is_prefix [] ys = True"
| "is_prefix (x # xs) [] = False"
| "is_prefix (x # xs) (y # ys) = (x = y \<and> is_prefix xs ys)"

fun str_contains :: "string \<Rightarrow> string \<Rightarrow> bool" where
  "str_contains [] t = is_prefix t []"
| "str_contains (x # xs) t = (is_prefix t (x # xs) \<or> str_contains xs t)"

subsection \<open>The pass for stores\<close>

definition flush_function_name :: string where "flush_function_name = ''nova_flush_buffer''"
definition fence_function_name :: string where "fence_function_name = ''PERSISTENT_BARRIER''"

definition instrumentation_functions :: "string list" where
  "instrumentation_functions =
     [''write_fence_trace_wrapper'', ''write_flush_trace_wrapper'', ''write_store_trace_wrapper'']"

definition instrumented_function :: "ir_function \<Rightarrow> bool" where
  "instrumented_function F = list_ex (\<lambda>n. fname F = n) instrumentation_functions"

text \<open>
  What is inserted before an instruction: for a store the cast of its address and the call with
  the address and the size, which is kept in 32 bits. The loop over a block goes on behind the
  instruction, so what was inserted is not visited.
\<close>

definition instrument_inst :: "llvm \<Rightarrow> ir_instr \<Rightarrow> ir_instr list" where
  "instrument_inst L inst =
     (case inst of
        StoreInst v addr ty \<Rightarrow>
          let (casts, addr_long) = pointer_cast L addr
          in casts @ [CallInst ''write_store_trace_wrapper''
                        [addr_long, ConstantInt (s32_of (type_store_size L ty))], inst]
      | _ \<Rightarrow> [inst])"

fun is_store :: "ir_instr \<Rightarrow> bool" where
  "is_store (StoreInst v a t) = True"
| "is_store _ = False"

definition instrumentFunction :: "llvm \<Rightarrow> ir_function \<Rightarrow> ir_function \<times> bool" where
  "instrumentFunction L F =
     (if instrumented_function F then (F, False)
      else (F\<lparr>fblocks := map (\<lambda>BB. concat (map (instrument_inst L) BB)) (fblocks F)\<rparr>,
            list_ex (list_ex is_store) (fblocks F)))"

text \<open>The pass reports that all analyses are preserved, whether the function changed or not.\<close>

definition StoreFlushInstru_run :: "llvm \<Rightarrow> ir_function \<Rightarrow> ir_function \<times> bool" where
  "StoreFlushInstru_run L F = (fst (instrumentFunction L F), True)"

subsection \<open>The pass for fences and flushes\<close>

text \<open>
  Two global flags make the pass instrument at most one function of each kind. The callback goes
  to the first insertion point of the entry block; a function without a body has none.
\<close>

record pass_flags =
  instrument_fence_once :: bool
  instrument_flush_once :: bool

definition insert_at_entry :: "llvm \<Rightarrow> ir_instr list \<Rightarrow> ir_function \<Rightarrow> ir_function" where
  "insert_at_entry L new F =
     (case fblocks F of
        [] \<Rightarrow> F
      | BB # BBs \<Rightarrow>
          let i = first_insertion L BB in F\<lparr>fblocks := (take i BB @ new @ drop i BB) # BBs\<rparr>)"

definition FenceInstru_run :: "llvm \<Rightarrow> ir_function \<Rightarrow> pass_flags \<Rightarrow> ir_function \<times> pass_flags" where
  "FenceInstru_run L F fl =
     (if str_contains (fname F) fence_function_name \<and> \<not> instrument_fence_once fl then
        (insert_at_entry L [CallInst ''write_fence_trace_wrapper'' []] F, fl\<lparr>instrument_fence_once := True\<rparr>)
      else if str_contains (fname F) flush_function_name \<and> \<not> instrument_flush_once fl then
        (let (casts, addr_long) = pointer_cast L (Argument 0)
         in (insert_at_entry L (casts @ [CallInst ''write_flush_trace_wrapper'' [addr_long]]) F,
             fl\<lparr>instrument_flush_once := True\<rparr>))
      else (F, fl))"

text \<open>The pass manager runs the pass on the functions of a module one after the other.\<close>

fun run_module :: "llvm \<Rightarrow> ir_function list \<Rightarrow> pass_flags \<Rightarrow> ir_function list" where
  "run_module L [] fl = []"
| "run_module L (F # Fs) fl = (let (F', fl') = FenceInstru_run L F fl in F' # run_module L Fs fl')"

subsection \<open>The pass of the correctness evaluation\<close>

text \<open>The functions whose calls are instrumented take the flushed address as their first argument.\<close>

definition nvdimm_flush_name :: string where "nvdimm_flush_name = ''nvdimm_flush''"

definition instrument_inst_c :: "llvm \<Rightarrow> ir_instr \<Rightarrow> ir_instr list" where
  "instrument_inst_c L inst =
     (case inst of
        FenceInst \<Rightarrow> [CallInst ''write_fence_trace_wrapper'' [], inst]
      | StoreInst v addr ty \<Rightarrow>
          let (casts, addr_long) = pointer_cast L addr
          in casts @ [CallInst ''write_store_trace_wrapper''
                        [addr_long, ConstantInt (s32_of (type_store_size L ty))], inst]
      | CallInst f args \<Rightarrow>
          (case args of
             arg # _ \<Rightarrow>
               if str_contains f nvdimm_flush_name then
                 let (casts, addr_long) = pointer_cast L arg
                 in casts @ [CallInst ''write_flush_trace_wrapper'' [addr_long], inst]
               else [inst]
           | [] \<Rightarrow> [inst])
      | OtherInst _ \<Rightarrow> [inst])"

definition runOnFunction :: "llvm \<Rightarrow> ir_function \<Rightarrow> ir_function" where
  "runOnFunction L F =
     (if instrumented_function F then F
      else F\<lparr>fblocks := map (\<lambda>BB. concat (map (instrument_inst_c L) BB)) (fblocks F)\<rparr>)"

subsection \<open>Persistent addresses\<close>

record mem_range =
  lower :: nat
  upper :: nat

text \<open>The physical address and the size of the device, as its driver records them.\<close>

definition get_pmem_range :: "nat \<times> nat \<Rightarrow> mem_range" where
  "get_pmem_range dev = \<lparr>lower = fst dev, upper = u64_add (fst dev) (snd dev)\<rparr>"

definition is_pmem :: "(nat \<Rightarrow> nat) \<Rightarrow> nat \<times> nat \<Rightarrow> nat \<Rightarrow> bool" where
  "is_pmem virt_to_phys dev addr =
     (let phys_addr = virt_to_phys addr; pmem_range = get_pmem_range dev
      in lower pmem_range \<le> phys_addr \<and> phys_addr < upper pmem_range)"

end
