(* ===== verification/Instrumentation_Props.thy ===== *)
theory Instrumentation_Props
  imports Instrumentation
begin

text \<open>
  What the inserted calls do to the behaviour of a function: the memory effects and calls of a
  block, in order, before and after the passes.
\<close>

subsection \<open>Effects\<close>

datatype ir_effect = Write int nat | Fenced | Invoke string "int list"

fun effects_of :: "llvm \<Rightarrow> (ir_val \<Rightarrow> int) \<Rightarrow> ir_instr \<Rightarrow> ir_effect list" where
  "effects_of L \<rho> (StoreInst v a ty) = [Write (\<rho> a) (type_store_size L ty)]"
| "effects_of L \<rho> FenceInst = [Fenced]"
| "effects_of L \<rho> (CallInst f args) = [Invoke f (map \<rho> args)]"
| "effects_of L \<rho> (OtherInst s) = []"

definition block_effects :: "llvm \<Rightarrow> (ir_val \<Rightarrow> int) \<Rightarrow> ir_instr list \<Rightarrow> ir_effect list" where
  "block_effects L \<rho> BB = concat (map (effects_of L \<rho>) BB)"

text \<open>
  What is relied on of LLVM: a cast has no effects and keeps the value, a constant has its value,
  and types are smaller than 2 GB.
\<close>

definition llvm_ok :: "llvm \<Rightarrow> (ir_val \<Rightarrow> int) \<Rightarrow> bool" where
  "llvm_ok L \<rho> \<longleftrightarrow> (\<forall>v. \<rho> (snd (pointer_cast L v)) = \<rho> v \<and> block_effects L \<rho> (fst (pointer_cast L v)) = []) \<and>
     (\<forall>n. \<rho> (ConstantInt n) = n) \<and> (\<forall>ty. type_store_size L ty < 2 ^ 31)"

text \<open>The records that belong to an effect.\<close>

fun store_record :: "ir_effect \<Rightarrow> ir_effect list" where
  "store_record (Write a n) = [Invoke ''write_store_trace_wrapper'' [a, int n]]"
| "store_record _ = []"

fun pm_record :: "ir_effect \<Rightarrow> ir_effect list" where
  "pm_record (Write a n) = [Invoke ''write_store_trace_wrapper'' [a, int n]]"
| "pm_record Fenced = [Invoke ''write_fence_trace_wrapper'' []]"
| "pm_record (Invoke f (a # as)) =
     (if str_contains f nvdimm_flush_name then [Invoke ''write_flush_trace_wrapper'' [a]] else [])"
| "pm_record (Invoke f []) = []"

definition with_records :: "(ir_effect \<Rightarrow> ir_effect list) \<Rightarrow> ir_effect list \<Rightarrow> ir_effect list" where
  "with_records r es = concat (map (\<lambda>e. r e @ [e]) es)"

fun is_trace_call :: "ir_effect \<Rightarrow> bool" where
  "is_trace_call (Invoke f args) = (f \<in> set instrumentation_functions)"
| "is_trace_call _ = False"

lemma block_effects_append: "block_effects L \<rho> (xs @ ys) = block_effects L \<rho> xs @ block_effects L \<rho> ys"
  by (simp add: block_effects_def)

lemma block_effects_Cons: "block_effects L \<rho> (x # xs) = effects_of L \<rho> x @ block_effects L \<rho> xs"
  by (simp add: block_effects_def)

lemma with_records_append: "with_records r (xs @ ys) = with_records r xs @ with_records r ys"
  by (simp add: with_records_def)

lemma effects_Nil [simp]: "block_effects L \<rho> [] = []" "with_records r [] = []"
  by (simp_all add: block_effects_def with_records_def)

text \<open>A rewriting of instructions that adds the records of their effects does so for blocks.\<close>

lemma block_with_records:
  assumes "\<And>x. x \<in> set BB \<Longrightarrow> block_effects L \<rho> (g x) = with_records r (effects_of L \<rho> x)"
  shows "block_effects L \<rho> (concat (map g BB)) = with_records r (block_effects L \<rho> BB)"
  using assms
  by (induction BB) (simp_all add: block_effects_append block_effects_Cons with_records_append)

lemma cast_store:
  assumes "llvm_ok L \<rho>"
  shows "block_effects L \<rho> (case pointer_cast L a of (casts, addr_long) \<Rightarrow> casts @ [CallInst f [addr_long, ConstantInt (s32_of (type_store_size L ty))], inst]) =
    Invoke f [\<rho> a, int (type_store_size L ty)] # effects_of L \<rho> inst"
  using assms
  by (cases "pointer_cast L a") (auto simp: llvm_ok_def block_effects_append block_effects_Cons dest: spec [of _ a])

lemma cast_flush:
  assumes "llvm_ok L \<rho>"
  shows "block_effects L \<rho> (case pointer_cast L a of (casts, addr_long) \<Rightarrow> casts @ [CallInst f [addr_long], inst]) = Invoke f [\<rho> a] # effects_of L \<rho> inst"
  using assms
  by (cases "pointer_cast L a") (auto simp: llvm_ok_def block_effects_append block_effects_Cons dest: spec [of _ a])

lemma inst_records:
  "llvm_ok L \<rho> \<Longrightarrow> block_effects L \<rho> (instrument_inst L x) = with_records store_record (effects_of L \<rho> x)"
  by (cases x) (simp_all add: instrument_inst_def cast_store block_effects_Cons with_records_def)

lemma inst_records_c:
  "llvm_ok L \<rho> \<Longrightarrow> block_effects L \<rho> (instrument_inst_c L x) = with_records pm_record (effects_of L \<rho> x)"
  by (cases x)
    (simp_all add: instrument_inst_c_def cast_store cast_flush block_effects_Cons with_records_def split: list.splits)

lemma remove_records:
  assumes "\<And>e. list_all is_trace_call (r e)" "list_all (\<lambda>e. \<not> is_trace_call e) es"
  shows "filter (\<lambda>e. \<not> is_trace_call e) (with_records r es) = es"
proof -
  have "filter (\<lambda>e. \<not> is_trace_call e) (r e) = []" for e
    using assms(1) [of e] by (simp add: filter_empty_conv list_all_iff)
  then show ?thesis using assms(2) by (induction es) (simp_all add: with_records_def)
qed

subsection \<open>Properties\<close>

text \<open>
  C25: the pass for stores traces every store and changes nothing else. In a function that is not
  itself a trace function, every write to memory is preceded at once by a call of the store trace
  function with the address and the size of the write; all other effects are as before and in the
  same order, so that without the trace calls the effects are those of the original function. The
  trace functions are left as they are.
\<close>

theorem stores_traced:
  assumes "llvm_ok L \<rho>" "fst (StoreFlushInstru_run L F) = F'"
  shows "if instrumented_function F then F' = F
     else fname F' = fname F \<and>
       map (block_effects L \<rho>) (fblocks F') = map (\<lambda>BB. with_records store_record (block_effects L \<rho> BB)) (fblocks F) \<and>
       (list_all (\<lambda>BB. list_all (\<lambda>e. \<not> is_trace_call e) (block_effects L \<rho> BB)) (fblocks F) \<longrightarrow>
        map (\<lambda>BB. filter (\<lambda>e. \<not> is_trace_call e) (block_effects L \<rho> BB)) (fblocks F') =
          map (block_effects L \<rho>) (fblocks F))"
proof (cases "instrumented_function F")
  case True
  then show ?thesis using assms(2) by (simp add: StoreFlushInstru_run_def instrumentFunction_def)
next
  case False
  have b: "block_effects L \<rho> (concat (map (instrument_inst L) BB)) = with_records store_record (block_effects L \<rho> BB)" for BB
    by (rule block_with_records) (rule inst_records [OF assms(1)])
  have r: "list_all is_trace_call (store_record e)" for e
    by (cases e) (simp_all add: instrumentation_functions_def)
  have "fblocks F' = map (\<lambda>BB. concat (map (instrument_inst L) BB)) (fblocks F)" "fname F' = fname F"
    using assms(2) False by (auto simp: StoreFlushInstru_run_def instrumentFunction_def)
  then show ?thesis using False remove_records [OF r] by (auto simp: b list_all_iff)
qed

text \<open>A function with one store, whose address is cast by one instruction.\<close>

definition demo_llvm :: llvm where
  "demo_llvm = \<lparr>pointer_cast = (\<lambda>v. ([OtherInst ''ptrtoint''], v)), type_store_size = (\<lambda>t. 8), first_insertion = (\<lambda>_. 0)\<rparr>"

fun demo_val :: "ir_val \<Rightarrow> int" where
  "demo_val (Local n) = 4096"
| "demo_val (Argument n) = 64"
| "demo_val (ConstantInt c) = c"

definition demo_function :: ir_function where
  "demo_function = \<lparr>fname = ''use'', fblocks = [[StoreInst (ConstantInt 2) (Local 0) 1, FenceInst,
     CallInst ''nvdimm_flush'' [Argument 0]]]\<rparr>"

lemma demo_llvm_ok: "llvm_ok demo_llvm demo_val"
  by (simp add: llvm_ok_def demo_llvm_def block_effects_def)

theorem stores_traced_witness:
  "map (block_effects demo_llvm demo_val) (fblocks (fst (StoreFlushInstru_run demo_llvm demo_function))) =
     [[Invoke ''write_store_trace_wrapper'' [4096, 8], Write 4096 8, Fenced, Invoke ''nvdimm_flush'' [64]]]"
  using stores_traced [OF demo_llvm_ok refl, of demo_function]
  by (simp add: instrumented_function_def instrumentation_functions_def demo_function_def block_effects_def
      with_records_def demo_llvm_def)

text \<open>
  C26: the pass of the correctness evaluation records every store, every fence and every call of a
  flush function, each just before it happens, and changes nothing else.
\<close>

theorem correctness_pass_traces:
  assumes "llvm_ok L \<rho>" "\<not> instrumented_function F"
  shows "map (block_effects L \<rho>) (fblocks (runOnFunction L F)) =
     map (\<lambda>BB. with_records pm_record (block_effects L \<rho> BB)) (fblocks F)"
proof -
  have "block_effects L \<rho> (concat (map (instrument_inst_c L) BB)) = with_records pm_record (block_effects L \<rho> BB)" for BB
    by (rule block_with_records) (rule inst_records_c [OF assms(1)])
  then show ?thesis using assms(2) by (simp add: runOnFunction_def)
qed

theorem correctness_pass_traces_witness:
  "map (block_effects demo_llvm demo_val) (fblocks (runOnFunction demo_llvm demo_function)) =
     [[Invoke ''write_store_trace_wrapper'' [4096, 8], Write 4096 8, Invoke ''write_fence_trace_wrapper'' [], Fenced,
       Invoke ''write_flush_trace_wrapper'' [64], Invoke ''nvdimm_flush'' [64]]]"
proof -
  have "\<not> instrumented_function demo_function"
    by (simp add: instrumented_function_def instrumentation_functions_def demo_function_def)
  from correctness_pass_traces [OF demo_llvm_ok this] show ?thesis
    by (simp add: demo_function_def block_effects_def with_records_def demo_llvm_def nvdimm_flush_name_def)
qed

subsection \<open>One fence and one flush function per module\<close>

definition first_match :: "string \<Rightarrow> ir_function list \<Rightarrow> nat \<Rightarrow> bool" where
  "first_match n Fs j \<longleftrightarrow> j < length Fs \<and> str_contains (fname (Fs ! j)) n \<and> (\<forall>k < j. \<not> str_contains (fname (Fs ! k)) n)"

lemma first_match_0: "first_match n (F # Fs) 0 \<longleftrightarrow> str_contains (fname F) n"
  by (simp add: first_match_def)

lemma first_match_Suc: "first_match n (F # Fs) (Suc j) \<longleftrightarrow> \<not> str_contains (fname F) n \<and> first_match n Fs j"
  by (auto simp: first_match_def less_Suc_eq_0_disj)

definition flush_callback :: "llvm \<Rightarrow> ir_instr list" where
  "flush_callback L = fst (pointer_cast L (Argument 0)) @
     [CallInst ''write_flush_trace_wrapper'' [snd (pointer_cast L (Argument 0))]]"

lemma run_module_nth:
  assumes "j < length Fs" "\<forall>F \<in> set Fs. \<not> (str_contains (fname F) fence_function_name \<and> str_contains (fname F) flush_function_name)"
  shows "run_module L Fs fl ! j =
    (if \<not> instrument_fence_once fl \<and> first_match fence_function_name Fs j
       then insert_at_entry L [CallInst ''write_fence_trace_wrapper'' []] (Fs ! j)
     else if \<not> instrument_flush_once fl \<and> first_match flush_function_name Fs j
       then insert_at_entry L (flush_callback L) (Fs ! j)
     else Fs ! j)"
  using assms
proof (induction Fs arbitrary: j fl)
  case (Cons F Fs)
  let ?fe = "str_contains (fname F) fence_function_name" and ?fl = "str_contains (fname F) flush_function_name"
  have run: "FenceInstru_run L F fl =
    (if ?fe \<and> \<not> instrument_fence_once fl
       then (insert_at_entry L [CallInst ''write_fence_trace_wrapper'' []] F, fl\<lparr>instrument_fence_once := True\<rparr>)
     else if ?fl \<and> \<not> instrument_flush_once fl
       then (insert_at_entry L (flush_callback L) F, fl\<lparr>instrument_flush_once := True\<rparr>)
     else (F, fl))"
    by (simp add: FenceInstru_run_def flush_callback_def split: prod.splits)
  show ?case
  proof (cases j)
    case 0
    then show ?thesis by (simp add: run first_match_0)
  next
    case (Suc i)
    then have "i < length Fs" and excl: "\<not> (?fe \<and> ?fl)"
      "\<forall>F \<in> set Fs. \<not> (str_contains (fname F) fence_function_name \<and> str_contains (fname F) flush_function_name)"
      using Cons.prems by auto
    then show ?thesis using Cons.IH Suc by (auto simp: run first_match_Suc)
  qed
qed simp

text \<open>
  C27: over a module the pass inserts the fence callback at the entry of the first function whose
  name contains the name of the barrier, the flush callback at the entry of the first one whose
  name contains the name of the flush, and leaves all others as they are. No function name
  contains both.
\<close>

theorem first_barrier_instrumented:
  assumes "j < length Fs" "instrument_fence_once fl = False" "instrument_flush_once fl = False"
    and "\<forall>F \<in> set Fs. \<not> (str_contains (fname F) fence_function_name \<and> str_contains (fname F) flush_function_name)"
  shows "length (run_module L Fs fl) = length Fs \<and> run_module L Fs fl ! j =
    (if first_match fence_function_name Fs j
       then insert_at_entry L [CallInst ''write_fence_trace_wrapper'' []] (Fs ! j)
     else if first_match flush_function_name Fs j then insert_at_entry L (flush_callback L) (Fs ! j)
     else Fs ! j)"
proof -
  have "length (run_module L Fs fl) = length Fs"
    by (induction L Fs fl rule: run_module.induct) (simp_all split: prod.splits)
  then show ?thesis using run_module_nth [OF assms(1,4)] assms(2,3) by simp
qed

definition demo_module :: "ir_function list" where
  "demo_module = [\<lparr>fname = ''nova_flush_buffer'', fblocks = [[]]\<rparr>, \<lparr>fname = ''nova_flush_buffer.1'', fblocks = [[]]\<rparr>]"

theorem first_barrier_instrumented_witness:
  "run_module demo_llvm demo_module \<lparr>instrument_fence_once = False, instrument_flush_once = False\<rparr> ! 1 = demo_module ! 1"
proof -
  let ?fl = "\<lparr>instrument_fence_once = False, instrument_flush_once = False\<rparr>"
  have a: "\<not> first_match fence_function_name demo_module 1" "\<not> first_match flush_function_name demo_module 1"
    by (auto simp: demo_module_def first_match_def fence_function_name_def flush_function_name_def)
  have "1 < length demo_module"
    "\<forall>F \<in> set demo_module. \<not> (str_contains (fname F) fence_function_name \<and> str_contains (fname F) flush_function_name)"
    by (simp_all add: demo_module_def fence_function_name_def)
  then show ?thesis using first_barrier_instrumented [of 1 demo_module ?fl demo_llvm] a by (simp del: run_module.simps)
qed

subsection \<open>Persistent addresses\<close>

lemma is_pmem_range:
  "fst dev + snd dev < 2 ^ 64 \<Longrightarrow> is_pmem v2p dev addr \<longleftrightarrow> v2p addr \<in> {fst dev..<fst dev + snd dev}"
  by (simp add: is_pmem_def get_pmem_range_def Let_def)

end
