(* ===== verification/Inode_Map.thy ===== *)
theory Inode_Map
  imports Nova_Layout Balloc
begin

text \<open>
  Inode numbers and inode tables, the first part of \<^verbatim>\<open>inode.c\<close>. Every CPU has a tree of the ranges
  of inode numbers in use; an inode number is \<open>internal * cpus + cpu\<close>. The inodes themselves lie in
  chains of 2 MB blocks, one chain per CPU and one more for the replicas; the last eight bytes
  of a block are the address of the next one.
\<close>

definition NOVA_BLOCK_TYPE_2M :: nat where "NOVA_BLOCK_TYPE_2M = 1"
definition NOVA_INODETABLE_INO :: nat where "NOVA_INODETABLE_INO = 2"

subsection \<open>The trees of used numbers\<close>

definition nova_alloc_inode_node :: "nova_env \<Rightarrow> slab \<Rightarrow> slab \<times> ptr option" where
  "nova_alloc_inode_node E s = nova_alloc_range_node E s"

definition nova_free_inode_node :: "slab \<Rightarrow> ptr \<Rightarrow> slab" where
  "nova_free_inode_node s p = nova_free_range_node s p"

definition get_inode_map :: "sb_info \<Rightarrow> nat \<Rightarrow> inode_map res" where
  "get_inode_map sbi cpu = (if cpu < length (inode_maps sbi) then Inr (inode_maps sbi ! cpu) else Inl EOOPS)"

definition set_inode_map :: "nat \<Rightarrow> inode_map \<Rightarrow> slab \<Rightarrow> sb_info \<Rightarrow> sb_info" where
  "set_inode_map cpu im s sbi = sbi\<lparr>inode_maps := (inode_maps sbi)[cpu := im], nodes := s\<rparr>"

definition nova_insert_inodetree :: "nova_env \<Rightarrow> slab \<Rightarrow> inode_map \<Rightarrow> ptr \<Rightarrow> ptr tree res" where
  "nova_insert_inodetree E s im new_node = nova_insert_range_node E s (inode_inuse_tree im) new_node NODE_INODE"

definition nova_search_inodetree :: "nova_env \<Rightarrow> sb_info \<Rightarrow> inode_map \<Rightarrow> nat \<Rightarrow> bool \<times> ptr option" where
  "nova_search_inodetree E sbi im i = nova_find_range_node E (nodes sbi) (inode_inuse_tree im) (i div cpus sbi) NODE_INODE None"

text \<open>One round of the loop of \<open>nova_init_inode_inuse_list\<close>; the nodes made before a failure stay.\<close>

definition init_inuse_map :: "nova_env \<Rightarrow> nat \<Rightarrow> nat \<Rightarrow> sb_info \<Rightarrow> sb_info \<times> unit res" where
  "init_inuse_map E high i sbi =
     (case get_inode_map sbi i of
        Inl e \<Rightarrow> (sbi, Inl e)
      | Inr im \<Rightarrow>
          (case nova_alloc_inode_node E (nodes sbi) of
             (s, None) \<Rightarrow> (sbi\<lparr>nodes := s\<rparr>, Inl ENOMEM)
           | (s, Some p) \<Rightarrow>
               let s = nova_update_range_node_checksum E p (set_high p high (set_low p 0 s)) in
               case nova_insert_inodetree E s im p of
                 Inl e \<Rightarrow> (sbi\<lparr>nodes := nova_free_inode_node s p\<rparr>, Inl e)
               | Inr t \<Rightarrow>
                   (set_inode_map i (im\<lparr>inode_inuse_tree := t, num_range_node_inode := 1, first_inode_range := Some p\<rparr>)
                      s sbi, Inr ())))"

fun init_inuse_loop :: "nova_env \<Rightarrow> nat \<Rightarrow> nat list \<Rightarrow> sb_info \<Rightarrow> sb_info \<times> unit res" where
  "init_inuse_loop E high [] sbi = (sbi, Inr ())"
| "init_inuse_loop E high (i # is) sbi =
     (case init_inuse_map E high i sbi of
        (sbi, Inl e) \<Rightarrow> (sbi, Inl e)
      | (sbi, Inr _) \<Rightarrow> init_inuse_loop E high is sbi)"

definition nova_init_inode_inuse_list :: "nova_env \<Rightarrow> sb_info \<Rightarrow> sb_info \<times> unit res" where
  "nova_init_inode_inuse_list E sbi =
     (let sbi = sbi\<lparr>s_inodes_used_count := NOVA_NORMAL_INODE_START\<rparr>;
          high = NOVA_NORMAL_INODE_START div cpus sbi + (if NOVA_NORMAL_INODE_START mod cpus sbi \<noteq> 0 then 1 else 0)
      in init_inuse_loop E high [0..<cpus sbi] sbi)"

subsection \<open>Allocating and freeing a number\<close>

definition MAX_INODE :: nat where "MAX_INODE = 2 ^ 31"

definition nova_alloc_unused_inode :: "nova_env \<Rightarrow> sb_info \<Rightarrow> nat \<Rightarrow> sb_info \<times> nat res" where
  "nova_alloc_unused_inode E sbi cpuid =
     (case get_inode_map sbi cpuid of
        Inl e \<Rightarrow> (sbi, Inl e)
      | Inr im \<Rightarrow>
          (case first_inode_range im of
             None \<Rightarrow> (sbi, Inl EOOPS)
           | Some i \<Rightarrow>
               let s = nodes sbi; next_i = rb_next i (inode_inuse_tree im) in
               if \<not> nova_range_node_checksum_ok E (node_of s i) then (sbi, Inl EIO)
               else if (case next_i of None \<Rightarrow> False | Some q \<Rightarrow> \<not> nova_range_node_checksum_ok E (node_of s q))
                    then (sbi, Inl EIO)
               else
                 let next_range_low = (case next_i of None \<Rightarrow> MAX_INODE | Some q \<Rightarrow> range_low (node_of s q));
                     new_ino = u64_add (range_high (node_of s i)) 1;
                     taken = (\<lambda>im s. (set_inode_map cpuid (im\<lparr>allocated := allocated im + 1\<rparr>) s
                                       (sbi\<lparr>s_inodes_used_count := u64_add (s_inodes_used_count sbi) 1\<rparr>),
                                     Inr (u64_add (u64_mul new_ino (cpus sbi)) cpuid)))
                 in if next_i \<noteq> None \<and> new_ino = u64_sub next_range_low 1 then
                      (case next_i of
                         None \<Rightarrow> (sbi, Inl EOOPS)
                       | Some q \<Rightarrow>
                           let s = nova_update_range_node_checksum E i (set_high i (range_high (node_of s q)) s)
                           in taken (im\<lparr>inode_inuse_tree := rb_erase E q (inode_inuse_tree im),
                                       num_range_node_inode := u64_sub (num_range_node_inode im) 1\<rparr>)
                                (nova_free_inode_node s q))
                    else if new_ino < u64_sub next_range_low 1 then
                      taken im (nova_update_range_node_checksum E i (set_high i new_ino s))
                    else (sbi, Inl ENOSPC)))"

text \<open>
  Freeing a number inside a range splits the range. When there is no memory for the second
  node the number stays in use, but the counters and the return value say that it was freed.
\<close>

definition nova_free_inuse_inode :: "nova_env \<Rightarrow> sb_info \<Rightarrow> nat \<Rightarrow> sb_info \<times> unit res" where
  "nova_free_inuse_inode E sbi i_num =
     (let cpuid = i_num mod cpus sbi; internal_ino = i_num div cpus sbi in
      case get_inode_map sbi cpuid of
        Inl e \<Rightarrow> (sbi, Inl e)
      | Inr im \<Rightarrow>
          (case nova_search_inodetree E sbi im i_num of
             (True, Some i) \<Rightarrow>
               let s = nodes sbi; low = range_low (node_of s i); high = range_high (node_of s i);
                   block_found = (\<lambda>im s. (set_inode_map cpuid (im\<lparr>freed := freed im + 1\<rparr>) s
                                    (sbi\<lparr>s_inodes_used_count := u64_sub (s_inodes_used_count sbi) 1\<rparr>), Inr ()))
               in if internal_ino = low \<and> internal_ino = high then
                    block_found (im\<lparr>inode_inuse_tree := rb_erase E i (inode_inuse_tree im),
                                    num_range_node_inode := u64_sub (num_range_node_inode im) 1\<rparr>)
                      (nova_free_inode_node s i)
                  else if internal_ino = low \<and> internal_ino < high then
                    block_found im (nova_update_range_node_checksum E i (set_low i (internal_ino + 1) s))
                  else if low < internal_ino \<and> internal_ino = high then
                    block_found im (nova_update_range_node_checksum E i (set_high i (internal_ino - 1) s))
                  else if low < internal_ino \<and> internal_ino < high then
                    (case nova_alloc_inode_node E s of
                       (s, None) \<Rightarrow> block_found im s
                     | (s, Some p) \<Rightarrow>
                         let s = nova_update_range_node_checksum E p (set_high p high (set_low p (internal_ino + 1) s));
                             s = nova_update_range_node_checksum E i (set_high i (internal_ino - 1) s)
                         in case nova_insert_inodetree E s im p of
                              Inl e \<Rightarrow> (sbi\<lparr>nodes := nova_free_inode_node s p\<rparr>, Inl e)
                            | Inr t \<Rightarrow>
                                block_found (im\<lparr>inode_inuse_tree := t,
                                                num_range_node_inode := u64_add (num_range_node_inode im) 1\<rparr>) s)
                  else (sbi, Inr ())
           | _ \<Rightarrow> (sbi, Inl EINVAL)))"

subsection \<open>Inode tables\<close>

definition table_direction :: "nat \<Rightarrow> nova_alloc_direction" where
  "table_direction version = (if version \<noteq> 0 then ALLOC_FROM_TAIL else ALLOC_FROM_HEAD)"

fun alloc_table_loop :: "nova_env \<Rightarrow> nat \<Rightarrow> nat \<Rightarrow> nat list \<Rightarrow> sb_info \<Rightarrow> sb_info \<times> unit res" where
  "alloc_table_loop E smp version [] sbi = (sbi, Inr ())"
| "alloc_table_loop E smp version (i # is) sbi =
     (case nova_get_inode_table sbi version i of
        None \<Rightarrow> (sbi, Inl EINVAL)
      | Some inode_table \<Rightarrow>
          (case nova_new_log_blocks E smp sbi NOVA_BLOCK_TYPE_2M 1 True (int i) (table_direction version) of
             (sbi, Inl EOOPS) \<Rightarrow> (sbi, Inl EOOPS)
           | (sbi, Inl e) \<Rightarrow> (sbi, Inl ENOSPC)
           | (sbi, Inr (blocknr, got)) \<Rightarrow>
               if got \<noteq> 1 \<or> blocknr = 0 then (sbi, Inl ENOSPC)
               else alloc_table_loop E smp version is
                      (sbi\<lparr>pmem := nova_flush_buffer (support_clwb E) inode_table CACHELINE_SIZE False
                                     (write_le 8 inode_table (nova_get_block_off blocknr) (pmem sbi))\<rparr>)))"

definition nova_alloc_inode_table :: "nova_env \<Rightarrow> nat \<Rightarrow> nat \<Rightarrow> sb_info \<Rightarrow> sb_info \<times> unit res" where
  "nova_alloc_inode_table E smp version sbi = alloc_table_loop E smp version [0..<cpus sbi] sbi"

definition nova_init_inode_table :: "nova_env \<Rightarrow> nat \<Rightarrow> sb_info \<Rightarrow> sb_info \<times> unit res" where
  "nova_init_inode_table E smp sbi =
     (case nova_get_inode_by_ino NOVA_INODETABLE_INO of
        None \<Rightarrow> (sbi, Inl EOOPS)
      | Some pi \<Rightarrow>
          let P = pmem sbi;
              P = set_field nova_inode I_mode pi 0 P;
              P = set_field nova_inode I_uid pi 0 P;
              P = set_field nova_inode I_gid pi 0 P;
              P = set_field nova_inode I_links_count pi 1 P;
              P = set_field nova_inode I_flags pi 0 P;
              P = set_field nova_inode I_nova_ino pi NOVA_INODETABLE_INO P;
              P = set_field nova_inode I_blk_type pi NOVA_BLOCK_TYPE_2M P;
              barrier = (\<lambda>sbi. (sbi\<lparr>pmem := PERSISTENT_BARRIER (pmem sbi)\<rparr>, Inr ()))
          in case nova_alloc_inode_table E smp 0 (sbi\<lparr>pmem := P\<rparr>) of
               (sbi, Inl e) \<Rightarrow> (sbi, Inl e)
             | (sbi, Inr _) \<Rightarrow>
                 if metadata_csum E then
                   (case nova_alloc_inode_table E smp 1 sbi of
                      (sbi, Inl e) \<Rightarrow> (sbi, Inl e) | (sbi, Inr _) \<Rightarrow> barrier sbi)
                 else barrier sbi)"

text \<open>
  Following the chain of a table for \<open>n\<close> links, extending it where it ends. The walk either
  reaches a block, with a flag that says whether the table was extended, or the whole function
  returns: \<open>Inl e\<close> for \<open>- e\<close>, \<open>Inr n\<close> for a return value \<open>n\<close> that is not negative.
\<close>

datatype walk = Reached nat bool | Returned "int res"

definition SUPERPAGE :: nat where "SUPERPAGE = 0x200000"

definition extend_table ::
    "nova_env \<Rightarrow> nat \<Rightarrow> nat \<Rightarrow> nat \<Rightarrow> nat \<Rightarrow> sb_info \<Rightarrow> sb_info \<times> walk" where
  "extend_table E smp version cpuid curr_addr sbi =
     (case nova_new_log_blocks E smp sbi NOVA_BLOCK_TYPE_2M 1 True (int cpuid) (table_direction version) of
        (sbi, Inl e) \<Rightarrow> (sbi, Returned (Inl e))
      | (sbi, Inr (blocknr, got)) \<Rightarrow>
          if got \<noteq> 1 then (sbi, Returned (Inr got))
          else
            let cur = nova_get_block_off blocknr in
            (sbi\<lparr>pmem := nova_flush_buffer (support_clwb E) curr_addr NOVA_INODE_SIZE True
                            (write_le 8 curr_addr cur (pmem sbi))\<rparr>, Reached cur True))"

fun walk_table ::
    "nova_env \<Rightarrow> nat \<Rightarrow> nat \<Rightarrow> nat \<Rightarrow> bool \<Rightarrow> nat \<Rightarrow> nat \<Rightarrow> bool \<Rightarrow> sb_info \<Rightarrow> sb_info \<times> walk" where
  "walk_table E smp version cpuid extendable 0 cur extended sbi = (sbi, Reached cur extended)"
| "walk_table E smp version cpuid extendable (Suc n) cur extended sbi =
     (if cur = 0 then (sbi, Returned (Inl EINVAL))
      else
        let curr_addr = cur + SUPERPAGE - 8; cur = read_le 8 (pmem sbi) curr_addr in
        if cur \<noteq> 0 then walk_table E smp version cpuid extendable n cur extended sbi
        else if \<not> extendable then (sbi, Returned (Inl EINVAL))
        else case extend_table E smp version cpuid curr_addr sbi of
               (sbi, Reached cur ext) \<Rightarrow> walk_table E smp version cpuid extendable n cur ext sbi
             | (sbi, Returned r) \<Rightarrow> (sbi, Returned r))"

definition NUM_INODES_BITS :: nat where "NUM_INODES_BITS = 21 - NOVA_INODE_BITS"

definition table_walk :: "nova_env \<Rightarrow> nat \<Rightarrow> sb_info \<Rightarrow> nat \<Rightarrow> nat \<Rightarrow> bool \<Rightarrow> sb_info \<times> walk" where
  "table_walk E smp sbi i version extendable =
     (let cpuid = i mod cpus sbi;
          superpage_count = u32_trunc (i div cpus sbi div 2 ^ NUM_INODES_BITS)
      in case nova_get_inode_table sbi version cpuid of
           None \<Rightarrow> (sbi, Returned (Inl EOOPS))
         | Some inode_table \<Rightarrow>
             let cur = read_le 8 (pmem sbi) inode_table in
             if cur = 0 then (sbi, Returned (Inl EINVAL))
             else walk_table E smp version cpuid extendable superpage_count cur False sbi)"

text \<open>
  \<open>nova_get_inode_address\<close> returns its code and what \<^verbatim>\<open>*pi_addr\<close> holds afterwards. The recursive
  call for the replica table does not recurse again, and its result is not used.
\<close>

definition nova_get_inode_address ::
    "nova_env \<Rightarrow> nat \<Rightarrow> sb_info \<Rightarrow> nat \<Rightarrow> nat \<Rightarrow> nat \<Rightarrow> bool \<Rightarrow> bool \<Rightarrow> sb_info \<times> int res \<times> nat" where
  "nova_get_inode_address E smp sbi i version addr extendable extend_alternate =
     (if i < NOVA_NORMAL_INODE_START then (sbi, Inr 0, nova_get_reserved_inode_addr i)
      else
        let index = i div cpus sbi mod 2 ^ NUM_INODES_BITS in
        case table_walk E smp sbi i version extendable of
          (sbi, Returned r) \<Rightarrow> (sbi, r, addr)
        | (sbi, Reached cur extended) \<Rightarrow>
            if extended \<and> extend_alternate \<and> metadata_csum E then
              (case table_walk E smp sbi i (version + 1) extendable of
                 (sbi, Returned (Inl EOOPS)) \<Rightarrow> (sbi, Inl EOOPS, addr)
               | (sbi, _) \<Rightarrow> (sbi, Inr 0, cur + index * NOVA_INODE_SIZE))
            else (sbi, Inr 0, cur + index * NOVA_INODE_SIZE))"

definition nova_get_alter_inode_address ::
    "nova_env \<Rightarrow> nat \<Rightarrow> sb_info \<Rightarrow> nat \<Rightarrow> nat \<Rightarrow> sb_info \<times> int res \<times> nat" where
  "nova_get_alter_inode_address E smp sbi i addr =
     (if \<not> metadata_csum E then (sbi, Inr 0, addr)
      else if i < NOVA_NORMAL_INODE_START then (sbi, Inr 0, nova_get_alter_reserved_inode_addr sbi i)
      else nova_get_inode_address E smp sbi i 1 addr False False)"

text \<open>A new inode: its number, 0 for a failure (the number then stays in use), and \<^verbatim>\<open>*pi_addr\<close>.\<close>

definition nova_new_nova_inode :: "nova_env \<Rightarrow> nat \<Rightarrow> sb_info \<Rightarrow> nat \<Rightarrow> sb_info \<times> nat res \<times> nat" where
  "nova_new_nova_inode E smp sbi addr =
     (let id = map_id sbi;
          sbi = sbi\<lparr>map_id := (map_id sbi + 1) mod cpus sbi\<rparr>
      in case nova_alloc_unused_inode E sbi id of
           (sbi, Inl EOOPS) \<Rightarrow> (sbi, Inl EOOPS, addr)
         | (sbi, Inl e) \<Rightarrow> (sbi, Inr 0, addr)
         | (sbi, Inr free_ino) \<Rightarrow>
             (case nova_get_inode_address E smp sbi free_ino 0 addr True True of
                (sbi, Inl EOOPS, a) \<Rightarrow> (sbi, Inl EOOPS, a)
              | (sbi, Inl e, a) \<Rightarrow> (sbi, Inr 0, a)
              | (sbi, Inr ret, a) \<Rightarrow> (sbi, Inr (if ret = 0 then free_ino else 0), a)))"

end
