(* ===== verification/Inode_Map_Inv.thy ===== *)
theory Inode_Map_Inv
  imports Inode_Map Balloc_Sb
begin

text \<open>
  The invariant of the trees of used inode numbers, and what allocating and freeing a number do to
  the set of numbers in use.
\<close>

subsection \<open>One map\<close>

definition map_nodes :: "inode_map \<Rightarrow> ptr list" where
  "map_nodes im = inorder (inode_inuse_tree im)"

definition map_used :: "slab \<Rightarrow> inode_map \<Rightarrow> nat set" where
  "map_used s im = blocks_of (map (span s) (map_nodes im))"

text \<open>
  The ranges of a map are separated by at least one free number, the first one starts at 0 and
  all of them lie below the largest inode number.
\<close>

definition gaps :: "slab \<Rightarrow> ptr list \<Rightarrow> bool" where
  "gaps s ps \<longleftrightarrow> (\<forall>p \<in> set ps. \<forall>q \<in> set ps. Suc (snd (span s p)) \<noteq> fst (span s q))"

definition map_inv :: "nova_env \<Rightarrow> slab \<Rightarrow> inode_map \<Rightarrow> bool" where
  "map_inv E s im \<longleftrightarrow>
     nodes_inv E s (map_nodes im) \<and> gaps s (map_nodes im) \<and>
     (\<exists>p ps. map_nodes im = p # ps \<and> first_inode_range im = Some p \<and> fst (span s p) = 0) \<and>
     (\<forall>p \<in> set (map_nodes im). snd (span s p) < MAX_INODE)"

lemma map_inv_agree:
  assumes "map_inv E s im" "agree s s' (set (map_nodes im))"
  shows "map_inv E s' im \<and> map_used s' im = map_used s im"
proof -
  have eq: "span s' p = span s p" if "p \<in> set (map_nodes im)" for p
    using assms(2) that by (rule agree_span)
  show ?thesis
    using assms nodes_inv_agree [of E s "map_nodes im" s']
    by (auto simp: map_inv_def map_used_def gaps_def eq agree_map_span)
qed

text \<open>Replacing the run \<open>ps\<close> of nodes by \<open>qs\<close>.\<close>

lemma map_replace:
  assumes inv: "nodes_inv E s (xs @ ps @ ys)"
    and agr: "agree s s' (live s - (set ps \<union> set qs))"
    and qs: "nodes_inv E s' qs" "set qs \<inter> (set xs \<union> set ys) = {}"
      "\<forall>x \<in> set xs. \<forall>q \<in> set qs. snd (span s x) < fst (span s' q)"
      "\<forall>q \<in> set qs. \<forall>y \<in> set ys. snd (span s' q) < fst (span s y)"
  shows "nodes_inv E s' (xs @ qs @ ys)"
    "blocks_of (map (span s') (xs @ qs @ ys)) =
       blocks_of (map (span s) (xs @ ps @ ys)) - blocks_of (map (span s) ps) \<union> blocks_of (map (span s') qs)"
    "\<forall>q \<in> set xs \<union> set ys. span s' q = span s q"
proof -
  have a: "agree s s' (set xs \<union> set ys)"
    using agr inv qs(2) by (elim agree_subset) (auto simp: nodes_inv_def)
  show "nodes_inv E s' (xs @ qs @ ys)" using inv a qs by (rule nodes_inv_replace)
  show eq: "\<forall>q \<in> set xs \<union> set ys. span s' q = span s q" using agree_span [OF a] by blast
  then have same: "map (span s') xs = map (span s) xs" "map (span s') ys = map (span s) ys" by auto
  have "blocks_of (map (span s) ps) \<inter> blocks_of (map (span s) (xs @ ys)) = {}"
    using inv by (rule nodes_inv_apart)
  then show "blocks_of (map (span s') (xs @ qs @ ys)) =
      blocks_of (map (span s) (xs @ ps @ ys)) - blocks_of (map (span s) ps) \<union> blocks_of (map (span s') qs)"
    by (auto simp: range_simps same)
qed

text \<open>The step of a map: its invariant, the numbers in use, and the nodes it leaves alone.\<close>

definition map_step :: "nova_env \<Rightarrow> slab \<Rightarrow> inode_map \<Rightarrow> slab \<Rightarrow> inode_map \<Rightarrow> nat set \<Rightarrow> bool" where
  "map_step E s im s' im' U \<longleftrightarrow>
     map_inv E s' im' \<and> map_used s' im' = U \<and> agree s s' (live s - set (map_nodes im)) \<and>
     set (map_nodes im') \<subseteq> set (map_nodes im) \<union> (live s' - live s) \<and>
     live s' \<subseteq> live s \<union> set (map_nodes im')"

lemma nodes_inv_le: "nodes_inv E s ps \<Longrightarrow> p \<in> set ps \<Longrightarrow> fst (span s p) \<le> snd (span s p)"
  using ranges_ok_le [of "map (span s) ps" "span s p"] by (simp add: nodes_inv_def)

lemma gaps_replace:
  assumes "gaps s (xs @ ps @ ys)" "\<forall>q \<in> set xs \<union> set ys. span s' q = span s q" "gaps s' qs"
    and sep: "\<forall>x \<in> set xs. \<forall>q \<in> set qs. Suc (snd (span s x)) < fst (span s' q)"
      "\<forall>q \<in> set qs. \<forall>y \<in> set ys. Suc (snd (span s' q)) < fst (span s y)"
    and le: "\<forall>q \<in> set xs \<union> set ys. fst (span s q) \<le> snd (span s q)"
      "\<forall>q \<in> set qs. fst (span s' q) \<le> snd (span s' q)"
  shows "gaps s' (xs @ qs @ ys)"
proof -
  have new: "Suc (snd (span s' q)) \<noteq> fst (span s a)" "Suc (snd (span s a)) \<noteq> fst (span s' q)"
    if "a \<in> set xs \<union> set ys" "q \<in> set qs" for a q
  proof -
    have "Suc (snd (span s a)) < fst (span s' q) \<or> Suc (snd (span s' q)) < fst (span s a)"
      using sep that by blast
    moreover have "fst (span s a) \<le> snd (span s a)" "fst (span s' q) \<le> snd (span s' q)"
      using le that by blast+
    ultimately show "Suc (snd (span s' q)) \<noteq> fst (span s a)" "Suc (snd (span s a)) \<noteq> fst (span s' q)"
      by linarith+
  qed
  have old: "Suc (snd (span s a)) \<noteq> fst (span s b)"
    if "a \<in> set xs \<union> set ys" "b \<in> set xs \<union> set ys" for a b
    using assms(1) that by (auto simp: gaps_def)
  have same: "span s' a = span s a" if "a \<in> set xs \<union> set ys" for a using assms(2) that by blast
  show ?thesis
    unfolding gaps_def
  proof (intro ballI)
    fix a b
    assume "a \<in> set (xs @ qs @ ys)" "b \<in> set (xs @ qs @ ys)"
    then consider "a \<in> set xs \<union> set ys" "b \<in> set xs \<union> set ys" | "a \<in> set xs \<union> set ys" "b \<in> set qs"
      | "a \<in> set qs" "b \<in> set xs \<union> set ys" | "a \<in> set qs" "b \<in> set qs" by auto
    then show "Suc (snd (span s' a)) \<noteq> fst (span s' b)"
      using assms(3) by cases (simp_all only: same new old gaps_def not_False_eq_True simp_thms)
  qed
qed

text \<open>
  Replacing the run \<open>ps\<close> by \<open>qs\<close>, whose ranges keep the distance to their neighbours, is a step
  of the map.
\<close>

lemma map_update:
  assumes inv: "map_inv E s im" and ns: "map_nodes im = xs @ ps @ ys" "map_nodes im' = xs @ qs @ ys"
    and agr: "agree s s' (live s - (set ps \<union> set qs))"
    and qs: "nodes_inv E s' qs" "gaps s' qs" "\<forall>q \<in> set qs. snd (span s' q) < MAX_INODE"
      "set qs \<subseteq> set ps \<union> (live s' - live s)" "live s' \<subseteq> live s \<union> set qs"
    and sep: "\<forall>x \<in> set xs. \<forall>q \<in> set qs. Suc (snd (span s x)) < fst (span s' q)"
      "\<forall>q \<in> set qs. \<forall>y \<in> set ys. Suc (snd (span s' q)) < fst (span s y)"
    and fst: "first_inode_range im' = first_inode_range im"
      "xs = [] \<longrightarrow> (\<exists>p ps' qs'. ps = p # ps' \<and> qs = p # qs' \<and> fst (span s' p) = 0)"
  shows "map_step E s im s' im'
           (map_used s im - blocks_of (map (span s) ps) \<union> blocks_of (map (span s') qs))"
proof -
  have old: "nodes_inv E s (xs @ ps @ ys)" using inv ns by (simp add: map_inv_def)
  have le: "\<forall>q \<in> set xs \<union> set ys. fst (span s q) \<le> snd (span s q)"
    "\<forall>q \<in> set qs. fst (span s' q) \<le> snd (span s' q)"
    using nodes_inv_le [OF old] nodes_inv_le [OF qs(1)] by auto
  have fresh: "set qs \<inter> (set xs \<union> set ys) = {}"
    using old qs(4) by (auto simp: nodes_inv_def)
  have "\<forall>x \<in> set xs. \<forall>q \<in> set qs. snd (span s x) < fst (span s' q)"
    "\<forall>q \<in> set qs. \<forall>y \<in> set ys. snd (span s' q) < fst (span s y)"
    using sep by (meson Suc_lessD)+
  note r = map_replace [OF old agr qs(1) fresh this]
  have "gaps s' (xs @ qs @ ys)"
    using inv ns(1) by (intro gaps_replace [OF _ r(3) qs(2) sep le, of ps]) (simp add: map_inv_def)
  moreover have "\<forall>q \<in> set (xs @ qs @ ys). snd (span s' q) < MAX_INODE"
    using inv r(3) qs(3) by (auto simp: map_inv_def ns)
  moreover have "\<exists>p ps. xs @ qs @ ys = p # ps \<and> first_inode_range im = Some p \<and> fst (span s' p) = 0"
    using inv r(3) fst(2) unfolding map_inv_def ns by (cases xs) auto
  ultimately have "map_inv E s' im'" using r(1) unfolding map_inv_def ns fst(1) by simp
  moreover have "agree s s' (live s - set (map_nodes im))"
    using agr ns qs(4) by (elim agree_subset) auto
  ultimately show ?thesis using r(2) qs(4,5) by (auto simp: map_step_def map_used_def ns)
qed

subsection \<open>Allocating a number\<close>

lemma map_next:
  assumes "map_nodes im = p # ps" "distinct (map_nodes im)"
  shows "rb_next p (inode_inuse_tree im) = hd_option ps"
  using assms by (cases ps) (simp_all add: rb_next_def map_nodes_def hd_option_def)

lemma agree_resize:
  "agree s (nova_update_range_node_checksum E p (set_high p h s)) (live s - {p})"
  "agree s (nova_update_range_node_checksum E p (set_low p l s)) (live s - {p})"
  by (auto simp: agree_def nova_update_range_node_checksum_def set_high_def set_low_def)

definition alloc_post :: "nova_env \<Rightarrow> sb_info \<Rightarrow> nat \<Rightarrow> sb_info \<times> nat res \<Rightarrow> bool" where
  "alloc_post E sbi c r \<longleftrightarrow>
     (let im = inode_maps sbi ! c; U = map_used (nodes sbi) im in
      case r of
        (sbi', Inl e) \<Rightarrow> e = ENOSPC \<and> sbi' = sbi \<and> {0..MAX_INODE - 2} \<subseteq> U
      | (sbi', Inr i) \<Rightarrow>
          \<exists>n im' s'. n \<notin> U \<and> n < MAX_INODE \<and> i = n * cpus sbi + c \<and>
            map_step E (nodes sbi) im s' im' (insert n U) \<and>
            sbi' = sbi\<lparr>inode_maps := (inode_maps sbi)[c := im'], nodes := s',
                       s_inodes_used_count := u64_add (s_inodes_used_count sbi) 1\<rparr>)"

text \<open>The first range grows by one number, and swallows the next range when it meets it.\<close>

lemma map_used_first:
  assumes "map_inv E s im" "map_nodes im = p # ps"
  shows "map_used s im = {0..snd (span s p)} \<union> blocks_of (map (span s) ps)"
    "\<forall>q \<in> set ps. Suc (snd (span s p)) < fst (span s q)"
    "Suc (snd (span s p)) \<notin> map_used s im"
proof -
  have ni: "nodes_inv E s (p # ps)" and "gaps s (p # ps)" and z: "fst (span s p) = 0"
    using assms by (auto simp: map_inv_def)
  then show far: "\<forall>q \<in> set ps. Suc (snd (span s p)) < fst (span s q)"
    by (auto simp: nodes_inv_simps gaps_def intro: Suc_lessI)
  show eq: "map_used s im = {0..snd (span s p)} \<union> blocks_of (map (span s) ps)"
    using z by (simp add: map_used_def assms(2) range_simps)
  show "Suc (snd (span s p)) \<notin> map_used s im"
    using far by (force simp: eq in_blocks_of_map)
qed

lemma insert_next:
  fixes h k :: nat
  shows "X = {0..h} \<union> B \<Longrightarrow> X - {0..h} \<union> {0..Suc h} = insert (Suc h) X"
    "X = {0..h} \<union> ({Suc (Suc h)..k} \<union> B) \<Longrightarrow> Suc (Suc h) \<le> k \<Longrightarrow>
       X - ({0..h} \<union> {Suc (Suc h)..k}) \<union> {0..k} = insert (Suc h) X"
proof -
  assume "X = {0..h} \<union> B"
  moreover have "{0..Suc h} = insert (Suc h) {0..h}" by auto
  ultimately show "X - {0..h} \<union> {0..Suc h} = insert (Suc h) X" by blast
next
  assume "X = {0..h} \<union> ({Suc (Suc h)..k} \<union> B)" "Suc (Suc h) \<le> k"
  moreover from this have "{0..k} = insert (Suc h) ({0..h} \<union> {Suc (Suc h)..k})" by auto
  ultimately show "X - ({0..h} \<union> {Suc (Suc h)..k}) \<union> {0..k} = insert (Suc h) X" by blast
qed

lemma map_grow:
  assumes inv: "map_inv E s im" and ps: "map_nodes im = p # ps"
    and n: "n = Suc (snd (span s p))" "n < MAX_INODE" "\<forall>q \<in> set ps. Suc n < fst (span s q)"
    and im': "map_nodes im' = map_nodes im" "first_inode_range im' = first_inode_range im"
  shows "map_step E s im (nova_update_range_node_checksum E p (set_high p n s)) im' (insert n (map_used s im))"
    (is "map_step E s im ?s' im' _")
proof -
  have z: "fst (span s p) = 0" and lv: "p \<in> live s" "p \<notin> set ps"
    using inv ps by (auto simp: map_inv_def nodes_inv_simps)
  have "map_step E s im ?s' im'
      (map_used s im - blocks_of (map (span s) [p]) \<union> blocks_of (map (span ?s') [p]))"
  proof (rule map_update [OF inv, of "[]" _ ps])
    show "agree s ?s' (live s - (set [p] \<union> set [p]))" using agree_resize(1) [of s E p n] by simp
    show "nodes_inv E ?s' [p]" using lv z by (simp add: nodes_inv_simps)
    show "gaps ?s' [p]" using z by (simp add: gaps_def)
    show "\<forall>q \<in> set [p]. \<forall>y \<in> set ps. Suc (snd (span ?s' q)) < fst (span s y)" using n(3) by simp
  qed (use z n(2) im' ps in auto)
  moreover have "map_used s im - blocks_of (map (span s) [p]) \<union> blocks_of (map (span ?s') [p]) =
      insert n (map_used s im)"
    using insert_next(1) [OF map_used_first(1) [OF inv ps]] z n(1) by (simp add: blocks_of_Cons)
  ultimately show ?thesis by simp
qed

lemma map_fill:
  assumes lib: "rb_lib_ok E" and inv: "map_inv E s im" and ps: "map_nodes im = p # q # ps"
    and n: "n = Suc (snd (span s p))" "Suc n = fst (span s q)"
    and s': "s' = nova_free_inode_node (nova_update_range_node_checksum E p (set_high p (snd (span s q)) s)) q"
    and im': "inode_inuse_tree im' = rb_erase E q (inode_inuse_tree im)"
      "first_inode_range im' = first_inode_range im"
  shows "map_step E s im s' im' (insert n (map_used s im))"
proof -
  have ni: "nodes_inv E s (p # q # ps)" and gp: "gaps s (p # q # ps)" and z: "fst (span s p) = 0"
    and mx: "snd (span s q) < MAX_INODE"
    using inv ps by (auto simp: map_inv_def)
  then have d: "p \<in> live s" "p \<notin> set ps" "p \<noteq> q" "q \<notin> set ps" "fst (span s q) \<le> snd (span s q)"
    "\<forall>y \<in> set ps. snd (span s q) < fst (span s y)"
    by (auto simp: nodes_inv_simps)
  have far: "\<forall>y \<in> set ps. Suc (snd (span s q)) < fst (span s y)"
    using d(6) gp by (auto simp: gaps_def intro: Suc_lessI)
  have ns': "map_nodes im' = [] @ [p] @ ps"
    using rb_erase_inorder [OF lib, of "inode_inuse_tree im" "[p]" q ps] ps d
      ni by (simp add: map_nodes_def im' nodes_inv_def)
  have sp: "span s' p = (0, snd (span s q))" using z by (simp add: s' nova_free_inode_node_def)
  have agr: "agree s s' (live s - (set [p, q] \<union> set [p]))"
    by (auto simp: s' agree_def nova_free_inode_node_def nova_free_range_node_def
        nova_update_range_node_checksum_def set_high_def)
  have "nodes_inv E s' [p]" using d sp by (auto simp: nodes_inv_simps s' nova_free_inode_node_def)
  then have "map_step E s im s' im'
      (map_used s im - blocks_of (map (span s) [p, q]) \<union> blocks_of (map (span s') [p]))"
    by (intro map_update [OF inv _ ns' agr])
      (use sp far mx im' in \<open>auto simp: ps gaps_def s' nova_free_inode_node_def\<close>)
  moreover have "map_used s im - blocks_of (map (span s) [p, q]) \<union> blocks_of (map (span s') [p]) =
      insert n (map_used s im)"
    using insert_next(2) [of "map_used s im" "snd (span s p)" "snd (span s q)"]
      map_used_first(1) [OF inv ps] sp z n d(5) by (simp add: blocks_of_Cons)
  ultimately show ?thesis by simp
qed

lemma alloc_unused_inode_ok:
  assumes lib: "rb_lib_ok E" and c: "c < cpus sbi" "cpus sbi < 2 ^ 31" "length (inode_maps sbi) = cpus sbi"
    and inv: "map_inv E (nodes sbi) (inode_maps sbi ! c)"
  shows "alloc_post E sbi c (nova_alloc_unused_inode E sbi c)"
proof -
  let ?s = "nodes sbi" and ?im = "inode_maps sbi ! c"
  obtain p ps where ps: "map_nodes ?im = p # ps" "first_inode_range ?im = Some p" "fst (span ?s p) = 0"
    using inv by (auto simp: map_inv_def)
  have ni: "nodes_inv E ?s (p # ps)" and mx: "\<forall>q \<in> set (p # ps). snd (span ?s q) < MAX_INODE"
    using inv ps(1) by (simp_all add: map_inv_def)
  have ok: "nova_range_node_checksum_ok E (node_of ?s q)" if "q \<in> set (p # ps)" for q
    using ni that by (auto simp: nodes_inv_def list_all_iff node_ok_def)
  have nx: "rb_next p (inode_inuse_tree ?im) = hd_option ps"
    using ps(1) ni by (intro map_next) (simp_all add: nodes_inv_def)
  define h where "h = snd (span ?s p)"
  note first = map_used_first [OF inv ps(1), folded h_def]
  have h: "range_high (node_of ?s p) = h" "h < 2 ^ 31" "u64_add h (Suc 0) = Suc h"
    using mx by (simp_all add: h_def span_def MAX_INODE_def u64_add_def)
  have "Suc h * cpus sbi \<le> 2 ^ 31 * 2 ^ 31" using h(2) c(2) by (intro mult_le_mono) simp_all
  then have num: "u64_add (u64_mul (Suc h) (cpus sbi)) c = Suc h * cpus sbi + c"
    using c(1,2) by (simp add: u64_add_def u64_mul_def del: mult_Suc)
  note step = nova_alloc_unused_inode_def get_inode_map_def c ps(2) Let_def nx h(1,3) num ok
  have post: "alloc_post E sbi c (set_inode_map c im' s' (sbi\<lparr>s_inodes_used_count :=
      u64_add (s_inodes_used_count sbi) 1\<rparr>), Inr (Suc h * cpus sbi + c))"
    if "map_step E ?s ?im s' im' (insert (Suc h) (map_used ?s ?im))" "Suc h < MAX_INODE" for im' s'
    unfolding alloc_post_def Let_def prod.case sum.case set_inode_map_def
    by (intro exI [of _ "Suc h"] exI [of _ im'] exI [of _ s'] conjI)
      (use that first(3) in simp_all)
  show ?thesis
  proof (cases ps)
    case Nil
    have mx1: "u64_sub MAX_INODE (Suc 0) = 2 ^ 31 - 1" by (simp add: MAX_INODE_def)
    show ?thesis
    proof (cases "Suc h < 2 ^ 31 - 1")
      case True
      then have n: "Suc h < MAX_INODE" by (simp add: MAX_INODE_def)
      show ?thesis
        using True n Nil
        by (simp add: step mx1 hd_option_def del: mult_Suc)
          (intro post [unfolded One_nat_def] map_grow [OF inv ps(1)], simp_all add: h_def map_nodes_def)
    next
      case False
      then have "{0..MAX_INODE - 2} \<subseteq> map_used ?s ?im" using first(1) by (auto simp: MAX_INODE_def)
      then show ?thesis
        using False Nil by (simp add: step mx1 hd_option_def alloc_post_def)
    qed
  next
    case (Cons q qs)
    have q: "Suc h < fst (span ?s q)" "fst (span ?s q) < 2 ^ 31"
      using first(2) mx nodes_inv_le [OF ni, of q] by (auto simp: Cons MAX_INODE_def)
    then have q': "u64_sub (range_low (node_of ?s q)) (Suc 0) = fst (span ?s q) - 1"
      "Suc h < MAX_INODE" "range_high (node_of ?s q) = snd (span ?s q)"
      by (simp_all add: span_def MAX_INODE_def)
    have far: "\<forall>y \<in> set qs. fst (span ?s q) < fst (span ?s y)"
      using ni nodes_inv_le [OF ni, of q] by (auto simp: nodes_inv_simps Cons)
    show ?thesis
    proof (cases "Suc (Suc h) = fst (span ?s q)")
      case True
      show ?thesis
        using Cons ps(1) q'(2) True
        by (simp add: step q' True [symmetric] hd_option_def del: mult_Suc)
          (intro post [unfolded One_nat_def] map_fill [OF lib inv], use True q'(2) in \<open>simp_all add: h_def\<close>)
    next
      case False
      then have lt: "Suc h < fst (span ?s q) - Suc 0" "\<forall>y \<in> set ps. Suc (Suc h) < fst (span ?s y)"
        using q(1) far by (auto simp: Cons)
      show ?thesis
        using Cons lt(1)
        by (simp add: step q' hd_option_def del: mult_Suc)
          (intro post [unfolded One_nat_def] map_grow [OF inv ps(1)] q'(2),
            use q'(2) lt(2) in \<open>simp_all add: h_def map_nodes_def\<close>)
    qed
  qed
qed

subsection \<open>Freeing a number\<close>

lemma blocks_of_split:
  assumes "nodes_inv E s (xs @ p # ys)" "fst (span s p) \<le> n" "n \<le> snd (span s p)"
    "R = {fst (span s p)..snd (span s p)} - {n}"
  shows "blocks_of (map (span s) (xs @ p # ys)) - blocks_of (map (span s) [p]) \<union> R =
         blocks_of (map (span s) (xs @ p # ys)) - {n}"
proof -
  have "blocks_of (map (span s) [p]) \<inter> blocks_of (map (span s) (xs @ ys)) = {}"
    using nodes_inv_apart [of E s xs "[p]" ys] assms(1) by simp
  then show ?thesis using assms(2-4) by (auto simp: range_simps)
qed

lemma map_neighbours:
  assumes inv: "map_inv E s im" and ps: "map_nodes im = xs @ p # ys"
  shows "nodes_inv E s (xs @ p # ys)" "p \<in> live s" "xs = [] \<longrightarrow> fst (span s p) = 0" "snd (span s p) < MAX_INODE"
    "\<forall>x \<in> set xs. Suc (snd (span s x)) < fst (span s p)"
    "\<forall>y \<in> set ys. Suc (snd (span s p)) < fst (span s y)"
proof -
  show ni: "nodes_inv E s (xs @ p # ys)" using inv ps by (simp add: map_inv_def)
  show "xs = [] \<longrightarrow> fst (span s p) = 0" "snd (span s p) < MAX_INODE"
    using inv ps by (auto simp: map_inv_def)
  have ord: "\<forall>x \<in> set xs. snd (span s x) < fst (span s p)" "\<forall>y \<in> set ys. snd (span s p) < fst (span s y)"
    and lv: "p \<in> live s"
    using ni by (simp_all add: nodes_inv_append nodes_inv_simps)
  have gp: "Suc (snd (span s a)) \<noteq> fst (span s b)" if "a \<in> set (map_nodes im)" "b \<in> set (map_nodes im)" for a b
    using inv that by (simp add: map_inv_def gaps_def)
  show "\<forall>x \<in> set xs. Suc (snd (span s x)) < fst (span s p)" "\<forall>y \<in> set ys. Suc (snd (span s p)) < fst (span s y)"
    using ord gp by (simp_all add: ps Suc_lessI)
  show "p \<in> live s" by (fact lv)
qed

text \<open>The first or the last number of a range, the only number of a range, and one in the middle.\<close>

lemma map_shrink:
  assumes inv: "map_inv E s im" and ps: "map_nodes im = xs @ p # ys"
    and lh: "(l, h) = (if n = fst (span s p) then (Suc n, snd (span s p)) else (fst (span s p), n - 1))"
      "n = fst (span s p) \<or> n = snd (span s p)" "fst (span s p) < snd (span s p)" "0 < n"
    and s': "agree s s' (live s - {p})" "live s' = live s" "node_ok E s' p" "span s' p = (l, h)"
    and im': "map_nodes im' = map_nodes im" "first_inode_range im' = first_inode_range im"
  shows "map_step E s im s' im' (map_used s im - {n})"
proof -
  note ni = map_neighbours(1) [OF inv ps] and lv = map_neighbours(2) [OF inv ps]
    and z = map_neighbours(3) [OF inv ps] and mx = map_neighbours(4) [OF inv ps]
    and far = map_neighbours(5,6) [OF inv ps]
  have b: "fst (span s p) \<le> l" "h \<le> snd (span s p)" "l \<le> h" "xs = [] \<longrightarrow> l = 0"
    "{l..h} = {fst (span s p)..snd (span s p)} - {n}"
    using lh z by (auto split: if_splits)
  have "map_step E s im s' im'
      (map_used s im - blocks_of (map (span s) [p]) \<union> blocks_of (map (span s') [p]))"
  proof (rule map_update [OF inv, of xs _ ys])
    show "agree s s' (live s - (set [p] \<union> set [p]))" using s'(1) by simp
    show "nodes_inv E s' [p]" "gaps s' [p]" using s' lv b(3) by (simp_all add: nodes_inv_simps gaps_def)
    show "\<forall>x \<in> set xs. \<forall>q \<in> set [p]. Suc (snd (span s x)) < fst (span s' q)"
      using far(1) b(1) s'(4) by fastforce
    show "\<forall>q \<in> set [p]. \<forall>y \<in> set ys. Suc (snd (span s' q)) < fst (span s y)"
      using far(2) b(2) s'(4) by fastforce
    show "live s' \<subseteq> live s \<union> set [p]" using s'(2) by auto
  qed (use b s'(4) im' ps mx in simp_all)
  moreover have "map_used s im - blocks_of (map (span s) [p]) \<union> {l..h} = map_used s im - {n}"
    unfolding map_used_def ps using lh(2,3) by (intro blocks_of_split [OF ni _ _ b(5)]) linarith+
  ultimately show ?thesis using s'(4) by (simp add: blocks_of_Cons)
qed

lemma map_remove:
  assumes lib: "rb_lib_ok E" and inv: "map_inv E s im" and ps: "map_nodes im = xs @ p # ys"
    and n: "span s p = (n, n)" "0 < n"
    and im': "inode_inuse_tree im' = rb_erase E p (inode_inuse_tree im)"
      "first_inode_range im' = first_inode_range im"
  shows "map_step E s im (nova_free_inode_node s p) im' (map_used s im - {n})"
    (is "map_step E s im ?s' im' _")
proof -
  have ni: "nodes_inv E s (xs @ p # ys)" and z: "xs \<noteq> []"
    using map_neighbours(1,3) [OF inv ps] n by auto
  have ns': "map_nodes im' = xs @ [] @ ys"
    using rb_erase_inorder [OF lib, of "inode_inuse_tree im" xs p ys] ps ni
    by (simp add: map_nodes_def im' nodes_inv_def)
  have "map_step E s im ?s' im'
      (map_used s im - blocks_of (map (span s) [p]) \<union> blocks_of (map (span ?s') []))"
  proof (rule map_update [OF inv _ ns'])
    show "agree s ?s' (live s - (set [p] \<union> set []))"
      by (auto simp: agree_def nova_free_inode_node_def nova_free_range_node_def)
  qed (use z im' ps in \<open>auto simp: nodes_inv_simps gaps_def nova_free_inode_node_def\<close>)
  moreover have "map_used s im - blocks_of (map (span s) [p]) \<union> {} = map_used s im - {n}"
    unfolding map_used_def ps by (intro blocks_of_split [OF ni]) (simp_all add: n)
  ultimately show ?thesis by simp
qed

lemma map_split:
  assumes lib: "rb_lib_ok E" and kmem: "kmem_ok E" and inv: "map_inv E s im"
    and ps: "map_nodes im = xs @ p # ys" and n: "fst (span s p) < n" "n < snd (span s p)"
    and new: "nova_alloc_inode_node E s = (s1, Some c)"
    and s3: "s3 = nova_update_range_node_checksum E p (set_high p (n - 1)
               (nova_update_range_node_checksum E c (set_high c (snd (span s p)) (set_low c (n + 1) s1))))"
  shows "\<exists>t. nova_insert_inodetree E s3 im c = Inr t \<and>
    (\<forall>im'. inode_inuse_tree im' = t \<longrightarrow> first_inode_range im' = first_inode_range im \<longrightarrow>
       map_step E s im s3 im' (map_used s im - {n}))"
proof -
  note ni = map_neighbours(1) [OF inv ps] and lv = map_neighbours(2) [OF inv ps]
    and z = map_neighbours(3) [OF inv ps] and mx = map_neighbours(4) [OF inv ps]
    and far = map_neighbours(5,6) [OF inv ps]
  note al = alloc_range_node_Some [OF kmem new [unfolded nova_alloc_inode_node_def]]
  have cp: "c \<noteq> p" "c \<notin> set (xs @ p # ys)" using al(1) lv ni by (auto simp: nodes_inv_def)
  have sp: "span s3 p = (fst (span s p), n - 1)" "span s3 c = (n + 1, snd (span s p))"
    using cp al(4) by (simp_all add: s3)
  have so: "span s3 q = span s q" if "q \<in> set xs \<union> set ys" for q
    using cp al(4) that ni by (auto simp: s3 nodes_inv_def)
  have lv3: "live s3 = insert c (live s)" by (simp add: s3 al(3))
  have agr: "agree s s3 (live s - {p})"
    using al(1,6) by (auto simp: s3 agree_def lv3 [unfolded s3] nova_update_range_node_checksum_def
        set_high_def set_low_def al(3))
  have ok: "node_ok E s3 p" "node_ok E s3 c" by (simp_all add: s3 cp)
  have "nodes_inv E s3 (xs @ [p] @ ys)"
    by (rule map_replace(1) [where s = s and ps = "[p]"])
      (use ni agr ok lv lv3 n far sp in \<open>auto simp: nodes_inv_simps nodes_inv_append dest: Suc_lessD\<close>)
  then have "\<exists>t. nova_insert_range_node E s3 (inode_inuse_tree im) c NODE_INODE = Inr t \<and>
      inorder t = (xs @ [p]) @ c # ys"
    using ps far n sp
    by (intro insert_range_node_fits [OF lib])
      (auto simp: nodes_inv_def map_nodes_def span_low_high so dest: Suc_lessD)
  then obtain t where t: "nova_insert_inodetree E s3 im c = Inr t" "inorder t = xs @ [p, c] @ ys"
    by (auto simp: nova_insert_inodetree_def)
  have "map_step E s im s3 im'
      (map_used s im - blocks_of (map (span s) [p]) \<union> blocks_of (map (span s3) [p, c]))"
    if "inode_inuse_tree im' = t" "first_inode_range im' = first_inode_range im" for im'
  proof (rule map_update [OF inv, of xs _ ys])
    show "agree s s3 (live s - (set [p] \<union> set [p, c]))" using agr by (rule agree_subset) auto
    show "nodes_inv E s3 [p, c]" "gaps s3 [p, c]"
      using ok lv lv3 n sp cp by (auto simp: nodes_inv_simps gaps_def)
    show "set [p, c] \<subseteq> set [p] \<union> (live s3 - live s)" using lv3 al(1) by simp
    show "\<forall>x \<in> set xs. \<forall>q \<in> set [p, c]. Suc (snd (span s x)) < fst (span s3 q)"
      using far(1) n sp by auto
    show "\<forall>q \<in> set [p, c]. \<forall>y \<in> set ys. Suc (snd (span s3 q)) < fst (span s y)"
      using far(2) n sp by auto
    show "\<forall>q \<in> set [p, c]. snd (span s3 q) < MAX_INODE" using mx n sp by simp
  qed (use that t z sp ps lv3 in \<open>auto simp: map_nodes_def\<close>)
  moreover have "map_used s im - blocks_of (map (span s) [p]) \<union> blocks_of (map (span s3) [p, c]) =
      map_used s im - {n}"
    unfolding map_used_def ps by (rule blocks_of_split [OF ni]) (use n sp in \<open>auto simp: blocks_of_Cons\<close>)
  ultimately show ?thesis using t(1) by (intro exI [of _ t]) simp
qed

definition free_post :: "nova_env \<Rightarrow> sb_info \<Rightarrow> nat \<Rightarrow> sb_info \<times> unit res \<Rightarrow> bool" where
  "free_post E sbi i r \<longleftrightarrow>
     (let c = i mod cpus sbi; n = i div cpus sbi; im = inode_maps sbi ! c; U = map_used (nodes sbi) im in
      if n \<notin> U then r = (sbi, Inl EINVAL)
      else \<exists>im' s'. map_step E (nodes sbi) im s' im' (U - {n}) \<and>
             r = (sbi\<lparr>inode_maps := (inode_maps sbi)[c := im'], nodes := s',
                      s_inodes_used_count := u64_sub (s_inodes_used_count sbi) 1\<rparr>, Inr ()))"

lemma search_inodetree_cases:
  assumes "map_inv E (nodes sbi) im"
  shows "if i div cpus sbi \<in> map_used (nodes sbi) im
         then \<exists>p xs ys. map_nodes im = xs @ p # ys \<and> nova_search_inodetree E sbi im i = (True, Some p) \<and>
                fst (span (nodes sbi) p) \<le> i div cpus sbi \<and> i div cpus sbi \<le> snd (span (nodes sbi) p)
         else \<exists>q. nova_search_inodetree E sbi im i = (False, q)"
proof -
  have "tree_inv E (nodes sbi) (inode_inuse_tree im)"
    using assms by (simp add: map_inv_def tree_inv_def map_nodes_def)
  from find_range_node_cases [OF this, of NODE_INODE "i div cpus sbi" None] show ?thesis
    by (auto simp: nova_search_inodetree_def map_used_def tree_blocks_def map_nodes_def
        simp flip: set_inorder dest: split_list split: if_splits)
qed

lemma free_inuse_inode_ok:
  assumes lib: "rb_lib_ok E" and kmem: "kmem_ok E"
    and mem: "kmem_zalloc E (requests (nodes sbi)) (live (nodes sbi)) \<noteq> None"
    and c: "0 < cpus sbi" "length (inode_maps sbi) = cpus sbi" "cpus sbi \<le> i"
    and inv: "map_inv E (nodes sbi) (inode_maps sbi ! (i mod cpus sbi))"
  shows "free_post E sbi i (nova_free_inuse_inode E sbi i)"
proof -
  let ?s = "nodes sbi" and ?c = "i mod cpus sbi" and ?im = "inode_maps sbi ! (i mod cpus sbi)"
  define n where "n = i div cpus sbi"
  have n: "0 < n" using c by (simp add: n_def div_greater_zero_iff)
  have get: "get_inode_map sbi ?c = Inr ?im" using c by (simp add: get_inode_map_def)
  note step = nova_free_inuse_inode_def Let_def get
  note cases = search_inodetree_cases [OF inv, of i, folded n_def]
  show ?thesis
  proof (cases "n \<in> map_used ?s ?im")
    case False
    then show ?thesis using cases by (auto simp: step free_post_def n_def)
  next
    case True
    then obtain p xs ys where p: "map_nodes ?im = xs @ p # ys"
      "nova_search_inodetree E sbi ?im i = (True, Some p)"
      "fst (span ?s p) \<le> n" "n \<le> snd (span ?s p)" using cases by auto
    have post: "free_post E sbi i (set_inode_map ?c im' s' (sbi\<lparr>s_inodes_used_count :=
        u64_sub (s_inodes_used_count sbi) 1\<rparr>), Inr ())"
      if "map_step E ?s ?im s' im' (map_used ?s ?im - {n})" for im' s'
      using that True
      by (simp add: free_post_def Let_def n_def [symmetric] set_inode_map_def)
        (intro exI [of _ im'] exI [of _ s'] conjI, simp_all)
    have sp: "range_low (node_of ?s p) = fst (span ?s p)" "range_high (node_of ?s p) = snd (span ?s p)"
      by (simp_all add: span_def)
    note step = step p(2) n_def [symmetric] sp
    have lv: "p \<in> live ?s" using map_neighbours(2) [OF inv p(1)] .
    consider (only) "span ?s p = (n, n)" | (left) "n = fst (span ?s p)" "n < snd (span ?s p)"
      | (right) "fst (span ?s p) < n" "n = snd (span ?s p)" | (mid) "fst (span ?s p) < n" "n < snd (span ?s p)"
      using p(3,4) by (cases "span ?s p") (fastforce simp: le_less)
    then show ?thesis
    proof cases
      case only
      then show ?thesis
        by (simp add: step)
          (intro post [unfolded One_nat_def] map_remove [OF lib inv p(1)], simp_all add: n)
    next
      case left
      then show ?thesis
        by (simp add: step)
          (rule post [unfolded One_nat_def], rule map_shrink [OF inv p(1), where l = "Suc n" and h = "snd (span ?s p)"],
            use n agree_resize(2) [of ?s E p "Suc n"] in \<open>simp_all add: map_nodes_def\<close>)
    next
      case right
      then show ?thesis
        by (simp add: step)
          (rule post [unfolded One_nat_def], rule map_shrink [OF inv p(1), where l = "fst (span ?s p)" and h = "n - 1"],
            use n agree_resize(1) [of ?s E p "n - Suc 0"] in \<open>simp_all add: map_nodes_def\<close>)
    next
      case mid
      obtain s1 q where new: "nova_alloc_inode_node E ?s = (s1, Some q)"
        using mem by (auto simp: nova_alloc_inode_node_def nova_alloc_range_node_def Let_def split: option.split)
      obtain t where "nova_insert_inodetree E (nova_update_range_node_checksum E p (set_high p (n - 1)
          (nova_update_range_node_checksum E q (set_high q (snd (span ?s p)) (set_low q (n + 1) s1))))) ?im q = Inr t"
        and "\<And>im'. inode_inuse_tree im' = t \<Longrightarrow> first_inode_range im' = first_inode_range ?im \<Longrightarrow>
          map_step E ?s ?im (nova_update_range_node_checksum E p (set_high p (n - 1)
          (nova_update_range_node_checksum E q (set_high q (snd (span ?s p)) (set_low q (n + 1) s1)))))
            im' (map_used ?s ?im - {n})"
        using map_split [OF lib kmem inv p(1) mid new refl] by blast
      then show ?thesis
        using mid new by (simp add: step) (intro post [unfolded One_nat_def], simp)
    qed
  qed
qed

subsection \<open>All maps\<close>

definition maps_inv :: "nova_env \<Rightarrow> sb_info \<Rightarrow> bool" where
  "maps_inv E sbi \<longleftrightarrow>
     length (inode_maps sbi) = cpus sbi \<and> 0 < cpus sbi \<and> cpus sbi < 2 ^ 31 \<and>
     (\<forall>i < cpus sbi. map_inv E (nodes sbi) (inode_maps sbi ! i)) \<and>
     (\<forall>i < cpus sbi. \<forall>j < cpus sbi. i \<noteq> j \<longrightarrow>
        set (map_nodes (inode_maps sbi ! i)) \<inter> set (map_nodes (inode_maps sbi ! j)) = {})"

definition used_inos :: "sb_info \<Rightarrow> nat set" where
  "used_inos sbi = {i. i div cpus sbi \<in> map_used (nodes sbi) (inode_maps sbi ! (i mod cpus sbi))}"

lemma map_nodes_live: "map_inv E s im \<Longrightarrow> set (map_nodes im) \<subseteq> live s"
  by (simp add: map_inv_def nodes_inv_def)

lemma maps_step:
  assumes inv: "maps_inv E sbi" and c: "c < cpus sbi"
    and st: "map_step E (nodes sbi) (inode_maps sbi ! c) s' im' U"
    and sbi': "inode_maps sbi' = (inode_maps sbi)[c := im']" "nodes sbi' = s'" "cpus sbi' = cpus sbi"
  shows "maps_inv E sbi'"
    "used_inos sbi' = {i. if i mod cpus sbi = c then i div cpus sbi \<in> U else i \<in> used_inos sbi}"
    "finite (live (nodes sbi)) \<Longrightarrow> finite (live s')"
proof -
  let ?s = "nodes sbi" and ?m = "inode_maps sbi"
  have im: "map_inv E ?s (?m ! j)" if "j < cpus sbi" for j
    using inv that by (auto simp: maps_inv_def)
  have len: "length ?m = cpus sbi" "0 < cpus sbi" "cpus sbi < 2 ^ 31"
    using inv by (auto simp: maps_inv_def)
  have dj: "set (map_nodes (?m ! i)) \<inter> set (map_nodes (?m ! j)) = {}"
    if "i < cpus sbi" "j < cpus sbi" "i \<noteq> j" for i j
    using inv that by (auto simp: maps_inv_def)
  have new: "map_inv E s' im'" "map_used s' im' = U" "agree ?s s' (live ?s - set (map_nodes (?m ! c)))"
    "set (map_nodes im') \<subseteq> set (map_nodes (?m ! c)) \<union> (live s' - live ?s)" "live s' \<subseteq> live ?s \<union> set (map_nodes im')"
    using st by (auto simp: map_step_def)
  have old: "map_inv E s' (?m ! j) \<and> map_used s' (?m ! j) = map_used ?s (?m ! j)" if j: "j < cpus sbi" "j \<noteq> c" for j
  proof (rule map_inv_agree [OF im [OF j(1)]])
    show "agree ?s s' (set (map_nodes (?m ! j)))"
      using new(3) map_nodes_live [OF im [OF j(1)]] dj [OF j(1) c j(2)] by (elim agree_subset) auto
  qed
  have apart: "set (map_nodes im') \<inter> set (map_nodes (?m ! j)) = {}" if "j < cpus sbi" "j \<noteq> c" for j
    using new(4) dj [OF that(1) c that(2)] map_nodes_live [OF im [OF that(1)]] by blast
  have dj': "set (map_nodes (inode_maps sbi' ! i)) \<inter> set (map_nodes (inode_maps sbi' ! j)) = {}"
    if "i < cpus sbi" "j < cpus sbi" "i \<noteq> j" for i j
    using that dj [of i j] apart [of i] apart [of j] c
    by (cases "i = c"; cases "j = c") (simp_all add: sbi' len(1) Int_commute)
  show "maps_inv E sbi'"
    unfolding maps_inv_def using len dj' old new(1) c by (simp add: sbi' nth_list_update)
  show "used_inos sbi' = {i. if i mod cpus sbi = c then i div cpus sbi \<in> U else i \<in> used_inos sbi}"
    using old new(2) len c by (auto simp: used_inos_def sbi' nth_list_update)
  show "finite (live s')" if "finite (live ?s)"
    using that new(5) by (auto elim: finite_subset)
qed

subsection \<open>The pool of inode numbers\<close>

text \<open>
  The nodes of the free lists and of the inode maps come from one slab cache; they are different
  objects, so that a step of one map disturbs neither the other maps nor the allocator.
\<close>

definition list_nodes :: "sb_info \<Rightarrow> ptr set" where
  "list_nodes sbi = (\<Union>fl \<in> set (free_lists sbi). set (fl_nodes fl))"

definition inode_nodes :: "sb_info \<Rightarrow> ptr set" where
  "inode_nodes sbi = (\<Union>im \<in> set (inode_maps sbi). set (map_nodes im))"

lemma lists_inv_agree:
  assumes inv: "lists_inv E sbi" and agr: "agree (nodes sbi) (nodes sbi') (list_nodes sbi)"
    and same: "free_lists sbi' = free_lists sbi" "cpus sbi' = cpus sbi" "per_list_blocks sbi' = per_list_blocks sbi"
  shows "lists_inv E sbi' \<and> all_free sbi' = all_free sbi"
proof -
  have len: "length (free_lists sbi) = cpus sbi" using inv by (simp add: lists_inv_def)
  have "agree (nodes sbi) (nodes sbi') (set (fl_nodes (free_lists sbi ! i)))" if "i < cpus sbi" for i
    using agr that len unfolding list_nodes_def
    by (elim agree_subset) (rule UN_upper [where B = "\<lambda>fl. set (fl_nodes fl)"], simp)
  then have "free_list_inv E (nodes sbi') (free_lists sbi ! i) \<and>
      free_set (nodes sbi') (free_lists sbi ! i) = free_set (nodes sbi) (free_lists sbi ! i)" if "i < cpus sbi" for i
    using inv that free_list_inv_agree [of E "nodes sbi" "free_lists sbi ! i" "nodes sbi'"]
    by (simp add: lists_inv_def)
  then show ?thesis
    using inv by (auto simp: lists_inv_def list_bounds_def all_free_def same len)
qed

lemma list_nodes_live:
  assumes "lists_inv E sbi"
  shows "list_nodes sbi \<subseteq> live (nodes sbi)"
proof -
  have "set (fl_nodes fl) \<subseteq> live (nodes sbi)" if "fl \<in> set (free_lists sbi)" for fl
    using assms that by (auto simp: lists_inv_def free_list_inv_def nodes_inv_def in_set_conv_nth [of fl])
  then show ?thesis by (auto simp: list_nodes_def)
qed

definition fs_inv :: "nova_env \<Rightarrow> sb_info \<Rightarrow> bool" where
  "fs_inv E sbi \<longleftrightarrow>
     rb_lib_ok E \<and> kmem_ok E \<and> kmem_total E \<and> finite (live (nodes sbi)) \<and>
     lists_inv E sbi \<and> maps_inv E sbi \<and> list_nodes sbi \<inter> inode_nodes sbi = {}"

lemma fs_step:
  assumes inv: "fs_inv E sbi" and c: "c < cpus sbi"
    and st: "map_step E (nodes sbi) (inode_maps sbi ! c) s' im' U"
    and sbi': "sbi' = sbi\<lparr>inode_maps := (inode_maps sbi)[c := im'], nodes := s', s_inodes_used_count := k\<rparr>"
  shows "fs_inv E sbi' \<and> all_free sbi' = all_free sbi"
proof -
  have i: "lists_inv E sbi" "maps_inv E sbi" "list_nodes sbi \<inter> inode_nodes sbi = {}" "finite (live (nodes sbi))"
    using inv by (simp_all add: fs_inv_def)
  have len: "length (inode_maps sbi) = cpus sbi" using i(2) by (simp add: maps_inv_def)
  note m = maps_step [OF i(2) c st, of sbi'] i(4)
  have own: "set (map_nodes (inode_maps sbi ! c)) \<subseteq> inode_nodes sbi"
    unfolding inode_nodes_def using c len by (intro UN_upper) simp
  have "agree (nodes sbi) s' (list_nodes sbi)"
    using st own i(3) list_nodes_live [OF i(1)] by (auto simp: map_step_def elim!: agree_subset)
  then have "lists_inv E sbi' \<and> all_free sbi' = all_free sbi"
    by (intro lists_inv_agree [OF i(1)]) (simp_all add: sbi')
  moreover have "set (map_nodes im') \<inter> list_nodes sbi = {}"
    using st own i(3) list_nodes_live [OF i(1)] by (auto simp: map_step_def)
  then have "list_nodes sbi' \<inter> inode_nodes sbi' = {}"
    using i(3) set_update_subset_insert [of "inode_maps sbi" c im']
    by (fastforce simp: list_nodes_def inode_nodes_def sbi')
  ultimately show ?thesis using inv m by (auto simp: fs_inv_def sbi')
qed

end
