(* ===== verification/Inode_Map_Props.thy ===== *)
theory Inode_Map_Props
  imports Inode_Map_Inv Balloc_Props
begin

text \<open>
  Properties of the inode numbers: initialisation reserves the numbers of the file system's own
  inodes, and a client that allocates and frees numbers in any order never gets a number twice.
\<close>

subsection \<open>Initialisation\<close>

definition part_init :: "nova_env \<Rightarrow> nat \<Rightarrow> nat \<Rightarrow> sb_info \<Rightarrow> bool" where
  "part_init E high k sbi \<longleftrightarrow>
     rb_lib_ok E \<and> kmem_ok E \<and> kmem_total E \<and> finite (live (nodes sbi)) \<and> lists_inv E sbi \<and>
     length (inode_maps sbi) = cpus sbi \<and> list_nodes sbi \<inter> inode_nodes sbi = {} \<and>
     (\<forall>i < k. map_inv E (nodes sbi) (inode_maps sbi ! i) \<and> map_used (nodes sbi) (inode_maps sbi ! i) = {0..high}) \<and>
     (\<forall>i < cpus sbi. k \<le> i \<longrightarrow> inode_inuse_tree (inode_maps sbi ! i) = Leaf) \<and>
     (\<forall>i < cpus sbi. \<forall>j < cpus sbi. i \<noteq> j \<longrightarrow>
        set (map_nodes (inode_maps sbi ! i)) \<inter> set (map_nodes (inode_maps sbi ! j)) = {})"

lemma init_one_map:
  assumes lib: "rb_lib_ok E" "kmem_ok E" "kmem_total E" and fin: "finite (live s)"
    and im: "inode_inuse_tree im = Leaf" and high: "high < MAX_INODE"
    and new: "nova_alloc_inode_node E s = (s1, r)"
  shows "\<exists>p t. r = Some p \<and> p \<notin> live s \<and>
    (let s' = nova_update_range_node_checksum E p (set_high p high (set_low p 0 s1)) in
     nova_insert_inodetree E s' im p = Inr t \<and> inorder t = [p] \<and> agree s s' (live s) \<and>
     live s' = insert p (live s) \<and>
     (\<forall>im'. inode_inuse_tree im' = t \<longrightarrow> first_inode_range im' = Some p \<longrightarrow>
        map_inv E s' im' \<and> map_used s' im' = {0..high}))"
proof -
  have "kmem_zalloc E (requests s) (live s) \<noteq> None" using lib(3) fin by (simp add: kmem_total_def)
  then obtain p where "kmem_zalloc E (requests s) (live s) = Some p" by auto
  then have p: "r = Some p"
    using new by (simp add: nova_alloc_inode_node_def nova_alloc_range_node_def Let_def)
  note al = alloc_range_node_Some [OF lib(2) new [unfolded nova_alloc_inode_node_def p]]
  define s' where "s' = nova_update_range_node_checksum E p (set_high p high (set_low p 0 s1))"
  have sp: "span s' p = (0, high)" "live s' = insert p (live s)" "node_ok E s' p" by (simp_all add: s'_def al(3))
  have agr: "agree s s' (live s)"
    using al(1,3,6) by (auto simp: s'_def agree_def nova_update_range_node_checksum_def set_high_def set_low_def)
  have t: "nova_insert_inodetree E s' im p = Inr (rb_insert_color E p (Node Leaf p Leaf))"
    "inorder (rb_insert_color E p (Node Leaf p Leaf)) = [p]"
    using lib(1) by (simp_all add: nova_insert_inodetree_def nova_insert_range_node_def im rb_lib_ok_def)
  have "map_inv E s' im' \<and> map_used s' im' = {0..high}"
    if "inode_inuse_tree im' = rb_insert_color E p (Node Leaf p Leaf)" "first_inode_range im' = Some p" for im'
  proof -
    have "map_nodes im' = [p]" using that t(2) by (simp add: map_nodes_def)
    then show ?thesis
      using sp that(2) high by (simp add: map_inv_def map_used_def nodes_inv_simps gaps_def blocks_of_Cons)
  qed
  then show ?thesis
    using p al(1) t agr sp(2) unfolding Let_def
    by (intro exI [of _ p] exI [of _ "rb_insert_color E p (Node Leaf p Leaf)"])
      (unfold s'_def [symmetric], blast)
qed

lemma init_inuse_map_ok:
  assumes inv: "part_init E high k sbi" and k: "k < cpus sbi" and high: "high < MAX_INODE"
  shows "\<exists>sbi'. init_inuse_map E high k sbi = (sbi', Inr ()) \<and> part_init E high (Suc k) sbi' \<and>
           all_free sbi' = all_free sbi \<and> cpus sbi' = cpus sbi"
proof -
  let ?s = "nodes sbi" and ?m = "inode_maps sbi"
  have i: "rb_lib_ok E" "kmem_ok E" "kmem_total E" "finite (live ?s)" "lists_inv E sbi"
    "length ?m = cpus sbi" "list_nodes sbi \<inter> inode_nodes sbi = {}" "inode_inuse_tree (?m ! k) = Leaf"
    using inv k by (simp_all add: part_init_def)
  obtain s1 r where new: "nova_alloc_inode_node E ?s = (s1, r)" by fastforce
  obtain p t where p: "r = Some p" "p \<notin> live ?s" and
    rest: "let s' = nova_update_range_node_checksum E p (set_high p high (set_low p 0 s1)) in
     nova_insert_inodetree E s' (?m ! k) p = Inr t \<and> inorder t = [p] \<and> agree ?s s' (live ?s) \<and>
     live s' = insert p (live ?s) \<and>
     (\<forall>im'. inode_inuse_tree im' = t \<longrightarrow> first_inode_range im' = Some p \<longrightarrow>
        map_inv E s' im' \<and> map_used s' im' = {0..high})"
    using init_one_map [OF i(1-4,8) high new] by auto
  define s' where "s' = nova_update_range_node_checksum E p (set_high p high (set_low p 0 s1))"
  define im' where "im' = (?m ! k)\<lparr>inode_inuse_tree := t, num_range_node_inode := 1, first_inode_range := Some p\<rparr>"
  define sbi' where "sbi' = sbi\<lparr>inode_maps := ?m[k := im'], nodes := s'\<rparr>"
  have s': "nova_insert_inodetree E s' (?m ! k) p = Inr t" "map_nodes im' = [p]" "agree ?s s' (live ?s)"
    "live s' = insert p (live ?s)" "map_inv E s' im'" "map_used s' im' = {0..high}"
    using rest unfolding s'_def [symmetric] Let_def by (auto simp: im'_def map_nodes_def)
  have run: "init_inuse_map E high k sbi = (sbi', Inr ())"
    using new p(1) s'(1) k i(6)
    by (simp add: init_inuse_map_def get_inode_map_def Let_def s'_def [symmetric] set_inode_map_def im'_def sbi'_def)
  have lists: "lists_inv E sbi' \<and> all_free sbi' = all_free sbi"
    using s'(3) list_nodes_live [OF i(5)]
    by (intro lists_inv_agree [OF i(5)]) (auto simp: sbi'_def elim: agree_subset)
  have old: "map_inv E s' (?m ! j) \<and> map_used s' (?m ! j) = {0..high}" if "j < k" for j
  proof -
    have j: "map_inv E ?s (?m ! j)" "map_used ?s (?m ! j) = {0..high}" using inv that by (auto simp: part_init_def)
    then show ?thesis
      using map_inv_agree [OF j(1) agree_subset [OF s'(3) map_nodes_live [OF j(1)]]] by simp
  qed
  have live: "set (map_nodes (?m ! j)) \<subseteq> live ?s" if "j < cpus sbi" for j
    using inv that map_nodes_live [of E ?s "?m ! j"] by (cases "j < k") (auto simp: part_init_def map_nodes_def)
  have "p \<notin> list_nodes sbi" using p(2) list_nodes_live [OF i(5)] by auto
  then have "list_nodes sbi' \<inter> inode_nodes sbi' = {}"
    using i(7) s'(2) set_update_subset_insert [of ?m k im']
    by (fastforce simp: list_nodes_def inode_nodes_def sbi'_def)
  moreover have "set (map_nodes (?m[k := im'] ! a)) \<inter> set (map_nodes (?m[k := im'] ! b)) = {}"
    if "a < cpus sbi" "b < cpus sbi" "a \<noteq> b" for a b
  proof -
    have "p \<notin> set (map_nodes (?m ! a))" "p \<notin> set (map_nodes (?m ! b))" using live that p(2) by blast+
    then show ?thesis
      using inv that s'(2) i(6) by (cases "a = k"; cases "b = k") (simp_all add: part_init_def)
  qed
  ultimately have "part_init E high (Suc k) sbi'"
    using i lists old s'(4-6) inv k
    by (auto simp: part_init_def sbi'_def nth_list_update less_Suc_eq)
  then show ?thesis using run lists by (simp add: sbi'_def)
qed

lemma init_inuse_loop_ok:
  assumes "part_init E high k sbi" "high < MAX_INODE" "k \<le> cpus sbi"
  shows "\<exists>sbi'. init_inuse_loop E high [k..<cpus sbi] sbi = (sbi', Inr ()) \<and>
           part_init E high (cpus sbi) sbi' \<and> all_free sbi' = all_free sbi \<and> cpus sbi' = cpus sbi"
  using assms
proof (induction "cpus sbi - k" arbitrary: k sbi)
  case 0
  then show ?case by simp
next
  case (Suc n)
  then have k: "k < cpus sbi" by simp
  obtain sbi1 where one: "init_inuse_map E high k sbi = (sbi1, Inr ())" "part_init E high (Suc k) sbi1"
    "all_free sbi1 = all_free sbi" "cpus sbi1 = cpus sbi"
    using init_inuse_map_ok [OF Suc.prems(1) k Suc.prems(2)] by auto
  have "n = cpus sbi1 - Suc k" "Suc k \<le> cpus sbi1" using Suc.hyps(2) k one(4) by simp_all
  from Suc.hyps(1) [OF this(1) one(2) Suc.prems(2) this(2)] show ?case
    using k one by (simp add: upt_conv_Cons)
qed

definition empty_maps :: "sb_info \<Rightarrow> bool" where
  "empty_maps sbi \<longleftrightarrow>
     length (inode_maps sbi) = cpus sbi \<and> (\<forall>im \<in> set (inode_maps sbi). inode_inuse_tree im = Leaf)"

lemma init_inode_inuse_list_ok:
  assumes inv: "store_inv (E, sbi)" and em: "empty_maps sbi"
  shows "\<exists>sbi'. nova_init_inode_inuse_list E sbi = (sbi', Inr ()) \<and> fs_inv E sbi' \<and>
    all_free sbi' = all_free sbi \<and> cpus sbi' = cpus sbi \<and>
    used_inos sbi' = {i. i div cpus sbi \<le> (31 + cpus sbi) div cpus sbi}"
proof -
  define high where "high = NOVA_NORMAL_INODE_START div cpus sbi +
    (if NOVA_NORMAL_INODE_START mod cpus sbi \<noteq> 0 then 1 else 0)"
  let ?sbi = "sbi\<lparr>s_inodes_used_count := NOVA_NORMAL_INODE_START\<rparr>"
  have "0 < cpus sbi" using inv by (auto simp: store_inv_def lists_inv_def)
  have "32 div cpus sbi \<le> 32" by simp
  then have "high \<le> 33"
    unfolding high_def NOVA_NORMAL_INODE_START_def by (auto simp del: div_le_dividend)
  then have high: "high < MAX_INODE" by (simp add: MAX_INODE_def)
  have "all_free ?sbi = all_free sbi" "lists_inv E ?sbi"
    using inv by (auto simp: all_free_def store_inv_def lists_inv_def list_bounds_def)
  moreover from this have "part_init E high 0 ?sbi"
    using inv em by (auto simp: part_init_def store_inv_def empty_maps_def inode_nodes_def map_nodes_def)
  ultimately obtain sbi' where r: "init_inuse_loop E high [0..<cpus sbi] ?sbi = (sbi', Inr ())"
    "part_init E high (cpus sbi) sbi'" "all_free sbi' = all_free sbi" "cpus sbi' = cpus sbi"
    using init_inuse_loop_ok [of E high 0 ?sbi] high by auto
  have "nova_init_inode_inuse_list E sbi = (sbi', Inr ())"
    using r(1) by (simp add: nova_init_inode_inuse_list_def Let_def high_def)
  moreover have "fs_inv E sbi'"
    using r(2,4) \<open>0 < cpus sbi\<close> by (auto simp: fs_inv_def part_init_def maps_inv_def lists_inv_def)
  moreover have "used_inos sbi' = {i. i div cpus sbi \<le> high}"
    using r(2,4) \<open>0 < cpus sbi\<close> by (auto simp: used_inos_def part_init_def)
  moreover have "high = (31 + cpus sbi) div cpus sbi"
    using div_Suc [of 31 "cpus sbi"] div_add_self2 [of "cpus sbi" 31] \<open>0 < cpus sbi\<close>
    by (simp add: high_def NOVA_NORMAL_INODE_START_def del: div_add_self2)
  ultimately show ?thesis using r(3,4) by auto
qed

text \<open>
  C31: after \<open>nova_init_inode_inuse_list\<close> the numbers of the reserved inodes are in use, the trees
  of all CPUs satisfy their invariant, and the free blocks are what they were.
\<close>

theorem init_reserves_inodes:
  assumes "store_inv (E, sbi)" "empty_maps sbi"
  shows "\<exists>sbi'. nova_init_inode_inuse_list E sbi = (sbi', Inr ()) \<and> fs_inv E sbi' \<and>
    {..<NOVA_NORMAL_INODE_START} \<subseteq> used_inos sbi' \<and> all_free sbi' = all_free sbi"
proof -
  obtain sbi' where r: "nova_init_inode_inuse_list E sbi = (sbi', Inr ())" "fs_inv E sbi'"
    "all_free sbi' = all_free sbi" "used_inos sbi' = {i. i div cpus sbi \<le> (31 + cpus sbi) div cpus sbi}"
    using init_inode_inuse_list_ok [OF assms] by auto
  have "i div cpus sbi \<le> (31 + cpus sbi) div cpus sbi" if "i < 32" for i
    using that by (intro div_le_mono) simp
  then show ?thesis using r by (auto simp: NOVA_NORMAL_INODE_START_def)
qed

text \<open>The device of the other examples, with one map without numbers.\<close>

definition demo_map :: inode_map where
  "demo_map = \<lparr>inode_inuse_tree = Leaf, num_range_node_inode = 0, first_inode_range = None, allocated = 0, freed = 0\<rparr>"

definition demo_fs :: sb_info where
  "demo_fs = demo_sb\<lparr>inode_maps := [demo_map]\<rparr>"

lemma demo_fs_inv: "store_inv (demo_env_total, demo_fs)" "empty_maps demo_fs" "all_free demo_fs = {100..1999}"
  using demo_total_inv demo_free(2)
  by (auto simp: store_inv_def lists_inv_def list_bounds_def all_free_def empty_maps_def demo_fs_def demo_map_def)

theorem init_reserves_inodes_witness:
  "\<exists>sbi'. nova_init_inode_inuse_list demo_env_total demo_fs = (sbi', Inr ()) \<and>
     {..<NOVA_NORMAL_INODE_START} \<subseteq> used_inos sbi' \<and> all_free sbi' = {100..1999}"
  using init_reserves_inodes [OF demo_fs_inv(1,2)] by (auto simp: demo_fs_inv(3))

subsection \<open>A client of the inode numbers\<close>

definition pool_inv :: "nat set \<Rightarrow> nova_env \<times> sb_info \<Rightarrow> bool" where
  "pool_inv F st \<longleftrightarrow> fs_inv (fst st) (snd st) \<and> all_free (snd st) = F"

definition pool_free :: "nova_env \<times> sb_info \<Rightarrow> nat set" where
  "pool_free st = - used_inos (snd st)"

text \<open>One number at a time; the first number of every CPU is never given back.\<close>

definition pool_home :: "nova_env \<times> sb_info \<Rightarrow> nat \<Rightarrow> nat \<Rightarrow> bool" where
  "pool_home st i m \<longleftrightarrow> m = 1 \<and> cpus (snd st) \<le> i"

definition pool_take :: "nat \<Rightarrow> nova_env \<times> sb_info \<Rightarrow> (nova_env \<times> sb_info) \<times> (nat \<times> nat) option" where
  "pool_take c st =
     (case nova_alloc_unused_inode (fst st) (snd st) (c mod cpus (snd st)) of
        (sbi', Inl e) \<Rightarrow> ((fst st, sbi'), None)
      | (sbi', Inr i) \<Rightarrow> ((fst st, sbi'), Some (i, 1)))"

definition pool_give :: "nat \<Rightarrow> nat \<Rightarrow> nova_env \<times> sb_info \<Rightarrow> (nova_env \<times> sb_info) \<times> bool" where
  "pool_give i m st =
     (case nova_free_inuse_inode (fst st) (snd st) i of (sbi', r) \<Rightarrow> ((fst st, sbi'), r = Inr ()))"

text \<open>A step of one map that adds or removes the number \<open>n\<close>.\<close>

lemma used_inos_step:
  assumes m: "maps_inv E sbi" and c: "c < cpus sbi"
    and U: "U = map_used (nodes sbi) (inode_maps sbi ! c)"
    and i: "i div cpus sbi = n" "i mod cpus sbi = c"
    and sbi': "sbi' = sbi\<lparr>inode_maps := (inode_maps sbi)[c := im'], nodes := s', s_inodes_used_count := k\<rparr>"
  shows "map_step E (nodes sbi) (inode_maps sbi ! c) s' im' (insert n U) \<Longrightarrow>
           used_inos sbi' = insert i (used_inos sbi)"
    "map_step E (nodes sbi) (inode_maps sbi ! c) s' im' (U - {n}) \<Longrightarrow> used_inos sbi' = used_inos sbi - {i}"
proof -
  have eq: "j mod cpus sbi = c \<and> j div cpus sbi = n \<longleftrightarrow> j = i" for j
    using i by (metis div_mult_mod_eq)
  have here: "j \<in> used_inos sbi \<longleftrightarrow> j div cpus sbi \<in> U" if "j mod cpus sbi = c" for j
    using that by (simp add: used_inos_def U)
  have st: "j \<in> used_inos sbi' \<longleftrightarrow> (if j mod cpus sbi = c then j div cpus sbi \<in> V else j \<in> used_inos sbi)"
    if "map_step E (nodes sbi) (inode_maps sbi ! c) s' im' V" for j V
    using maps_step(2) [OF m c that, of sbi'] by (simp add: sbi')
  show "used_inos sbi' = insert i (used_inos sbi)"
    if "map_step E (nodes sbi) (inode_maps sbi ! c) s' im' (insert n U)"
    unfolding set_eq_iff using st [OF that] here eq i by (metis insert_iff)
  show "used_inos sbi' = used_inos sbi - {i}"
    if "map_step E (nodes sbi) (inode_maps sbi ! c) s' im' (U - {n})"
    unfolding set_eq_iff using st [OF that] here eq i by (metis Diff_iff empty_iff insert_iff)
qed

lemma pool_take_post:
  assumes inv: "fs_inv E sbi"
  shows "case nova_alloc_unused_inode E sbi (c mod cpus sbi) of
           (sbi', Inl e) \<Rightarrow> sbi' = sbi
         | (sbi', Inr i) \<Rightarrow> fs_inv E sbi' \<and> all_free sbi' = all_free sbi \<and> cpus sbi' = cpus sbi \<and>
             i \<notin> used_inos sbi \<and> cpus sbi \<le> i \<and> used_inos sbi' = insert i (used_inos sbi)"
proof -
  let ?c = "c mod cpus sbi"
  have m: "maps_inv E sbi" "rb_lib_ok E" using inv by (simp_all add: fs_inv_def)
  then have c: "?c < cpus sbi" "cpus sbi < 2 ^ 31" "length (inode_maps sbi) = cpus sbi"
    "map_inv E (nodes sbi) (inode_maps sbi ! ?c)" by (auto simp: maps_inv_def)
  note post = alloc_unused_inode_ok [OF m(2) c]
  obtain sbi' r where run: "nova_alloc_unused_inode E sbi ?c = (sbi', r)" by fastforce
  show ?thesis
  proof (cases r)
    case (Inl e)
    then show ?thesis using post run by (simp add: alloc_post_def)
  next
    case (Inr i)
    then obtain n im' s' where n: "n \<notin> map_used (nodes sbi) (inode_maps sbi ! ?c)" "i = n * cpus sbi + ?c"
      and st: "map_step E (nodes sbi) (inode_maps sbi ! ?c) s' im' (insert n (map_used (nodes sbi) (inode_maps sbi ! ?c)))"
      and sbi': "sbi' = sbi\<lparr>inode_maps := (inode_maps sbi)[?c := im'], nodes := s',
                       s_inodes_used_count := u64_add (s_inodes_used_count sbi) 1\<rparr>"
      using post run by (auto simp: alloc_post_def Let_def)
    have i: "i div cpus sbi = n" "i mod cpus sbi = ?c" using n(2) c(1) by simp_all
    have "0 \<in> map_used (nodes sbi) (inode_maps sbi ! ?c)"
      using c(4) by (auto simp: map_inv_def map_used_def blocks_of_Cons)
    then have "0 < n" using n(1) by (cases n) auto
    then have "cpus sbi \<le> i" using n(2) by (cases n) auto
    moreover have "used_inos sbi' = insert i (used_inos sbi)"
      using used_inos_step(1) [OF m(1) c(1) refl i sbi' st] .
    moreover have "i \<notin> used_inos sbi" using n(1) i by (simp add: used_inos_def)
    ultimately show ?thesis using fs_step [OF inv c(1) st sbi'] run Inr sbi' by simp
  qed
qed

lemma pool_give_post:
  assumes inv: "fs_inv E sbi" and i: "cpus sbi \<le> i" "i \<in> used_inos sbi"
  shows "\<exists>sbi'. nova_free_inuse_inode E sbi i = (sbi', Inr ()) \<and> fs_inv E sbi' \<and>
           all_free sbi' = all_free sbi \<and> cpus sbi' = cpus sbi \<and> used_inos sbi' = used_inos sbi - {i}"
proof -
  let ?c = "i mod cpus sbi" and ?n = "i div cpus sbi"
  have m: "maps_inv E sbi" "rb_lib_ok E" "kmem_ok E" "kmem_zalloc E (requests (nodes sbi)) (live (nodes sbi)) \<noteq> None"
    using inv by (auto simp: fs_inv_def kmem_total_def)
  then have c: "0 < cpus sbi" "length (inode_maps sbi) = cpus sbi" "?c < cpus sbi"
    "map_inv E (nodes sbi) (inode_maps sbi ! ?c)" by (auto simp: maps_inv_def)
  note post = free_inuse_inode_ok [OF m(2-4) c(1,2) i(1) c(4)]
  have "?n \<in> map_used (nodes sbi) (inode_maps sbi ! ?c)" using i(2) by (simp add: used_inos_def)
  then obtain im' s' where
    st: "map_step E (nodes sbi) (inode_maps sbi ! ?c) s' im' (map_used (nodes sbi) (inode_maps sbi ! ?c) - {?n})" and
    r: "nova_free_inuse_inode E sbi i = (sbi\<lparr>inode_maps := (inode_maps sbi)[?c := im'], nodes := s',
                      s_inodes_used_count := u64_sub (s_inodes_used_count sbi) 1\<rparr>, Inr ())"
    using post by (auto simp: free_post_def Let_def)
  show ?thesis
    using fs_step [OF inv c(3) st refl] used_inos_step(2) [OF m(1) c(3) refl refl refl refl st] r by simp
qed

interpretation inode_pool: block_store "pool_inv F" pool_free pool_home pool_take pool_give for F
proof
  fix st :: "nova_env \<times> sb_info" and r b m :: nat
  assume inv: "pool_inv F st"
  obtain E sbi where st: "st = (E, sbi)" by (cases st)
  have fs: "fs_inv E sbi" using inv by (simp add: st pool_inv_def)
  note post = pool_take_post [OF fs, of r]
  note defs = pool_take_def pool_free_def pool_home_def pool_inv_def st
  show "pool_inv F (fst (pool_take r st))"
    using post inv by (auto simp: defs split: prod.splits sum.splits)
  show "pool_home (fst (pool_take r st)) b m = pool_home st b m"
    using post by (auto simp: defs split: prod.splits sum.splits)
  show "pool_free (fst (pool_take r st)) = pool_free st" if "snd (pool_take r st) = None"
    using post that by (auto simp: defs split: prod.splits sum.splits)
  show "0 < m \<and> pool_home st b m \<and> {b..<b + m} \<subseteq> pool_free st \<and>
      pool_free (fst (pool_take r st)) = pool_free st - {b..<b + m}"
    if "snd (pool_take r st) = Some (b, m)"
    using post that by (auto simp: defs split: prod.splits sum.splits)
  show "snd (pool_give b m st) \<and> pool_inv F (fst (pool_give b m st)) \<and>
      pool_free (fst (pool_give b m st)) = pool_free st \<union> {b..<b + m} \<and>
      (\<forall>b' m'. pool_home (fst (pool_give b m st)) b' m' = pool_home st b' m')"
    if m: "0 < m" "pool_home st b m" "{b..<b + m} \<inter> pool_free st = {}"
  proof -
    have "cpus sbi \<le> b" "b \<in> used_inos sbi" "m = 1" using m by (auto simp: defs)
    from pool_give_post [OF fs this(1,2)] this(3) show ?thesis
      using inv by (auto simp: defs pool_give_def)
  qed
qed

text \<open>
  C30: a client that allocates and frees inode numbers in any order and on any CPU never holds a
  number twice, never gets one that was in use before, and the numbers in use are always those
  in use at the start and those it holds. The block allocator is not disturbed.
\<close>

theorem inode_numbers_unique:
  assumes "fs_inv E sbi"
    and "fold (client_step pool_take pool_give) ops ((E, sbi), []) = ((E', sbi'), hs)"
  shows "distinct (map fst hs) \<and> set (map fst hs) \<inter> used_inos sbi = {} \<and>
         used_inos sbi' = used_inos sbi \<union> set (map fst hs) \<and>
         lists_inv E' sbi' \<and> all_free sbi' = all_free sbi"
proof -
  have "pool_inv (all_free sbi) (E, sbi)" using assms(1) by (simp add: pool_inv_def)
  from inode_pool.client_run [OF this, of ops] assms(2)
  have ok: "pool_inv (all_free sbi) (E', sbi')" "held_apart hs" "held_blocks hs \<inter> - used_inos sbi' = {}"
    "held_blocks hs \<union> - used_inos sbi' = - used_inos sbi" "\<forall>(i, m) \<in> set hs. m = 1"
    by (auto simp: inode_pool.client_ok_def pool_free_def pool_home_def)
  have held: "held_blocks hs = set (map fst hs)"
    using ok(5) by (induction hs) (auto simp: range_blocks_def)
  have "distinct (map fst hs)"
    using ok(2,5) by (induction hs) (fastforce simp: range_blocks_def held_blocks_def)+
  then show ?thesis
    using ok(1,3,4) held by (auto simp: pool_inv_def fs_inv_def)
qed

theorem inode_numbers_unique_witness:
  "\<exists>sbi E' sbi' hs. nova_init_inode_inuse_list demo_env_total demo_fs = (sbi, Inr ()) \<and>
     fold (client_step pool_take pool_give) [Take 0, Take 0, Give 1, Take 0] ((demo_env_total, sbi), []) =
       ((E', sbi'), hs) \<and>
     distinct (map fst hs) \<and> used_inos sbi' = used_inos sbi \<union> set (map fst hs) \<and> all_free sbi' = {100..1999}"
proof -
  obtain sbi where s: "nova_init_inode_inuse_list demo_env_total demo_fs = (sbi, Inr ())"
    "fs_inv demo_env_total sbi" "all_free sbi = {100..1999}"
    using init_inode_inuse_list_ok [OF demo_fs_inv(1,2)] by (auto simp: demo_fs_inv(3))
  obtain E' sbi' hs where r: "fold (client_step pool_take pool_give) [Take 0, Take 0, Give 1, Take 0]
      ((demo_env_total, sbi), []) = ((E', sbi'), hs)"
    by (metis surj_pair)
  from inode_numbers_unique [OF s(2) r] show ?thesis using s r by metis
qed

end
