(* ===== verification/Inode_Table.thy ===== *)
theory Inode_Table
  imports Inode_Map_Props
begin

text \<open>
  The addresses of inodes: every CPU's table is a chain of 2 MB blocks, and the slots that
  \<open>nova_get_inode_address\<close> computes in the chains never overlap.
\<close>

definition link_of :: "pm \<Rightarrow> nat \<Rightarrow> nat" where
  "link_of P b = read_le 8 P (b + SUPERPAGE - 8)"

fun table_chain :: "pm \<Rightarrow> nat \<Rightarrow> nat list \<Rightarrow> bool" where
  "table_chain P cur [] \<longleftrightarrow> cur = 0"
| "table_chain P cur (b # bs) \<longleftrightarrow> cur = b \<and> b \<noteq> 0 \<and> table_chain P (link_of P b) bs"

definition superpages_apart :: "nat list list \<Rightarrow> bool" where
  "superpages_apart cs \<longleftrightarrow>
     (\<forall>c < length cs. \<forall>k < length (cs ! c). \<forall>d < length cs. \<forall>l < length (cs ! d).
        (c, k) \<noteq> (d, l) \<longrightarrow> cs ! c ! k + SUPERPAGE \<le> cs ! d ! l \<or> cs ! d ! l + SUPERPAGE \<le> cs ! c ! k)"

text \<open>The chains of the tables of one version, and that all their blocks are disjoint.\<close>

definition tables_ok :: "sb_info \<Rightarrow> nat \<Rightarrow> nat list list \<Rightarrow> bool" where
  "tables_ok sbi version cs \<longleftrightarrow>
     length cs = cpus sbi \<and> superpages_apart cs \<and>
     (\<forall>c < cpus sbi. \<exists>t. nova_get_inode_table sbi version c = Some t \<and>
        table_chain (pmem sbi) (read_le 8 (pmem sbi) t) (cs ! c))"

definition has_slot :: "sb_info \<Rightarrow> nat list list \<Rightarrow> nat \<Rightarrow> bool" where
  "has_slot sbi cs i \<longleftrightarrow>
     i div cpus sbi div 2 ^ NUM_INODES_BITS < length (cs ! (i mod cpus sbi)) \<and> i < 2 ^ 32"

definition slot_block :: "sb_info \<Rightarrow> nat list list \<Rightarrow> nat \<Rightarrow> nat" where
  "slot_block sbi cs i = cs ! (i mod cpus sbi) ! (i div cpus sbi div 2 ^ NUM_INODES_BITS)"

definition slot_addr :: "sb_info \<Rightarrow> nat list list \<Rightarrow> nat \<Rightarrow> nat" where
  "slot_addr sbi cs i =
     slot_block sbi cs i + i div cpus sbi mod 2 ^ NUM_INODES_BITS * NOVA_INODE_SIZE"

lemma walk_chain:
  assumes "table_chain (pmem sbi) cur bs" "n < length bs"
  shows "walk_table E smp version c extendable n cur ext sbi = (sbi, Reached (bs ! n) ext)"
  using assms
proof (induction n arbitrary: cur bs)
  case 0
  then show ?case by (cases bs) auto
next
  case (Suc n)
  then obtain b b' bs' where bs: "bs = b # b' # bs'" by (cases bs; cases "tl bs") auto
  then have "link_of (pmem sbi) b = b'" "b' \<noteq> 0" using Suc.prems by auto
  then show ?case
    using Suc.IH [of "link_of (pmem sbi) b" "b' # bs'"] Suc.prems bs by (simp add: link_of_def Let_def)
qed

lemma get_inode_address_slot:
  assumes ok: "tables_ok sbi version cs" and i: "NOVA_NORMAL_INODE_START \<le> i" "has_slot sbi cs i"
    and c: "0 < cpus sbi"
  shows "nova_get_inode_address E smp sbi i version old extendable alt = (sbi, Inr 0, slot_addr sbi cs i)"
proof -
  let ?c = "i mod cpus sbi" and ?n = "i div cpus sbi div 2 ^ NUM_INODES_BITS"
  have "?c < cpus sbi" using c by simp
  then obtain t where t: "nova_get_inode_table sbi version ?c = Some t"
    "table_chain (pmem sbi) (read_le 8 (pmem sbi) t) (cs ! ?c)"
    using ok by (auto simp: tables_ok_def)
  have n: "?n < length (cs ! ?c)" using i(2) by (simp add: has_slot_def)
  have "?n \<le> i" by (meson div_le_dividend le_trans)
  then have "u32_trunc ?n = ?n" using i(2) by (simp add: has_slot_def u32_trunc_def)
  moreover have "read_le 8 (pmem sbi) t \<noteq> 0" using t(2) n by (cases "cs ! ?c") auto
  ultimately show ?thesis
    using t walk_chain [OF t(2) n] i(1)
    by (simp add: nova_get_inode_address_def table_walk_def Let_def slot_addr_def slot_block_def)
qed

lemma slot_in_block:
  "slot_block sbi cs i \<le> slot_addr sbi cs i"
  "slot_addr sbi cs i + NOVA_INODE_SIZE \<le> slot_block sbi cs i + SUPERPAGE"
  by (auto simp: slot_addr_def NOVA_INODE_SIZE_def SUPERPAGE_def NUM_INODES_BITS_def NOVA_INODE_BITS_def)

lemma slots_apart:
  assumes ap: "superpages_apart cs" and c: "0 < cpus sbi" "length cs = cpus sbi"
    and s: "has_slot sbi cs i" "has_slot sbi cs j" and ne: "i \<noteq> j"
  shows "slot_addr sbi cs i + NOVA_INODE_SIZE \<le> slot_addr sbi cs j \<or>
         slot_addr sbi cs j + NOVA_INODE_SIZE \<le> slot_addr sbi cs i"
proof -
  let ?n = "\<lambda>i. i div cpus sbi" and ?b = "2 ^ NUM_INODES_BITS :: nat"
  define pos where "pos i = (i mod cpus sbi, ?n i div ?b)" for i
  show ?thesis
  proof (cases "pos i = pos j")
    case True
    then have "?n i mod ?b \<noteq> ?n j mod ?b" using ne by (metis div_mult_mod_eq pos_def prod.inject)
    moreover have "slot_block sbi cs i = slot_block sbi cs j" using True by (simp add: pos_def slot_block_def)
    ultimately show ?thesis by (auto simp: slot_addr_def NOVA_INODE_SIZE_def)
  next
    case False
    have "slot_block sbi cs i + SUPERPAGE \<le> slot_block sbi cs j \<or>
        slot_block sbi cs j + SUPERPAGE \<le> slot_block sbi cs i"
      using ap [unfolded superpages_apart_def, rule_format, of "fst (pos i)" "snd (pos i)" "fst (pos j)" "snd (pos j)"]
        s c False by (simp add: has_slot_def slot_block_def pos_def)
    then show ?thesis using slot_in_block [of sbi cs i] slot_in_block [of sbi cs j] by linarith
  qed
qed

text \<open>
  C32: in tables whose blocks are disjoint, every inode number that the table reaches has an
  address, the slots of two numbers never overlap, and no inode overlaps the link at the end of
  its own block.
\<close>

theorem inode_slots_disjoint:
  assumes "tables_ok sbi version cs" "0 < cpus sbi"
    and "NOVA_NORMAL_INODE_START \<le> i" "has_slot sbi cs i" "NOVA_NORMAL_INODE_START \<le> j" "has_slot sbi cs j"
  shows "\<exists>a b. nova_get_inode_address E smp sbi i version old ext alt = (sbi, Inr 0, a) \<and>
           nova_get_inode_address E smp sbi j version old ext alt = (sbi, Inr 0, b) \<and>
           (i = j \<or> {a..<a + NOVA_INODE_SIZE} \<inter> {b..<b + NOVA_INODE_SIZE} = {}) \<and>
           a + sizeof_nova_inode \<le> slot_block sbi cs i + SUPERPAGE - 8"
proof -
  have "superpages_apart cs" "length cs = cpus sbi" using assms(1) by (simp_all add: tables_ok_def)
  then have "i = j \<or> {slot_addr sbi cs i..<slot_addr sbi cs i + NOVA_INODE_SIZE} \<inter>
      {slot_addr sbi cs j..<slot_addr sbi cs j + NOVA_INODE_SIZE} = {}"
    using slots_apart [OF _ assms(2) _ assms(4,6)] by (cases "i = j") (simp, fastforce)
  moreover have "slot_addr sbi cs i + sizeof_nova_inode \<le> slot_block sbi cs i + SUPERPAGE - 8"
    using slot_in_block(2) [of sbi cs i]
    by (simp add: sizeof_nova_inode_def packed_size_def nova_inode_def NOVA_INODE_SIZE_def)
  ultimately show ?thesis
    using get_inode_address_slot [OF assms(1,3,4,2)] get_inode_address_slot [OF assms(1,5,6,2)] by blast
qed

text \<open>A table of two blocks.\<close>

definition demo_table :: sb_info where
  "demo_table = demo_sb\<lparr>pmem :=
     write_le 8 0x9FFFF8 0 (write_le 8 0x5FFFF8 0x800000 (write_le 8 0x10000 0x400000 demo_pm))\<rparr>"

lemma demo_table_ok: "tables_ok demo_table 0 [[0x400000, 0x800000]]"
proof -
  have "read_le 8 (pmem demo_table) 0x10000 = 0x400000" "link_of (pmem demo_table) 0x400000 = 0x800000"
    "link_of (pmem demo_table) 0x800000 = 0"
    by (simp_all add: demo_table_def link_of_def SUPERPAGE_def read_write_other)
  then show ?thesis
    by (auto simp: tables_ok_def superpages_apart_def nova_get_inode_table_def demo_table_def SUPERPAGE_def
        NOVA_DEF_BLOCK_SIZE_4K_def INODE_TABLE0_START_def less_Suc_eq)
qed

theorem inode_slots_disjoint_witness:
  "\<exists>a b. nova_get_inode_address demo_env 0 demo_table 40 0 0 False False = (demo_table, Inr 0, a) \<and>
     nova_get_inode_address demo_env 0 demo_table 16400 0 0 False False = (demo_table, Inr 0, b) \<and>
     {a..<a + NOVA_INODE_SIZE} \<inter> {b..<b + NOVA_INODE_SIZE} = {}"
proof -
  have "has_slot demo_table [[0x400000, 0x800000]] i" if "i < 32768" for i
    using that by (simp add: has_slot_def demo_table_def NUM_INODES_BITS_def NOVA_INODE_BITS_def)
  then show ?thesis
    using inode_slots_disjoint [OF demo_table_ok, of 40 16400 demo_env 0 0 False False]
    by (auto simp: NOVA_NORMAL_INODE_START_def) (auto simp: demo_table_def)
qed

end
