(* ===== verification/Scan_Bitmap.thy ===== *)
theory Scan_Bitmap
  imports Inode_Map
begin

text \<open>
  The bitmaps of \<^verbatim>\<open>bbuild.c\<close> in which recovery marks the blocks in use, and how the free lists
  are rebuilt from them. A bitmap is the set of its bits that are one; \<open>bitmap_size\<close> is in bytes.
  Block numbers are below \<open>2\<^sup>3\<^sup>1\<close>, so that they fit the loop variables of type \<^verbatim>\<open>int\<close>.
\<close>

datatype bm_type = BM_4K | BM_2M | BM_1G

record single_scan_bm =
  bitmap_size :: nat
  bitmap :: "nat set"

record scan_bitmap =
  scan_bm_4K :: single_scan_bm
  scan_bm_2M :: single_scan_bm
  scan_bm_1G :: single_scan_bm

definition set_scan_bm :: "nat \<Rightarrow> single_scan_bm \<Rightarrow> single_scan_bm" where
  "set_scan_bm b scan_bm = scan_bm\<lparr>bitmap := insert b (bitmap scan_bm)\<rparr>"

fun set_bm :: "nat \<Rightarrow> bm_type \<Rightarrow> scan_bitmap \<Rightarrow> scan_bitmap" where
  "set_bm b BM_4K bm = bm\<lparr>scan_bm_4K := set_scan_bm b (scan_bm_4K bm)\<rparr>"
| "set_bm b BM_2M bm = bm\<lparr>scan_bm_2M := set_scan_bm b (scan_bm_2M bm)\<rparr>"
| "set_bm b BM_1G bm = bm\<lparr>scan_bm_1G := set_scan_bm b (scan_bm_1G bm)\<rparr>"

definition get_block_cpuid :: "sb_info \<Rightarrow> nat \<Rightarrow> int" where
  "get_block_cpuid sbi blocknr = s32_of (blocknr div per_list_blocks sbi)"

text \<open>
  The kernel's \<^verbatim>\<open>find_next_bit\<close> and \<^verbatim>\<open>find_next_zero_bit\<close>: the first position from \<open>off\<close> on whose
  bit is as wanted, or \<open>sz\<close>.
\<close>

function find_next :: "(nat \<Rightarrow> bool) \<Rightarrow> nat \<Rightarrow> nat \<Rightarrow> nat" where
  "find_next Q sz off = (if sz \<le> off then sz else if Q off then off else find_next Q sz (Suc off))"
  by pat_completeness auto
termination by (relation "measure (\<lambda>(Q, sz, off). sz - off)") auto

declare find_next.simps [simp del]

definition find_next_bit :: "nat set \<Rightarrow> nat \<Rightarrow> nat \<Rightarrow> nat" where
  "find_next_bit B sz off = find_next (\<lambda>b. b \<in> B) sz off"

definition find_next_zero_bit :: "nat set \<Rightarrow> nat \<Rightarrow> nat \<Rightarrow> nat" where
  "find_next_zero_bit B sz off = find_next (\<lambda>b. b \<notin> B) sz off"

lemma find_next_past: "sz \<le> off \<Longrightarrow> find_next Q sz off = sz"
  by (subst find_next.simps) simp

lemma find_next_here: "off < sz \<Longrightarrow> Q off \<Longrightarrow> find_next Q sz off = off"
  by (subst find_next.simps) simp

lemma find_next_on: "\<not> Q off \<Longrightarrow> off < sz \<Longrightarrow> find_next Q sz off = find_next Q sz (Suc off)"
  by (subst find_next.simps) simp

lemma find_next_spec:
  "off \<le> sz \<Longrightarrow> off \<le> find_next Q sz off \<and> find_next Q sz off \<le> sz \<and>
     (find_next Q sz off < sz \<longrightarrow> Q (find_next Q sz off)) \<and>
     (\<forall>b. off \<le> b \<and> b < find_next Q sz off \<longrightarrow> \<not> Q b)"
proof (induction "sz - off" arbitrary: off)
  case 0
  then show ?case by (auto simp: find_next_past)
next
  case (Suc n)
  then have lt: "off < sz" by simp
  show ?case
  proof (cases "Q off")
    case True
    then show ?thesis using lt by (auto simp: find_next_here)
  next
    case False
    have "n = sz - Suc off" "Suc off \<le> sz" using Suc.hyps(2) lt by simp_all
    note IH = Suc.hyps(1) [OF this]
    have "\<not> Q b" if "off \<le> b \<and> b < find_next Q sz (Suc off)" for b
      using IH that False by (cases "b = off") auto
    then show ?thesis unfolding find_next_on [of Q off sz, OF False lt] using IH by (simp add: Suc_leD)
  qed
qed

lemma find_next_le: "find_next Q sz off \<le> sz"
  using find_next_spec [of off sz Q] find_next_past [of sz off Q] by (cases "off \<le> sz") simp_all

lemma find_bit_le: "find_next_bit B sz off \<le> sz" "find_next_zero_bit B sz off \<le> sz"
  unfolding find_next_bit_def find_next_zero_bit_def by (rule find_next_le)+

subsection \<open>Rebuilding the free lists\<close>

definition nova_insert_blocknode_map ::
    "nova_env \<Rightarrow> sb_info \<Rightarrow> nat \<Rightarrow> nat \<Rightarrow> nat \<Rightarrow> sb_info \<times> unit res" where
  "nova_insert_blocknode_map E sbi cpuid low high =
     (let num_blocks = u64_add (u64_sub high low) 1 in
      case nova_get_free_list sbi (int cpuid) of
        Inl e \<Rightarrow> (sbi, Inl e)
      | Inr fl \<Rightarrow>
          (case nova_alloc_blocknode E (nodes sbi) of
             (s, None) \<Rightarrow> (sbi\<lparr>nodes := s\<rparr>, Inl ENOMEM)
           | (s, Some blknode) \<Rightarrow>
               let s = nova_update_range_node_checksum E blknode (set_high blknode high (set_low blknode low s)) in
               case nova_insert_blocktree E s (block_free_tree fl) blknode of
                 Inl e \<Rightarrow> (sbi\<lparr>nodes := nova_free_blocknode s blknode\<rparr>, Inl e)
               | Inr t \<Rightarrow>
                   (set_free_list (int cpuid)
                      (fl\<lparr>block_free_tree := t,
                          first_node := (if first_node fl = None then Some blknode else first_node fl),
                          last_node := Some blknode,
                          num_blocknode := u64_add (num_blocknode fl) 1,
                          num_free_blocks := u64_add (num_free_blocks fl) num_blocks\<rparr>)
                      s sbi, Inr ())))"

text \<open>
  One round of the loop of \<open>__nova_build_blocknode_map\<close>, which ends the loop or goes on with a CPU
  and an interval to search. A free range that cannot be inserted is reported and left out.
\<close>

datatype build = Stop "unit res" | Go nat nat nat

definition next_list :: "nat \<Rightarrow> sb_info \<Rightarrow> build" where
  "next_list cpuid sbi =
     (if int cpuid = int (cpus sbi) - 1 then Stop (Inr ())
      else case nova_get_free_list sbi (int cpuid + 1) of
             Inl e \<Rightarrow> Stop (Inl e)
           | Inr fl \<Rightarrow> Go (cpuid + 1) (block_start fl) (u64_add (block_end fl) 1))"

definition build_step ::
    "nova_env \<Rightarrow> nat set \<Rightarrow> nat \<Rightarrow> nat \<Rightarrow> nat \<Rightarrow> nat \<Rightarrow> nat \<Rightarrow> sb_info \<Rightarrow> sb_info \<times> build" where
  "build_step E B bsize scale cpuid start en sbi =
     (let low = find_next_zero_bit B en start in
      if low = bsize then (sbi, Stop (Inr ()))
      else if low = en then (sbi, next_list cpuid sbi)
      else
        let nxt = find_next_bit B en low;
            sbi' = fst (nova_insert_blocknode_map E sbi cpuid (low * 2 ^ scale) (u64_sub (nxt * 2 ^ scale) 1)) in
        if nxt = bsize then (sbi', Stop (Inr ()))
        else if nxt = en then (sbi', next_list cpuid sbi')
        else (sbi', Go cpuid nxt en))"

lemma find_run:
  assumes ne: "find_next_zero_bit B en start \<noteq> en"
  shows "start \<le> find_next_zero_bit B en start"
    "find_next_zero_bit B en start < find_next_bit B en (find_next_zero_bit B en start)"
    "find_next_bit B en (find_next_zero_bit B en start) \<le> en"
proof -
  let ?l = "find_next_zero_bit B en start"
  have lt: "?l < en" using ne find_bit_le(2) [of B en start] by simp
  have st: "start \<le> en"
    using ne find_next_past [of en start "\<lambda>b. b \<notin> B"] by (cases "start \<le> en") (simp_all add: find_next_zero_bit_def)
  note z = find_next_spec [OF st, of "\<lambda>b. b \<notin> B", folded find_next_zero_bit_def]
  show "start \<le> ?l" using z by simp
  have "find_next_bit B en ?l = find_next_bit B en (Suc ?l)"
    using z lt find_next_on [of "\<lambda>b. b \<in> B" ?l en] by (simp add: find_next_bit_def)
  then show "?l < find_next_bit B en ?l" "find_next_bit B en ?l \<le> en"
    using find_next_spec [of "Suc ?l" en "\<lambda>b. b \<in> B"] lt by (simp_all add: find_next_bit_def Suc_le_eq)
qed

lemma find_run_less:
  "find_next_zero_bit B en start \<noteq> en \<Longrightarrow>
     en - find_next_bit B en (find_next_zero_bit B en start) < en - start"
  using find_run [of B en start] by linarith

lemma insert_map_lists:
  "cpus (fst (nova_insert_blocknode_map E sbi c l h)) = cpus sbi"
  "length (free_lists (fst (nova_insert_blocknode_map E sbi c l h))) = length (free_lists sbi)"
  by (auto simp: nova_insert_blocknode_map_def Let_def split: sum.split prod.split option.split)

lemma next_list_Go:
  "next_list c sbi = Go c' st en \<Longrightarrow> c' = Suc c \<and> c' < length (free_lists sbi)"
  by (auto simp: next_list_def nova_get_free_list_def split: if_splits sum.splits)

lemma build_step_Go:
  assumes "build_step E B bsize scale c start en sbi = (sbi', Go c' st' en')"
  shows "length (free_lists sbi') = length (free_lists sbi) \<and>
    (c' = Suc c \<and> c' < length (free_lists sbi) \<or> c' = c \<and> en' = en \<and> en - st' < en - start)"
  using assms
  by (auto simp: build_step_def Let_def insert_map_lists find_run_less split: if_splits dest!: next_list_Go)

function build_loop ::
    "nova_env \<Rightarrow> nat set \<Rightarrow> nat \<Rightarrow> nat \<Rightarrow> nat \<Rightarrow> nat \<Rightarrow> nat \<Rightarrow> sb_info \<Rightarrow> sb_info \<times> unit res" where
  "build_loop E B bsize scale cpuid start en sbi =
     (case build_step E B bsize scale cpuid start en sbi of
        (sbi', Stop r) \<Rightarrow> (sbi', r)
      | (sbi', Go c st e) \<Rightarrow> build_loop E B bsize scale c st e sbi')"
  by pat_completeness auto
termination
  by (relation "measures [\<lambda>(E, B, bsize, scale, cpuid, start, en, sbi). length (free_lists sbi) - cpuid,
                          \<lambda>(E, B, bsize, scale, cpuid, start, en, sbi). en - start]")
    (auto dest!: build_step_Go [OF sym])

declare build_loop.simps [simp del]

definition build_blocknode_map :: "nova_env \<Rightarrow> nat set \<Rightarrow> nat \<Rightarrow> nat \<Rightarrow> sb_info \<Rightarrow> sb_info \<times> unit res" where
  "build_blocknode_map E B bsize scale sbi =
     (case nova_get_free_list sbi 0 of
        Inl e \<Rightarrow> (sbi, Inl e)
      | Inr fl \<Rightarrow> build_loop E B bsize scale 0 (block_start fl) (u64_add (block_end fl) 1) sbi)"

subsection \<open>Merging the bitmaps\<close>

definition PAGE_SHIFT_2M :: nat where "PAGE_SHIFT_2M = 21"
definition PAGE_SHIFT_1G :: nat where "PAGE_SHIFT_1G = 30"

lemma find_run_set:
  assumes "find_next_bit B en start \<noteq> en"
  shows "start \<le> find_next_bit B en start"
    "find_next_bit B en start < find_next_zero_bit B en (find_next_bit B en start)"
    "find_next_zero_bit B en (find_next_bit B en start) \<le> en"
  using find_run [of "- B" en start] assms by (simp_all add: find_next_bit_def find_next_zero_bit_def)

lemma find_run_set_less:
  "find_next_bit B en start \<noteq> en \<Longrightarrow>
     en - find_next_zero_bit B en (find_next_bit B en start) < en - start"
  using find_run_set [of B en start] by linarith

function update_4K_loop :: "nat set \<Rightarrow> nat \<Rightarrow> nat \<Rightarrow> nat \<Rightarrow> scan_bitmap \<Rightarrow> scan_bitmap" where
  "update_4K_loop B bsize scale nxt bm =
     (let low = find_next_bit B bsize nxt in
      if low = bsize then bm
      else
        let nxt' = find_next_zero_bit B bsize low;
            bm' = fold (\<lambda>i. set_bm i BM_4K) [low * 2 ^ scale..<nxt' * 2 ^ scale] bm in
        if nxt' = bsize then bm' else update_4K_loop B bsize scale nxt' bm')"
  by pat_completeness auto
termination
  by (relation "measure (\<lambda>(B, bsize, scale, nxt, bm). bsize - nxt)") (auto intro: find_run_set_less)

declare update_4K_loop.simps [simp del]

definition nova_update_4K_map :: "nat set \<Rightarrow> nat \<Rightarrow> nat \<Rightarrow> scan_bitmap \<Rightarrow> scan_bitmap" where
  "nova_update_4K_map B bsize scale bm = update_4K_loop B bsize scale 0 bm"

definition expand_maps :: "scan_bitmap \<Rightarrow> scan_bitmap" where
  "expand_maps bm =
     (let bm = nova_update_4K_map (bitmap (scan_bm_2M bm)) (bitmap_size (scan_bm_2M bm) * 8) (PAGE_SHIFT_2M - 12) bm
      in nova_update_4K_map (bitmap (scan_bm_1G bm)) (bitmap_size (scan_bm_1G bm) * 8) (PAGE_SHIFT_1G - 12) bm)"

text \<open>The words of the maps of all CPUs are combined; a word has 64 bits.\<close>

definition merge_bitmaps :: "nat \<Rightarrow> scan_bitmap list \<Rightarrow> nat set" where
  "merge_bitmaps sz bms =
     (let num = sz div 8 + (if sz mod 8 \<noteq> 0 then 1 else 0) in
      fold (\<lambda>bm dst. dst \<union> {b \<in> bitmap (scan_bm_4K bm). b < 64 * num}) bms {})"

definition nova_build_blocknode_map ::
    "nova_env \<Rightarrow> bool \<Rightarrow> bool \<Rightarrow> nat \<Rightarrow> scan_bitmap list \<Rightarrow> sb_info \<Rightarrow> sb_info \<times> unit res" where
  "nova_build_blocknode_map E kzalloc_ok kvzalloc_ok init_size global_bm sbi =
     (if \<not> kzalloc_ok then (sbi, Inl ENOMEM)
      else
        let sz = init_size div 2 ^ (PAGE_SHIFT + 3) in
        if \<not> kvzalloc_ok then (sbi, Inl ENOMEM)
        else build_blocknode_map E (merge_bitmaps sz (map expand_maps global_bm)) (sz * 8) (PAGE_SHIFT - 12) sbi)"

text \<open>\<open>mem_ok i k\<close>: the \<open>k\<close>-th allocation for CPU \<open>i\<close> succeeds.\<close>

definition new_scan_bm :: "nat \<Rightarrow> single_scan_bm" where
  "new_scan_bm sz = \<lparr>bitmap_size = sz, bitmap = {}\<rparr>"

fun alloc_bm_loop :: "(nat \<Rightarrow> nat \<Rightarrow> bool) \<Rightarrow> nat \<Rightarrow> nat list \<Rightarrow> scan_bitmap list \<Rightarrow> scan_bitmap list \<times> unit res" where
  "alloc_bm_loop mem_ok init_size [] global_bm = (global_bm, Inr ())"
| "alloc_bm_loop mem_ok init_size (i # is) global_bm =
     (if \<not> mem_ok i 0 then (global_bm, Inl ENOMEM)
      else
        let bm = \<lparr>scan_bm_4K = new_scan_bm (init_size div 2 ^ (PAGE_SHIFT + 3)),
                  scan_bm_2M = new_scan_bm (init_size div 2 ^ (PAGE_SHIFT_2M + 3)),
                  scan_bm_1G = new_scan_bm (init_size div 2 ^ (PAGE_SHIFT_1G + 3))\<rparr>
        in if \<not> mem_ok i 1 \<or> \<not> mem_ok i 2 \<or> \<not> mem_ok i 3 then (global_bm @ [bm], Inl ENOMEM)
           else alloc_bm_loop mem_ok init_size is (global_bm @ [bm]))"

definition alloc_bm :: "(nat \<Rightarrow> nat \<Rightarrow> bool) \<Rightarrow> nat \<Rightarrow> sb_info \<Rightarrow> scan_bitmap list \<times> unit res" where
  "alloc_bm mem_ok init_size sbi = alloc_bm_loop mem_ok init_size [0..<cpus sbi] []"

end
