(* ===== verification/Scan_Bitmap_Props.thy ===== *)
theory Scan_Bitmap_Props
  imports Scan_Bitmap Balloc_Props
begin

text \<open>
  Recovery rebuilds the free lists from the bitmaps: a block is free afterwards exactly when it
  belongs to a list and no bitmap marks it, at any of the three granularities.
\<close>

subsection \<open>Inserting one range\<close>

definition in_list :: "sb_info \<Rightarrow> nat \<Rightarrow> nat \<Rightarrow> bool" where
  "in_list sbi j b \<longleftrightarrow> block_start (free_lists sbi ! j) \<le> b \<and> b \<le> block_end (free_lists sbi ! j)"

definition same_bounds :: "sb_info \<Rightarrow> sb_info \<Rightarrow> bool" where
  "same_bounds sbi sbi' \<longleftrightarrow>
     cpus sbi' = cpus sbi \<and> pmem sbi' = pmem sbi \<and>
     (\<forall>j < cpus sbi. block_start (free_lists sbi' ! j) = block_start (free_lists sbi ! j) \<and>
        block_end (free_lists sbi' ! j) = block_end (free_lists sbi ! j))"

lemma in_list_unique:
  assumes "lists_inv E sbi" "i < cpus sbi" "j < cpus sbi" "in_list sbi i b" "in_list sbi j b"
  shows "i = j"
proof -
  have "per_list_blocks sbi * k \<le> b \<and> b < per_list_blocks sbi * Suc k" if "k < cpus sbi" "in_list sbi k b" for k
    using assms(1) that by (force simp: lists_inv_def list_bounds_def in_list_def)
  then have "b div per_list_blocks sbi = k" if "k < cpus sbi" "in_list sbi k b" for k
    using that by (intro div_nat_eqI) (simp_all add: mult.commute)
  then show ?thesis using assms by metis
qed

lemma insert_blocknode_map_ok:
  assumes st: "store_inv (E, sbi)" and i: "i < cpus sbi"
    and lh: "low \<le> high" "in_list sbi i low" "in_list sbi i high"
    and below: "\<forall>b \<in> free_set (nodes sbi) (free_lists sbi ! i). b < low"
  shows "\<exists>sbi'. nova_insert_blocknode_map E sbi i low high = (sbi', Inr ()) \<and> store_inv (E, sbi') \<and>
           all_free sbi' = all_free sbi \<union> {low..high} \<and> same_bounds sbi sbi'"
proof -
  let ?s = "nodes sbi" and ?fl = "free_lists sbi ! i"
  have inv: "rb_lib_ok E" "kmem_ok E" "kmem_total E" "finite (live ?s)" "lists_inv E sbi"
    using st by (simp_all add: store_inv_def)
  have len: "length (free_lists sbi) = cpus sbi" and fi: "free_list_inv E ?s ?fl"
    using inv(5) i by (auto simp: lists_inv_def)
  have "kmem_zalloc E (requests ?s) (live ?s) \<noteq> None" using inv(3,4) by (simp add: kmem_total_def)
  then obtain s1 cur where al: "nova_alloc_blocknode E ?s = (s1, Some cur)"
    using alloc_blocknode_total by blast
  note a = alloc_blocknode_list [OF inv(2) fi al]
  define s' where "s' = nova_update_range_node_checksum E cur (set_high cur high (set_low cur low s1))"
  have b: "block_start ?fl \<le> low" "high \<le> block_end ?fl" "block_end ?fl < 2 ^ 32"
    using lh fi by (auto simp: in_list_def free_list_inv_def)
  have far: "\<forall>x \<in> set (fl_nodes ?fl). snd (span s1 x) < low"
  proof
    fix x
    assume x: "x \<in> set (fl_nodes ?fl)"
    note n = free_list_node [OF a(2) x]
    then have "snd (span s1 x) \<in> free_set s1 ?fl" by auto
    then show "snd (span s1 x) < low" using below a(3) by simp
  qed
  obtain t where t: "nova_insert_blocktree E s' (block_free_tree ?fl) cur = Inr t" "inorder t = fl_nodes ?fl @ [cur]"
    and step: "\<And>fl'. block_free_tree fl' = t \<Longrightarrow> first_node fl' = hd_option (fl_nodes ?fl @ [cur]) \<Longrightarrow>
       last_node fl' = last_option (fl_nodes ?fl @ [cur]) \<Longrightarrow> num_blocknode fl' = num_blocknode ?fl + 1 \<Longrightarrow>
       block_start fl' = block_start ?fl \<Longrightarrow> block_end fl' = block_end ?fl \<Longrightarrow>
       num_free_blocks fl' = num_free_blocks ?fl + range_size (low, high) \<Longrightarrow>
       list_step E (insert cur (set (fl_nodes ?fl))) s1 ?fl s' fl' \<and> free_set s' fl' = free_set s1 ?fl \<union> {low..high}"
    using insert_node [OF inv(1) a(2), of "fl_nodes ?fl" "[]" cur low high s'] a(4,6) lh(1) far b s'_def
    by auto
  note cnt = free_list_counts [OF fi]
  define fl' where "fl' = ?fl\<lparr>block_free_tree := t,
    first_node := (if first_node ?fl = None then Some cur else first_node ?fl), last_node := Some cur,
    num_blocknode := u64_add (num_blocknode ?fl) 1,
    num_free_blocks := u64_add (num_free_blocks ?fl) (u64_add (u64_sub high low) 1)\<rparr>"
  have num: "u64_add (u64_sub high low) 1 = range_size (low, high)" "range_size (low, high) \<le> 2 ^ 32"
    using lh(1) b by (simp_all add: range_size_def)
  have fl': "list_step E (insert cur (set (fl_nodes ?fl))) s1 ?fl s' fl' \<and> free_set s' fl' = free_set s1 ?fl \<union> {low..high}"
    using cnt num fi
    by (intro step) (auto simp: fl'_def hd_option_def last_option_def free_list_inv_def split: list.split)
  have "agree ?s s' (live ?s - set (fl_nodes ?fl))"
    using fl' a(1,5,7) by (auto simp: list_step_def agree_def)
  then have "list_step E (fresh_or ?s ?fl) ?s ?fl s' fl'"
    using fl' a(5,7) by (auto simp: list_step_def fresh_or_def elim!: agree_subset)
  note ls = lists_step [OF inv(5) i this]
  have run: "nova_insert_blocknode_map E sbi i low high = (set_free_list (int i) fl' s' sbi, Inr ())"
    using al t(1) by (simp add: nova_insert_blocknode_map_def Let_def get_free_list_nth len i s'_def fl'_def)
  have "free_set ?s ?fl \<subseteq> all_free sbi" using i len by (auto simp: all_free_def)
  then have "all_free (set_free_list (int i) fl' s' sbi) = all_free sbi \<union> {low..high}"
    using ls(2) fl' a(3) by auto
  moreover have "same_bounds sbi (set_free_list (int i) fl' s' sbi)"
    using i by (auto simp: same_bounds_def nth_list_update len fl'_def)
  ultimately show ?thesis using run ls(1,4) inv by (auto simp: store_inv_def)
qed

subsection \<open>The loop\<close>

text \<open>
  The blocks that are free when the loop is at block \<open>st\<close> of list \<open>c\<close>: the unmarked blocks of
  the lists before \<open>c\<close>, and those of \<open>c\<close> before \<open>st\<close>.
\<close>

definition scanned :: "nat set \<Rightarrow> sb_info \<Rightarrow> nat \<Rightarrow> nat \<Rightarrow> nat set" where
  "scanned B sbi c st = {b. b \<notin> B \<and> ((\<exists>j < c. in_list sbi j b) \<or> in_list sbi c b \<and> b < st)}"

definition scan_at :: "nova_env \<Rightarrow> nat set \<Rightarrow> sb_info \<Rightarrow> nat \<Rightarrow> nat \<Rightarrow> nat \<Rightarrow> sb_info \<Rightarrow> bool" where
  "scan_at E B sbi0 c st en sbi \<longleftrightarrow>
     store_inv (E, sbi) \<and> same_bounds sbi0 sbi \<and> c < cpus sbi0 \<and>
     block_start (free_lists sbi0 ! c) \<le> st \<and> en = block_end (free_lists sbi0 ! c) + 1 \<and>
     all_free sbi = scanned B sbi0 c st"

lemma same_bounds_in_list: "same_bounds sbi sbi' \<Longrightarrow> j < cpus sbi \<Longrightarrow> in_list sbi' j b = in_list sbi j b"
  by (simp add: same_bounds_def in_list_def)

lemma same_bounds_trans: "same_bounds a b \<Longrightarrow> same_bounds b c \<Longrightarrow> same_bounds a c"
  by (simp add: same_bounds_def)

lemma all_free_in_list:
  assumes "lists_inv E sbi" "i < cpus sbi"
  shows "free_set (nodes sbi) (free_lists sbi ! i) = {b \<in> all_free sbi. in_list sbi i b}"
proof -
  have len: "length (free_lists sbi) = cpus sbi" using assms(1) by (simp add: lists_inv_def)
  have sub: "\<forall>b \<in> free_set (nodes sbi) (free_lists sbi ! j). in_list sbi j b" if "j < cpus sbi" for j
  proof -
    have "free_list_inv E (nodes sbi) (free_lists sbi ! j)" using assms(1) that by (simp add: lists_inv_def)
    then show ?thesis by (auto simp: free_list_inv_def in_list_def)
  qed
  show ?thesis
    using sub in_list_unique [OF assms(1)] assms(2) by (fastforce simp: all_free_def len)
qed

text \<open>A run of unmarked blocks is inserted.\<close>

lemma scan_insert:
  assumes at: "scan_at E B sbi0 c st en sbi" and run: "find_next_zero_bit B en st \<noteq> en"
  defines "low \<equiv> find_next_zero_bit B en st"
  defines "nxt \<equiv> find_next_bit B en low"
  shows "\<exists>sbi'. nova_insert_blocknode_map E sbi c low (u64_sub nxt 1) = (sbi', Inr ()) \<and>
           scan_at E B sbi0 c nxt en sbi'"
proof -
  have a: "store_inv (E, sbi)" "same_bounds sbi0 sbi" "c < cpus sbi0" "block_start (free_lists sbi0 ! c) \<le> st"
    "en = block_end (free_lists sbi0 ! c) + 1" "all_free sbi = scanned B sbi0 c st"
    using at by (simp_all add: scan_at_def)
  note r = find_run [OF run, folded low_def, folded nxt_def]
  have c: "c < cpus sbi" "lists_inv E sbi" "in_list sbi c b = in_list sbi0 c b" for b
    using a same_bounds_in_list by (auto simp: same_bounds_def store_inv_def)
  have "block_end (free_lists sbi ! c) < 2 ^ 32" using c(1,2) by (simp add: lists_inv_def free_list_inv_def)
  then have small: "en \<le> 2 ^ 32" using a(2,3,5) by (simp add: same_bounds_def)
  then have hi: "u64_sub nxt 1 = nxt - 1" using r by simp
  have st: "st \<le> en" using r by simp
  have zero: "b \<in> B" if "st \<le> b" "b < low" for b
    using find_next_spec [OF st, of "\<lambda>b. b \<notin> B"] that by (simp add: low_def find_next_zero_bit_def)
  have one: "b \<notin> B" if "low \<le> b" "b < nxt" for b
    using find_next_spec [of low en "\<lambda>b. b \<in> B"] r that by (simp add: nxt_def find_next_bit_def)
  have inl: "in_list sbi0 c b" if "low \<le> b" "b < nxt" for b
    using that r a(4,5) by (simp add: in_list_def)
  have "\<forall>b \<in> free_set (nodes sbi) (free_lists sbi ! c). b < low"
  proof
    fix b
    assume "b \<in> free_set (nodes sbi) (free_lists sbi ! c)"
    then have "b \<in> scanned B sbi0 c st" "in_list sbi c b"
      using all_free_in_list [OF c(2,1)] a(6) by auto
    moreover have "j = c" if "j < c" "in_list sbi0 j b" for j
      using that in_list_unique [OF c(2), of j c b] c a(3) \<open>in_list sbi c b\<close> same_bounds_in_list [OF a(2), of j b]
      by auto
    ultimately have "b < st" by (auto simp: scanned_def)
    then show "b < low" using r(1) by simp
  qed
  moreover have "low \<le> nxt - 1" using r(2) by simp
  ultimately obtain sbi' where sbi': "nova_insert_blocknode_map E sbi c low (nxt - 1) = (sbi', Inr ())"
    "store_inv (E, sbi')" "all_free sbi' = all_free sbi \<union> {low..nxt - 1}" "same_bounds sbi sbi'"
    using insert_blocknode_map_ok [OF a(1) c(1), of low "nxt - 1"] r inl c(3) by auto
  have "{low..nxt - 1} = {low..<nxt}" using r(2) by auto
  moreover have "scanned B sbi0 c nxt = scanned B sbi0 c st \<union> {low..<nxt}"
  proof (intro set_eqI iffI)
    fix b
    assume "b \<in> scanned B sbi0 c nxt"
    then show "b \<in> scanned B sbi0 c st \<union> {low..<nxt}"
      using zero by (cases "b < st"; cases "low \<le> b") (auto simp: scanned_def not_less not_le)
  next
    fix b
    assume "b \<in> scanned B sbi0 c st \<union> {low..<nxt}"
    then show "b \<in> scanned B sbi0 c nxt" using one inl r by (auto simp: scanned_def)
  qed
  ultimately have "scanned B sbi0 c nxt = scanned B sbi0 c st \<union> {low..nxt - 1}" by simp
  then have "scan_at E B sbi0 c nxt en sbi'"
    using sbi' a r same_bounds_trans by (auto simp: scan_at_def)
  then show ?thesis using sbi'(1) hi by simp
qed

definition all_unmarked :: "nat set \<Rightarrow> sb_info \<Rightarrow> nat set" where
  "all_unmarked B sbi = {b. b \<notin> B \<and> (\<exists>j < cpus sbi. in_list sbi j b)}"

text \<open>The lists end inside the bitmap, and only the last one may end with it.\<close>

definition lists_fit :: "nat \<Rightarrow> sb_info \<Rightarrow> bool" where
  "lists_fit bsize sbi \<longleftrightarrow>
     (\<forall>j < cpus sbi. block_end (free_lists sbi ! j) < bsize \<and>
        (block_end (free_lists sbi ! j) + 1 = bsize \<longrightarrow> j + 1 = cpus sbi))"

definition scan_done :: "nova_env \<Rightarrow> nat set \<Rightarrow> sb_info \<Rightarrow> sb_info \<Rightarrow> bool" where
  "scan_done E B sbi0 sbi \<longleftrightarrow>
     store_inv (E, sbi) \<and> same_bounds sbi0 sbi \<and> all_free sbi = all_unmarked B sbi0"

lemma scan_list_end:
  assumes at: "scan_at E B sbi0 c st en sbi" and "\<forall>b. st \<le> b \<and> b < en \<longrightarrow> b \<in> B"
  shows "case next_list c sbi of
      Stop r \<Rightarrow> r = Inr () \<and> scan_done E B sbi0 sbi
    | Go c' st' en' \<Rightarrow> scan_at E B sbi0 c' st' en' sbi"
    "c + 1 = cpus sbi0 \<Longrightarrow> scan_done E B sbi0 sbi"
proof -
  have a: "store_inv (E, sbi)" "same_bounds sbi0 sbi" "c < cpus sbi0"
    "en = block_end (free_lists sbi0 ! c) + 1" "all_free sbi = scanned B sbi0 c st"
    using at by (simp_all add: scan_at_def)
  have l: "lists_inv E sbi" "cpus sbi = cpus sbi0" using a by (auto simp: store_inv_def same_bounds_def)
  have len: "length (free_lists sbi) = cpus sbi" using l(1) by (simp add: lists_inv_def)
  have scan: "all_free sbi = {b. b \<notin> B \<and> (\<exists>j < Suc c. in_list sbi0 j b)}"
    using a(4,5) assms(2) by (auto simp: scanned_def less_Suc_eq in_list_def not_less)
  show last: "scan_done E B sbi0 sbi" if "c + 1 = cpus sbi0"
    using a scan that by (auto simp: scan_done_def all_unmarked_def)
  show "case next_list c sbi of
      Stop r \<Rightarrow> r = Inr () \<and> scan_done E B sbi0 sbi
    | Go c' st' en' \<Rightarrow> scan_at E B sbi0 c' st' en' sbi"
  proof (cases "c + 1 = cpus sbi0")
    case True
    then show ?thesis using last l(2) by (simp add: next_list_def)
  next
    case False
    then have c: "Suc c < cpus sbi0" using a(3) by simp
    have "block_end (free_lists sbi ! Suc c) < 2 ^ 32"
      using l c by (simp add: lists_inv_def free_list_inv_def)
    moreover have "nova_get_free_list sbi (int c + 1) = Inr (free_lists sbi ! Suc c)"
      using get_free_list_nth [of "Suc c" sbi] c len l(2) by (simp add: add.commute)
    moreover have "scanned B sbi0 (Suc c) (block_start (free_lists sbi0 ! Suc c)) = all_free sbi"
      using scan by (auto simp: scanned_def in_list_def)
    moreover have "block_start (free_lists sbi ! Suc c) = block_start (free_lists sbi0 ! Suc c)"
      "block_end (free_lists sbi ! Suc c) = block_end (free_lists sbi0 ! Suc c)"
      using a(2) c by (simp_all add: same_bounds_def)
    ultimately show ?thesis
      using a(1,2) c False l(2) by (simp add: next_list_def scan_at_def)
  qed
qed

lemma build_step_ok:
  assumes at: "scan_at E B sbi0 c st en sbi" and fit: "lists_fit bsize sbi0"
  shows "case build_step E B bsize 0 c st en sbi of
      (sbi', Stop r) \<Rightarrow> r = Inr () \<and> scan_done E B sbi0 sbi'
    | (sbi', Go c' st' en') \<Rightarrow> scan_at E B sbi0 c' st' en' sbi'"
proof -
  let ?low = "find_next_zero_bit B en st"
  have c: "c < cpus sbi0" "en = block_end (free_lists sbi0 ! c) + 1" using at by (simp_all add: scan_at_def)
  have fin: "c + 1 = cpus sbi0" if "en = bsize" using fit c that by (simp add: lists_fit_def)
  have le: "en \<le> bsize" using fit c by (simp add: lists_fit_def Suc_le_eq)
  show ?thesis
  proof (cases "?low = en")
    case True
    have "\<forall>b. st \<le> b \<and> b < en \<longrightarrow> b \<in> B"
      using find_next_spec [of st en "\<lambda>b. b \<notin> B"] True by (cases "st \<le> en") (auto simp: find_next_zero_bit_def)
    from scan_list_end [OF at this] show ?thesis
      using True fin by (auto simp: build_step_def split: build.split)
  next
    case False
    let ?nxt = "find_next_bit B en ?low"
    obtain sbi' where sbi': "nova_insert_blocknode_map E sbi c ?low (u64_sub ?nxt 1) = (sbi', Inr ())"
      "scan_at E B sbi0 c ?nxt en sbi'" using scan_insert [OF at False] by auto
    have low: "?low < en" using find_run [OF False] by simp
    show ?thesis
    proof (cases "?nxt = en")
      case True
      have "\<forall>b. ?nxt \<le> b \<and> b < en \<longrightarrow> b \<in> B" using True by auto
      from scan_list_end [OF sbi'(2) this] show ?thesis
        using True False fin low le sbi'(1) by (auto simp: build_step_def Let_def split: build.split)
    next
      case ne: False
      then have "?nxt < en" using find_bit_le(1) [of B en ?low] by simp
      then show ?thesis using False low le sbi' by (simp add: build_step_def Let_def)
    qed
  qed
qed

lemma build_loop_ok:
  assumes "scan_at E B sbi0 c st en sbi" "lists_fit bsize sbi0"
  shows "\<exists>sbi'. build_loop E B bsize 0 c st en sbi = (sbi', Inr ()) \<and> scan_done E B sbi0 sbi'"
  using assms
proof (induction E B bsize "0 :: nat" c st en sbi rule: build_loop.induct)
  case (1 E B bsize c st en sbi)
  note ok = build_step_ok [OF 1(2,3)]
  obtain sbi' r where r: "build_step E B bsize 0 c st en sbi = (sbi', r)" by fastforce
  show ?case
  proof (cases r)
    case (Stop x)
    then show ?thesis using ok r by (subst build_loop.simps) simp
  next
    case (Go c' st' en')
    then show ?thesis using ok r 1(1) [OF r [symmetric] Go _ 1(3)] by (subst build_loop.simps) simp
  qed
qed

subsection \<open>The bitmaps of all CPUs\<close>

lemma fold_set_bm:
  "bitmap (scan_bm_4K (fold (\<lambda>i. set_bm i BM_4K) xs bm)) = bitmap (scan_bm_4K bm) \<union> set xs"
  "scan_bm_2M (fold (\<lambda>i. set_bm i BM_4K) xs bm) = scan_bm_2M bm"
  "scan_bm_1G (fold (\<lambda>i. set_bm i BM_4K) xs bm) = scan_bm_1G bm"
  by (induction xs arbitrary: bm) (auto simp: set_scan_bm_def)

definition covered :: "nat set \<Rightarrow> nat \<Rightarrow> nat \<Rightarrow> nat \<Rightarrow> nat set" where
  "covered B bsize scale k = {b. k \<le> b div 2 ^ scale \<and> b div 2 ^ scale < bsize \<and> b div 2 ^ scale \<in> B}"

lemma run_blocks: "b \<in> {l * 2 ^ scale..<h * 2 ^ scale} \<longleftrightarrow> l \<le> b div 2 ^ scale \<and> b div 2 ^ scale < h" for b :: nat
  by (simp add: less_eq_div_iff_mult_less_eq div_less_iff_less_mult)

lemma covered_step:
  assumes k: "k \<le> bsize" and low: "low = find_next_bit B bsize k" "low \<noteq> bsize"
    and nxt: "nxt = find_next_zero_bit B bsize low"
  shows "covered B bsize scale k = {low * 2 ^ scale..<nxt * 2 ^ scale} \<union> covered B bsize scale nxt"
    "nxt \<le> bsize"
proof -
  note a = find_next_spec [OF k, of "\<lambda>b. b \<in> B", folded find_next_bit_def, folded low(1)]
  then have "low \<le> bsize" by simp
  note b = find_next_spec [OF this, of "\<lambda>b. b \<notin> B", folded find_next_zero_bit_def, folded nxt]
  then show "nxt \<le> bsize" by simp
  have "k \<le> q \<and> q < bsize \<and> q \<in> B \<longleftrightarrow> low \<le> q \<and> q < nxt \<or> nxt \<le> q \<and> q < bsize \<and> q \<in> B" for q
    using a b by (metis le_trans less_le_trans not_le)
  then show "covered B bsize scale k = {low * 2 ^ scale..<nxt * 2 ^ scale} \<union> covered B bsize scale nxt"
    unfolding covered_def set_eq_iff Un_iff mem_Collect_eq run_blocks by blast
qed

lemma update_4K_loop_ok:
  "k \<le> bsize \<Longrightarrow>
     bitmap (scan_bm_4K (update_4K_loop B bsize scale k bm)) = bitmap (scan_bm_4K bm) \<union> covered B bsize scale k \<and>
     scan_bm_2M (update_4K_loop B bsize scale k bm) = scan_bm_2M bm \<and>
     scan_bm_1G (update_4K_loop B bsize scale k bm) = scan_bm_1G bm"
proof (induction B bsize scale k bm rule: update_4K_loop.induct)
  case (1 B bsize scale k bm)
  define low where "low = find_next_bit B bsize k"
  define nxt where "nxt = find_next_zero_bit B bsize low"
  define bm' where "bm' = fold (\<lambda>i. set_bm i BM_4K) [low * 2 ^ scale..<nxt * 2 ^ scale] bm"
  have loop: "update_4K_loop B bsize scale k bm =
      (if low = bsize then bm else if nxt = bsize then bm' else update_4K_loop B bsize scale nxt bm')"
    by (subst update_4K_loop.simps) (simp add: Let_def low_def nxt_def bm'_def)
  show ?case
  proof (cases "low = bsize")
    case True
    then have "covered B bsize scale k = {}"
      using find_next_spec [OF "1.prems", of "\<lambda>b. b \<in> B"] by (auto simp: covered_def low_def find_next_bit_def)
    then show ?thesis using True by (simp add: loop)
  next
    case False
    note c = covered_step [OF "1.prems" low_def False nxt_def]
    have none: "covered B bsize scale bsize = {}" by (auto simp: covered_def)
    show ?thesis
    proof (cases "nxt = bsize")
      case True
      then show ?thesis using False c(1) none by (simp add: loop bm'_def fold_set_bm)
    next
      case ne: False
      from "1.IH" [OF low_def False nxt_def bm'_def ne c(2)] show ?thesis
        using False ne c(1) by (auto simp: loop bm'_def fold_set_bm)
    qed
  qed
qed

definition marked :: "scan_bitmap \<Rightarrow> nat \<Rightarrow> bool" where
  "marked bm b \<longleftrightarrow>
     b \<in> bitmap (scan_bm_4K bm) \<or>
     b div 512 < bitmap_size (scan_bm_2M bm) * 8 \<and> b div 512 \<in> bitmap (scan_bm_2M bm) \<or>
     b div 262144 < bitmap_size (scan_bm_1G bm) * 8 \<and> b div 262144 \<in> bitmap (scan_bm_1G bm)"

lemma expand_maps_marked: "b \<in> bitmap (scan_bm_4K (expand_maps bm)) \<longleftrightarrow> marked bm b"
  by (auto simp: expand_maps_def Let_def nova_update_4K_map_def update_4K_loop_ok covered_def marked_def
      PAGE_SHIFT_2M_def PAGE_SHIFT_1G_def)

lemma merge_bitmaps_iff:
  assumes "b < sz * 8"
  shows "b \<in> merge_bitmaps sz bms \<longleftrightarrow> (\<exists>bm \<in> set bms. b \<in> bitmap (scan_bm_4K bm))"
proof -
  let ?num = "sz div 8 + (if sz mod 8 \<noteq> 0 then 1 else 0)"
  have "sz \<le> 8 * ?num" by (auto simp: mult_div_mod_eq [symmetric] intro: le_trans)
  then have b: "b < 64 * ?num" using assms by linarith
  have "b \<in> fold (\<lambda>bm dst. dst \<union> {b \<in> bitmap (scan_bm_4K bm). b < 64 * ?num}) bms S \<longleftrightarrow>
      b \<in> S \<or> (\<exists>bm \<in> set bms. b \<in> bitmap (scan_bm_4K bm))" for S
    using b by (induction bms arbitrary: S) auto
  then show ?thesis by (simp add: merge_bitmaps_def Let_def)
qed


definition demo_scan :: scan_bitmap where
  "demo_scan = \<lparr>scan_bm_4K = \<lparr>bitmap_size = 250, bitmap = {100, 101}\<rparr>,
                scan_bm_2M = \<lparr>bitmap_size = 1, bitmap = {1}\<rparr>, scan_bm_1G = new_scan_bm 0\<rparr>"

definition demo_empty :: sb_info where
  "demo_empty = demo_sb\<lparr>free_lists := [kcalloc_free_list\<lparr>block_start := 64, block_end := 1999\<rparr>]\<rparr>"

lemma demo_empty_ok:
  "store_inv (demo_env_total, demo_empty)" "all_free demo_empty = {}" "lists_fit 2000 demo_empty"
  using demo_env_total_ok
  by (auto simp: store_inv_def lists_inv_def list_bounds_def demo_empty_def lists_fit_def all_free_def
      free_list_inv_def free_set_blocks fl_nodes_def kcalloc_free_list_def nodes_inv_simps range_simps end_options)


end
