(* ===== verification/Log_Alloc.thy ===== *)
theory Log_Alloc
  imports Log_Pages Balloc
begin

text \<open>
  Allocating, linking and freeing the pages of a log, the last part of \<^verbatim>\<open>log.c\<close>. Pages are named by
  their address; the loops that follow links may not end when the links form a cycle, so they are
  partial functions.
\<close>

subsection \<open>Replica links\<close>

partial_function (option) update_alter_loop :: "nova_env \<Rightarrow> nat \<Rightarrow> nat \<Rightarrow> pm \<Rightarrow> pm option" where
  "update_alter_loop E cur alter_curr P =
     (if cur \<noteq> 0 \<and> alter_curr \<noteq> 0 then
        let P' = nova_set_alter_page_address E cur alter_curr P in
        update_alter_loop E (next_log_page E P' cur) (next_log_page E P' alter_curr) P'
      else Some P)"

definition nova_update_alter_pages :: "nova_env \<Rightarrow> nat \<Rightarrow> nat \<Rightarrow> pm \<Rightarrow> pm option" where
  "nova_update_alter_pages E cur alter_curr P =
     (if cur = 0 \<or> alter_curr = 0 \<or> \<not> metadata_csum E then Some P
      else update_alter_loop E cur alter_curr P)"

subsection \<open>Linking allocated blocks\<close>

definition reset_page_counts :: "nova_env \<Rightarrow> nat \<Rightarrow> pm \<Rightarrow> pm" where
  "reset_page_counts E curr_page P =
     nova_set_page_invalid_entries E curr_page 0 False (nova_set_page_num_entries E curr_page 0 False P)"

fun coalesce_loop :: "nova_env \<Rightarrow> nat \<Rightarrow> nat \<Rightarrow> nat \<Rightarrow> pm \<Rightarrow> pm" where
  "coalesce_loop E 0 curr_page next_blocknr P =
     nova_set_next_page_address E curr_page 0 True (reset_page_counts E curr_page P)"
| "coalesce_loop E (Suc n) curr_page next_blocknr P =
     coalesce_loop E n (curr_page + PAGE_SIZE) (next_blocknr + 1)
       (nova_set_next_page_address E curr_page (nova_get_block_off next_blocknr) False
          (reset_page_counts E curr_page P))"

definition nova_coalesce_log_pages :: "nova_env \<Rightarrow> nat \<Rightarrow> nat \<Rightarrow> nat \<Rightarrow> pm \<Rightarrow> pm" where
  "nova_coalesce_log_pages E prev_blocknr first_blocknr num_pages P =
     (let P = (if prev_blocknr \<noteq> 0
               then nova_set_next_page_address E (nova_get_block_off prev_blocknr)
                      (nova_get_block_off first_blocknr) False P
               else P)
      in coalesce_loop E (num_pages - 1) (nova_get_block_off first_blocknr) (first_blocknr + 1) P)"

text \<open>
  The rest of the allocation after the first blocks: it gives the number of pages, \<open>ret_pages\<close>
  so far. A failure ends the loop with the pages it has.
\<close>

partial_function (option) more_log_pages ::
    "nova_env \<Rightarrow> nat \<Rightarrow> nat \<Rightarrow> int \<Rightarrow> nova_alloc_direction \<Rightarrow> nat \<Rightarrow> nat \<Rightarrow> int \<Rightarrow> sb_info
     \<Rightarrow> (sb_info \<times> int res) option" where
  "more_log_pages E smp btype cpuid from_tail num_pages prev_blocknr ret_pages sbi =
     (if num_pages = 0 then Some (sbi, Inr ret_pages)
      else
        case nova_new_log_blocks E smp sbi btype num_pages False cpuid from_tail of
          (sbi', Inl e) \<Rightarrow> Some (sbi', if e = EOOPS then Inl EOOPS else Inr ret_pages)
        | (sbi', Inr (blocknr, got)) \<Rightarrow>
            if got \<le> 0 then Some (sbi', Inr ret_pages)
            else more_log_pages E smp btype cpuid from_tail (u64_sub num_pages (nat got))
                   (blocknr + nat got - 1) (ret_pages + got)
                   (sbi'\<lparr>pmem := nova_coalesce_log_pages E prev_blocknr blocknr (nat got) (pmem sbi')\<rparr>))"

text \<open>The number of pages, or the error, and what \<^verbatim>\<open>*new_block\<close> holds afterwards.\<close>

definition nova_allocate_inode_log_pages ::
    "nova_env \<Rightarrow> nat \<Rightarrow> sb_info \<Rightarrow> nat \<Rightarrow> nat \<Rightarrow> nat \<Rightarrow> int \<Rightarrow> nova_alloc_direction
     \<Rightarrow> (sb_info \<times> int res \<times> nat) option" where
  "nova_allocate_inode_log_pages E smp sbi btype num_pages new_block cpuid from_tail =
     (case nova_new_log_blocks E smp sbi btype num_pages False cpuid from_tail of
        (sbi', Inl e) \<Rightarrow> Some (sbi', Inl e, new_block)
      | (sbi', Inr (blocknr, got)) \<Rightarrow>
          if got \<le> 0 then Some (sbi', Inr got, new_block)
          else
            map_option (\<lambda>(sbi'', r). (sbi'', r, nova_get_block_off blocknr))
              (more_log_pages E smp btype cpuid from_tail (u64_sub num_pages (nat got)) (blocknr + nat got - 1) got
                 (sbi'\<lparr>pmem := nova_coalesce_log_pages E 0 blocknr (nat got) (pmem sbi')\<rparr>)))"

subsection \<open>The first page and one more page\<close>

definition nova_initialize_inode_log ::
    "nova_env \<Rightarrow> nat \<Rightarrow> nat \<Rightarrow> bool \<Rightarrow> sb_info \<Rightarrow> inode_info_header
     \<Rightarrow> (sb_info \<times> inode_info_header \<times> unit res) option" where
  "nova_initialize_inode_log E smp pi main_log sbi sih =
     map_option (\<lambda>(sbi, r, new_block).
       if r = Inl EOOPS then (sbi, sih, Inl EOOPS)
       else if r \<noteq> Inr 1 then (sbi, sih, Inl ENOSPC)
       else if main_log then
         let P = set_field nova_inode I_log_tail pi new_block (pmem sbi);
             P = nova_flush_buffer (support_clwb E) (pi + packed_off nova_inode I_log_tail) CACHELINE_SIZE False P;
             P = set_field nova_inode I_log_head pi new_block P;
             P = nova_flush_buffer (support_clwb E) (pi + packed_off nova_inode I_log_head) CACHELINE_SIZE True P
         in (sbi\<lparr>pmem := P\<rparr>, sih\<lparr>log_head := new_block, log_tail := new_block, log_pages := 1\<rparr>, Inr ())
       else
         let P = set_field nova_inode I_alter_log_tail pi new_block (pmem sbi);
             P = nova_flush_buffer (support_clwb E) (pi + packed_off nova_inode I_alter_log_tail) CACHELINE_SIZE False P;
             P = set_field nova_inode I_alter_log_head pi new_block P;
             P = nova_flush_buffer (support_clwb E) (pi + packed_off nova_inode I_alter_log_head) CACHELINE_SIZE True P
         in (sbi\<lparr>pmem := P\<rparr>,
             sih\<lparr>alter_log_head := new_block, alter_log_tail := new_block, log_pages := u64_add (log_pages sih) 1\<rparr>,
             Inr ()))
     (nova_allocate_inode_log_pages E smp sbi (i_blk_type sih) 1 0 ANY_CPU
        (if main_log then ALLOC_FROM_HEAD else ALLOC_FROM_TAIL))"

definition nova_append_one_log_page ::
    "nova_env \<Rightarrow> nat \<Rightarrow> inode_info_header \<Rightarrow> nat \<Rightarrow> sb_info \<Rightarrow> (sb_info \<times> nat) option" where
  "nova_append_one_log_page E smp sih curr_p sbi =
     map_option (\<lambda>(sbi, r, new_block).
       if r \<noteq> Inr 1 then (sbi, 0)
       else if curr_p = 0 then (sbi, new_block)
       else (sbi\<lparr>pmem := nova_set_next_page_address E (BLOCK_OFF curr_p) new_block True (pmem sbi)\<rparr>, curr_p))
     (nova_allocate_inode_log_pages E smp sbi (i_blk_type sih) 1 0 ANY_CPU ALLOC_FROM_HEAD)"

subsection \<open>Freeing a log\<close>

text \<open>
  Neighbouring pages are freed together. The result of \<^verbatim>\<open>nova_free_log_blocks\<close> is ignored, and the
  pages count as freed.
\<close>

definition free_run :: "nova_env \<Rightarrow> nat \<Rightarrow> nat \<Rightarrow> int \<Rightarrow> sb_info \<Rightarrow> sb_info" where
  "free_run E btype start_blocknr num_free sbi = fst (nova_free_log_blocks E sbi btype start_blocknr num_free)"

partial_function (option) free_log_loop ::
    "nova_env \<Rightarrow> nat \<Rightarrow> nat \<Rightarrow> nat \<Rightarrow> int \<Rightarrow> int \<Rightarrow> sb_info \<Rightarrow> (sb_info \<times> nat \<times> int \<times> int) option" where
  "free_log_loop E btype curr_block start_blocknr num_free freed_n sbi =
     (if curr_block = 0 \<or> ENTRY_LOC curr_block \<noteq> 0 then Some (sbi, start_blocknr, num_free, freed_n)
      else
        let blocknr = nova_get_blocknr curr_block; nxt = next_log_page E (pmem sbi) curr_block in
        if start_blocknr = 0 then free_log_loop E btype nxt blocknr 1 freed_n sbi
        else if int blocknr = int start_blocknr + num_free
        then free_log_loop E btype nxt start_blocknr (num_free + 1) freed_n sbi
        else free_log_loop E btype nxt blocknr 1 (freed_n + num_free) (free_run E btype start_blocknr num_free sbi))"

definition nova_free_contiguous_log_blocks ::
    "nova_env \<Rightarrow> nat \<Rightarrow> nat \<Rightarrow> sb_info \<Rightarrow> (sb_info \<times> int) option" where
  "nova_free_contiguous_log_blocks E btype head sbi =
     map_option (\<lambda>(sbi, start_blocknr, num_free, freed_n).
       if start_blocknr \<noteq> 0 then (free_run E btype start_blocknr num_free sbi, freed_n + num_free)
       else (sbi, freed_n))
     (free_log_loop E btype head 0 0 0 sbi)"

definition clear_log_pointers :: "nova_env \<Rightarrow> nat \<Rightarrow> inode_info_header \<Rightarrow> pm \<Rightarrow> pm" where
  "clear_log_pointers E pi sih P =
     (let P = set_field nova_inode I_log_tail pi 0 P;
          P = set_field nova_inode I_log_head pi 0 P;
          P = set_field nova_inode I_alter_log_tail pi 0 P;
          P = set_field nova_inode I_alter_log_head pi 0 P;
          P = nova_update_inode_checksum E pi P
      in if metadata_csum E \<and> alter_pi_addr sih \<noteq> 0
         then memcpy_to_pmem_nocache (alter_pi_addr sih) (get_bytes (mem P) pi sizeof_nova_inode) P
         else P)"

definition nova_free_inode_log :: "nova_env \<Rightarrow> nat \<Rightarrow> inode_info_header \<Rightarrow> sb_info \<Rightarrow> sb_info option" where
  "nova_free_inode_log E pi sih sbi =
     (if log_head sih = 0 \<or> log_tail sih = 0 then Some sbi
      else
        let sbi' = (if pi \<noteq> 0 then sbi\<lparr>pmem := clear_log_pointers E pi sih (pmem sbi)\<rparr> else sbi) in
        case nova_free_contiguous_log_blocks E (i_blk_type sih) (log_head sih) sbi' of
          None \<Rightarrow> None
        | Some (sbi'', _) \<Rightarrow>
            if metadata_csum E
            then map_option fst (nova_free_contiguous_log_blocks E (i_blk_type sih) (alter_log_head sih) sbi'')
            else Some sbi'')"

end
