(* ===== verification/Range_Log.thy ===== *)
theory Range_Log
  imports Log_Alloc Scan_Bitmap Inode_Map
begin

text \<open>
  A clean unmount writes the free lists and the trees of used inode numbers as entries of two
  reserved inodes' logs; the next mount reads them back and frees the log pages. A function that
  may stop with a kernel oops gives \<^verbatim>\<open>EOOPS\<close>; plain loads read the bytes of the device as they are.
\<close>

definition RANGENODE_PER_PAGE :: nat where "RANGENODE_PER_PAGE = 254"
definition NOVA_BLOCKNODE_INO :: nat where "NOVA_BLOCKNODE_INO = 3"
definition NOVA_INODELIST_INO :: nat where "NOVA_INODELIST_INO = 5"
definition NOVA_DEFAULT_BLOCK_TYPE :: nat where "NOVA_DEFAULT_BLOCK_TYPE = 0"
definition CPUID_MASK :: nat where "CPUID_MASK = 0xff00000000000000"

datatype lowhigh_field = R_low | R_high

definition nova_range_node_lowhigh :: "(lowhigh_field \<times> nat) list" where
  "nova_range_node_lowhigh = [(R_low, 8), (R_high, 8)]"

definition sizeof_lowhigh :: nat where
  "sizeof_lowhigh = packed_size nova_range_node_lowhigh"

subsection \<open>Saving\<close>

text \<open>
  The entry goes to \<open>tail\<close> or to the next page; the result is its address. With a bad checksum or
  no page left nothing is written, and the caller cannot tell.
\<close>

definition nova_append_range_node_entry ::
    "nova_env \<Rightarrow> range_node \<Rightarrow> nat \<Rightarrow> nat \<Rightarrow> pm \<Rightarrow> pm \<times> nat" where
  "nova_append_range_node_entry E cur tail cpuid P =
     (if \<not> nova_range_node_checksum_ok E cur then (P, tail)
      else if tail = 0 \<or> is_last_entry tail sizeof_lowhigh \<and> next_log_page E P tail = 0 then (P, tail)
      else
        let curr_p = (if is_last_entry tail sizeof_lowhigh then next_log_page E P tail else tail);
            P = set_field nova_range_node_lowhigh R_low curr_p (range_low cur) P;
            P = (if cpuid \<noteq> 0
                 then set_field nova_range_node_lowhigh R_low curr_p
                        (get_field nova_range_node_lowhigh R_low curr_p P OR (push_bit 56 cpuid mod 2 ^ 64)) P
                 else P);
            P = set_field nova_range_node_lowhigh R_high curr_p (range_high cur) P
        in (nova_flush_buffer (support_clwb E) curr_p sizeof_lowhigh False P, curr_p))"

fun save_nodes ::
    "nova_env \<Rightarrow> nat \<Rightarrow> ptr list \<Rightarrow> slab \<Rightarrow> ptr tree \<Rightarrow> nat \<Rightarrow> pm \<Rightarrow> slab \<times> ptr tree \<times> nat \<times> pm" where
  "save_nodes E cpuid [] s t temp_tail P = (s, t, temp_tail, P)"
| "save_nodes E cpuid (p # ps) s t temp_tail P =
     (let (P, curr_entry) = nova_append_range_node_entry E (node_of s p) temp_tail cpuid P
      in save_nodes E cpuid ps (nova_free_range_node s p) (rb_erase E p t) (u64_add curr_entry sizeof_lowhigh) P)"

definition nova_save_range_nodes_to_log ::
    "nova_env \<Rightarrow> slab \<Rightarrow> ptr tree \<Rightarrow> nat \<Rightarrow> nat \<Rightarrow> pm \<Rightarrow> slab \<times> ptr tree \<times> nat \<times> pm" where
  "nova_save_range_nodes_to_log E s tr temp_tail cpuid P = save_nodes E cpuid (inorder tr) s tr temp_tail P"

definition nova_save_free_list_blocknodes :: "nova_env \<Rightarrow> nat \<Rightarrow> sb_info \<Rightarrow> nat \<Rightarrow> sb_info \<times> nat res" where
  "nova_save_free_list_blocknodes E cpu sbi temp_tail =
     (case nova_get_free_list sbi (int cpu) of
        Inl e \<Rightarrow> (sbi, Inl e)
      | Inr fl \<Rightarrow>
          let (s, t, temp_tail, P) =
                nova_save_range_nodes_to_log E (nodes sbi) (block_free_tree fl) temp_tail 0 (pmem sbi)
          in ((set_free_list (int cpu) (fl\<lparr>block_free_tree := t\<rparr>) s sbi)\<lparr>pmem := P\<rparr>, Inr temp_tail))"

definition save_inode_map :: "nova_env \<Rightarrow> nat \<Rightarrow> sb_info \<Rightarrow> nat \<Rightarrow> sb_info \<times> nat res" where
  "save_inode_map E i sbi temp_tail =
     (case get_inode_map sbi i of
        Inl e \<Rightarrow> (sbi, Inl e)
      | Inr im \<Rightarrow>
          let (s, t, temp_tail, P) =
                nova_save_range_nodes_to_log E (nodes sbi) (inode_inuse_tree im) temp_tail i (pmem sbi)
          in ((set_inode_map i (im\<lparr>inode_inuse_tree := t\<rparr>) s sbi)\<lparr>pmem := P\<rparr>, Inr temp_tail))"

text \<open>The loop over the CPUs that both callers have.\<close>

fun save_all :: "(nat \<Rightarrow> sb_info \<Rightarrow> nat \<Rightarrow> sb_info \<times> nat res) \<Rightarrow> nat list \<Rightarrow> sb_info \<Rightarrow> nat \<Rightarrow> sb_info \<times> nat res" where
  "save_all save [] sbi temp_tail = (sbi, Inr temp_tail)"
| "save_all save (i # is) sbi temp_tail =
     (case save i sbi temp_tail of
        (sbi, Inl e) \<Rightarrow> (sbi, Inl e)
      | (sbi, Inr temp_tail) \<Rightarrow> save_all save is sbi temp_tail)"

definition pages_for :: "nat \<Rightarrow> nat" where
  "pages_for num_nodes =
     (if num_nodes mod RANGENODE_PER_PAGE \<noteq> 0 then u64_add (num_nodes div RANGENODE_PER_PAGE) 1
      else num_nodes div RANGENODE_PER_PAGE)"

definition finish_save :: "nova_env \<Rightarrow> nat \<Rightarrow> nat \<Rightarrow> nat \<Rightarrow> pm \<Rightarrow> pm" where
  "finish_save E pi new_block temp_tail P =
     (let P = set_field nova_inode I_alter_log_tail pi 0 P;
          P = set_field nova_inode I_alter_log_head pi 0 P;
          P = set_field nova_inode I_log_head pi new_block P;
          P = nova_update_tail E pi temp_tail P
      in nova_flush_buffer (support_clwb E) (pi + packed_off nova_inode I_log_head) CACHELINE_SIZE False P)"

text \<open>
  What the two functions share: the pages are allocated, every CPU's nodes are written, and the
  inode gets the new log. When not all pages could be allocated the function returns, and those
  it got stay allocated.
\<close>

definition save_to_log ::
    "nova_env \<Rightarrow> nat \<Rightarrow> nat \<Rightarrow> nat \<Rightarrow> (nat \<Rightarrow> sb_info \<Rightarrow> nat \<Rightarrow> sb_info \<times> nat res) \<Rightarrow> sb_info
     \<Rightarrow> (sb_info \<times> unit res) option" where
  "save_to_log E smp pi num_pages save sbi =
     map_option (\<lambda>(sbi, allocated, new_block).
       case allocated of
         Inl EOOPS \<Rightarrow> (sbi, Inl EOOPS)
       | Inl e \<Rightarrow> (sbi, Inr ())
       | Inr n \<Rightarrow>
           if u64_of_int n \<noteq> num_pages then (sbi, Inr ())
           else
             (case save_all save [0..<cpus sbi] sbi new_block of
                (sbi, Inl e) \<Rightarrow> (sbi, Inl e)
              | (sbi, Inr temp_tail) \<Rightarrow> (sbi\<lparr>pmem := finish_save E pi new_block temp_tail (pmem sbi)\<rparr>, Inr ())))
     (nova_allocate_inode_log_pages E smp sbi NOVA_DEFAULT_BLOCK_TYPE num_pages 0 ANY_CPU ALLOC_FROM_HEAD)"

definition nova_save_blocknode_mappings_to_log ::
    "nova_env \<Rightarrow> nat \<Rightarrow> sb_info \<Rightarrow> (sb_info \<times> unit res) option" where
  "nova_save_blocknode_mappings_to_log E smp sbi =
     (let num_blocknode = foldl (\<lambda>n fl. u64_add n (num_blocknode fl)) 0 (free_lists sbi)
      in save_to_log E smp (nova_get_reserved_inode_addr NOVA_BLOCKNODE_INO) (pages_for num_blocknode)
           (nova_save_free_list_blocknodes E) sbi)"

definition nova_save_inode_list_to_log ::
    "nova_env \<Rightarrow> nat \<Rightarrow> sb_info \<Rightarrow> (sb_info \<times> unit res) option" where
  "nova_save_inode_list_to_log E smp sbi =
     (let num_nodes = foldl (\<lambda>n im. u64_add n (num_range_node_inode im)) 0 (inode_maps sbi)
      in save_to_log E smp (nova_get_reserved_inode_addr NOVA_INODELIST_INO) (pages_for num_nodes)
           (save_inode_map E) sbi)"

subsection \<open>Restoring the block map\<close>

fun destroy_block_trees :: "nova_env \<Rightarrow> slab \<Rightarrow> free_list list \<Rightarrow> slab \<times> free_list list" where
  "destroy_block_trees E s [] = (s, [])"
| "destroy_block_trees E s (fl # fls) =
     (let (s, t) = nova_destroy_range_node_tree E s (block_free_tree fl);
          (s, fls) = destroy_block_trees E s fls
      in (s, fl\<lparr>block_free_tree := t\<rparr> # fls))"

definition nova_destroy_blocknode_trees :: "nova_env \<Rightarrow> sb_info \<Rightarrow> sb_info" where
  "nova_destroy_blocknode_trees E sbi =
     (let (s, fls) = destroy_block_trees E (nodes sbi) (free_lists sbi) in sbi\<lparr>nodes := s, free_lists := fls\<rparr>)"

definition load_blocknode :: "nova_env \<Rightarrow> sb_info \<Rightarrow> nat \<Rightarrow> sb_info \<times> unit res" where
  "load_blocknode E sbi curr_p =
     (case nova_alloc_blocknode E (nodes sbi) of
        (s, None) \<Rightarrow> (sbi\<lparr>nodes := s\<rparr>, Inl EOOPS)
      | (s, Some blknode) \<Rightarrow>
          let low = get_field nova_range_node_lowhigh R_low curr_p (pmem sbi);
              high = get_field nova_range_node_lowhigh R_high curr_p (pmem sbi);
              s = nova_update_range_node_checksum E blknode (set_high blknode high (set_low blknode low s));
              cpuid = get_block_cpuid sbi low
          in case nova_get_free_list sbi cpuid of
               Inl e \<Rightarrow> (sbi\<lparr>nodes := s\<rparr>, Inl e)
             | Inr fl \<Rightarrow>
                 (case nova_insert_blocktree E s (block_free_tree fl) blknode of
                    Inl e \<Rightarrow> (nova_destroy_blocknode_trees E (sbi\<lparr>nodes := nova_free_blocknode s blknode\<rparr>), Inl e)
                  | Inr t \<Rightarrow>
                      let n = u64_add (num_blocknode fl) 1
                      in (set_free_list cpuid
                            (fl\<lparr>block_free_tree := t,
                                first_node := (if n = 1 then Some blknode else first_node fl),
                                last_node := Some blknode, num_blocknode := n,
                                num_free_blocks := u64_add (num_free_blocks fl) (u64_add (u64_sub high low) 1)\<rparr>)
                            s sbi, Inr ())))"

partial_function (option) load_blocknodes ::
    "nova_env \<Rightarrow> nat \<Rightarrow> nat \<Rightarrow> sb_info \<Rightarrow> (sb_info \<times> unit res) option" where
  "load_blocknodes E tail curr_p sbi =
     (if curr_p = tail then Some (sbi, Inr ())
      else
        let curr_p = (if is_last_entry curr_p sizeof_lowhigh then next_log_page E (pmem sbi) curr_p else curr_p) in
        if curr_p = 0 then Some (sbi, Inl EINVAL)
        else case load_blocknode E sbi curr_p of
               (sbi, Inl e) \<Rightarrow> Some (sbi, Inl e)
             | (sbi, Inr _) \<Rightarrow> load_blocknodes E tail (u64_add curr_p sizeof_lowhigh) sbi)"

definition zero_sih :: inode_info_header where
  "zero_sih = \<lparr>radix = (\<lambda>_. None), rb_tree = Leaf, i_mode = 0, i_flags = 0, log_pages = 0, i_size = 0,
     i_blocks = 0, ino = 0, pi_addr = 0, alter_pi_addr = 0, valid_entries = 0, num_entries = 0,
     last_setattr = 0, last_link_change = 0, last_dentry = 0, trans_id = 0, log_head = 0, log_tail = 0,
     alter_log_head = 0, alter_log_tail = 0, i_blk_type = 0\<rparr>"

definition nova_init_blockmap_from_inode :: "nova_env \<Rightarrow> sb_info \<Rightarrow> (sb_info \<times> unit res) option" where
  "nova_init_blockmap_from_inode E sbi =
     (let pi = nova_get_reserved_inode_addr NOVA_BLOCKNODE_INO in
      case nova_get_head_tail E (pmem sbi) pi zero_sih of
        None \<Rightarrow> map_option (\<lambda>sbi. (sbi, Inl EFAULT)) (nova_free_inode_log E pi zero_sih sbi)
      | Some sih \<Rightarrow>
          let sih = sih\<lparr>ino := NOVA_BLOCKNODE_INO\<rparr> in
          if log_head sih = 0 then Some (sbi, Inl EINVAL)
          else
            (case load_blocknodes E (log_tail sih) (log_head sih) sbi of
               None \<Rightarrow> None
             | Some (sbi, ret) \<Rightarrow>
                 if ret = Inl EOOPS then Some (sbi, ret)
                 else map_option (\<lambda>sbi. (sbi, ret)) (nova_free_inode_log E pi sih sbi)))"

subsection \<open>Restoring the inode numbers\<close>

fun destroy_maps :: "nova_env \<Rightarrow> slab \<Rightarrow> inode_map list \<Rightarrow> slab \<times> inode_map list" where
  "destroy_maps E s [] = (s, [])"
| "destroy_maps E s (im # ims) =
     (let (s, t) = nova_destroy_range_node_tree E s (inode_inuse_tree im);
          (s, ims) = destroy_maps E s ims
      in (s, im\<lparr>inode_inuse_tree := t\<rparr> # ims))"

definition nova_destroy_inode_trees :: "nova_env \<Rightarrow> sb_info \<Rightarrow> sb_info" where
  "nova_destroy_inode_trees E sbi =
     (let (s, ims) = destroy_maps E (nodes sbi) (inode_maps sbi) in sbi\<lparr>nodes := s, inode_maps := ims\<rparr>)"

text \<open>
  One entry: None when the loop goes on, otherwise the value the function returns. An invalid CPU
  ends the loop while \<^verbatim>\<open>ret\<close> is still zero.
\<close>

definition load_inode_node :: "nova_env \<Rightarrow> sb_info \<Rightarrow> nat \<Rightarrow> sb_info \<times> unit res option" where
  "load_inode_node E sbi curr_p =
     (case nova_alloc_inode_node E (nodes sbi) of
        (s, None) \<Rightarrow> (sbi\<lparr>nodes := s\<rparr>, Some (Inl EOOPS))
      | (s, Some p) \<Rightarrow>
          if curr_p = 0 then (sbi\<lparr>nodes := s\<rparr>, Some (Inl EOOPS))
          else
            let entry_low = get_field nova_range_node_lowhigh R_low curr_p (pmem sbi);
                cpuid = drop_bit 56 (entry_low AND CPUID_MASK) in
            if cpus sbi \<le> cpuid
            then (nova_destroy_inode_trees E (sbi\<lparr>nodes := nova_free_inode_node s p\<rparr>), Some (Inr ()))
            else
              let low = entry_low - (entry_low AND CPUID_MASK);
                  high = get_field nova_range_node_lowhigh R_high curr_p (pmem sbi);
                  s = nova_update_range_node_checksum E p (set_high p high (set_low p low s))
              in case get_inode_map sbi cpuid of
                   Inl e \<Rightarrow> (sbi\<lparr>nodes := s\<rparr>, Some (Inl e))
                 | Inr im \<Rightarrow>
                     (case nova_insert_inodetree E s im p of
                        Inl e \<Rightarrow> (nova_destroy_inode_trees E (sbi\<lparr>nodes := nova_free_inode_node s p\<rparr>), Some (Inl e))
                      | Inr t \<Rightarrow>
                          ((set_inode_map cpuid
                              (im\<lparr>inode_inuse_tree := t,
                                  num_range_node_inode := u64_add (num_range_node_inode im) 1,
                                  first_inode_range := (if first_inode_range im = None then Some p
                                                        else first_inode_range im)\<rparr>) s sbi)
                             \<lparr>s_inodes_used_count :=
                                u64_add (s_inodes_used_count sbi) (u64_add (u64_sub high low) 1)\<rparr>,
                           None)))"

partial_function (option) load_inode_nodes ::
    "nova_env \<Rightarrow> nat \<Rightarrow> nat \<Rightarrow> sb_info \<Rightarrow> (sb_info \<times> unit res) option" where
  "load_inode_nodes E tail curr_p sbi =
     (if curr_p = tail then Some (sbi, Inr ())
      else
        let curr_p = (if is_last_entry curr_p sizeof_lowhigh then next_log_page E (pmem sbi) curr_p else curr_p) in
        case load_inode_node E sbi curr_p of
          (sbi, Some ret) \<Rightarrow> Some (sbi, ret)
        | (sbi, None) \<Rightarrow> load_inode_nodes E tail (u64_add curr_p sizeof_lowhigh) sbi)"

text \<open>
  The header on the stack is not cleared here, so its contents are an argument, \<open>sih\<close>: the replica
  address that \<open>nova_free_inode_log\<close> writes to comes from it.
\<close>

definition nova_init_inode_list_from_inode ::
    "nova_env \<Rightarrow> inode_info_header \<Rightarrow> sb_info \<Rightarrow> (sb_info \<times> unit res) option" where
  "nova_init_inode_list_from_inode E sih sbi =
     (let pi = nova_get_reserved_inode_addr NOVA_INODELIST_INO in
      case nova_get_head_tail E (pmem sbi) pi sih of
        None \<Rightarrow> map_option (\<lambda>sbi. (sbi, Inl EFAULT)) (nova_free_inode_log E pi sih sbi)
      | Some sih \<Rightarrow>
          let sih = sih\<lparr>ino := NOVA_INODELIST_INO\<rparr>; sbi = sbi\<lparr>s_inodes_used_count := 0\<rparr> in
          if log_head sih = 0 then Some (sbi, Inl EINVAL)
          else
            (case load_inode_nodes E (log_tail sih) (log_head sih) sbi of
               None \<Rightarrow> None
             | Some (sbi, ret) \<Rightarrow>
                 if ret = Inl EOOPS then Some (sbi, ret)
                 else map_option (\<lambda>sbi. (sbi, ret)) (nova_free_inode_log E pi sih sbi)))"

end
