(* ===== verification/Log_Alloc_Inv.thy ===== *)
theory Log_Alloc_Inv
  imports Log_Alloc Scan_Bitmap_Props
begin

text \<open>
  Chains of log pages: \<open>page_seg P a bs c\<close> says that following the links from the address \<open>a\<close> visits
  the pages of the blocks \<open>bs\<close> and then reaches \<open>c\<close>. The lemmas are about media without errors.
\<close>

definition good_media :: "nova_env \<Rightarrow> bool" where
  "good_media E \<longleftrightarrow> (\<forall>tr a. media_ok E tr a)"

definition page_link :: "pm \<Rightarrow> nat \<Rightarrow> nat" where
  "page_link P b = read_le 8 P (4096 * b + 4088)"

fun page_seg :: "pm \<Rightarrow> nat \<Rightarrow> nat list \<Rightarrow> nat \<Rightarrow> bool" where
  "page_seg P a [] c \<longleftrightarrow> a = c"
| "page_seg P a (b # bs) c \<longleftrightarrow> a = 4096 * b \<and> b \<noteq> 0 \<and> page_seg P (page_link P b) bs c"

definition page_tails :: "nat set \<Rightarrow> nat set" where
  "page_tails B = (\<Union>b \<in> B. {4096 * b + 4064..<4096 * b + 4096})"

definition only_tails :: "nat set \<Rightarrow> pm \<Rightarrow> pm \<Rightarrow> bool" where
  "only_tails B P P' \<longleftrightarrow> (\<forall>a. a \<notin> page_tails B \<longrightarrow> mem P' a = mem P a)"

lemma page_seg_append: "page_seg P a (xs @ ys) c \<longleftrightarrow> (\<exists>d. page_seg P a xs d \<and> page_seg P d ys c)"
  by (induction xs arbitrary: a) auto

lemma page_seg_cong:
  "(\<And>b. b \<in> set bs \<Longrightarrow> page_link P' b = page_link P b) \<Longrightarrow> page_seg P' a bs c = page_seg P a bs c"
  by (induction bs arbitrary: a) auto

lemma only_tails_trans: "only_tails A P Q \<Longrightarrow> only_tails B Q R \<Longrightarrow> only_tails (A \<union> B) P R"
  by (simp add: only_tails_def page_tails_def)

lemma only_tails_mono: "only_tails A P Q \<Longrightarrow> A \<subseteq> B \<Longrightarrow> only_tails B P Q"
  unfolding only_tails_def page_tails_def by blast

lemma only_tails_refl [simp]: "only_tails B P P"
  by (simp add: only_tails_def)

lemma tails_apart:
  assumes "b \<notin> B" "4096 * b \<le> a" "a < 4096 * b + 4096"
  shows "a \<notin> page_tails B"
proof
  assume "a \<in> page_tails B"
  then obtain c where c: "c \<in> B" "4096 * c + 4064 \<le> a" "a < 4096 * c + 4096" by (auto simp: page_tails_def)
  then have "a div 4096 = c" by (intro div_nat_eqI) simp_all
  moreover have "a div 4096 = b" using assms(2,3) by (intro div_nat_eqI) simp_all
  ultimately show False using assms(1) c(1) by simp
qed

lemma page_link_other:
  assumes "only_tails B P P'" "b \<notin> B"
  shows "page_link P' b = page_link P b"
proof -
  have "mem P' x = mem P x" if "x \<in> {4096 * b + 4088..<4096 * b + 4096}" for x
    using assms tails_apart [OF assms(2)] that by (simp add: only_tails_def)
  then have "get_bytes (mem P') (4096 * b + 4088) 8 = get_bytes (mem P) (4096 * b + 4088) 8"
    by (intro nth_equalityI) (simp_all add: get_bytes_def)
  then show ?thesis by (simp add: page_link_def read_le_def)
qed

lemma next_log_page_link:
  assumes "good_media E"
  shows "next_log_page E P (4096 * b) = page_link P b"
  using assms
  by (simp add: next_log_page_def memcpy_mcsafe_def good_media_def list_all_iff page_link_def read_le_def page_tail_eq
      nova_inode_page_tail_def add.commute)

lemma block_off_eq: "b < 2 ^ 52 \<Longrightarrow> nova_get_block_off b = 4096 * b"
  by (simp add: nova_get_block_off_def PAGE_SHIFT_def push_bit_eq_mult)

subsection \<open>Linking\<close>

lemma mem_reset_page_counts:
  "mem (reset_page_counts E a P) =
     put (a + 4064) (le_bytes 4 0) (put (a + 4068) (le_bytes 4 0) (mem P))"
  by (simp add: reset_page_counts_def nova_set_page_invalid_entries_def nova_set_page_num_entries_def Let_def
      set_field_def write_le_def store_def nova_inode_page_tail_def LOG_BLOCK_TAIL_def add.commute)

lemma mem_set_next_page: "mem (nova_set_next_page_address E a v f P) = put (a + 4088) (le_bytes 8 v) (mem P)"
  by (simp add: nova_set_next_page_address_def Let_def set_field_def write_le_def store_def PERSISTENT_BARRIER_def
      nova_inode_page_tail_def LOG_BLOCK_TAIL_def add.commute)

lemma put_tail:
  assumes "4064 \<le> o1" "o1 + length bs \<le> 4096"
  shows "a \<notin> page_tails {b} \<Longrightarrow> put (4096 * b + o1) bs m a = m a"
  using assms by (auto simp: put_def page_tails_def)

lemma set_next_page_tails:
  "only_tails {b} P (nova_set_next_page_address E (4096 * b) v f P)"
  "v < 2 ^ 64 \<Longrightarrow> page_link (nova_set_next_page_address E (4096 * b) v f P) b = v"
  by (simp_all add: only_tails_def mem_set_next_page put_tail page_link_def read_le_def le_nat_le_bytes)

lemma reset_page_tails: "only_tails {b} P (reset_page_counts E (4096 * b) P)"
  by (simp add: only_tails_def mem_reset_page_counts put_tail)

text \<open>One page of the loop.\<close>

definition link_page :: "nova_env \<Rightarrow> nat \<Rightarrow> nat \<Rightarrow> bool \<Rightarrow> pm \<Rightarrow> pm" where
  "link_page E b v f P = nova_set_next_page_address E (4096 * b) v f (reset_page_counts E (4096 * b) P)"

lemma link_page_ok:
  "only_tails {b} P (link_page E b v f P)" "v < 2 ^ 64 \<Longrightarrow> page_link (link_page E b v f P) b = v"
  using only_tails_trans [OF reset_page_tails [of b P E] set_next_page_tails(1) [of b _ E v f]]
    set_next_page_tails(2) [of v E b f]
  by (simp_all add: link_page_def)

lemma coalesce_loop_ok:
  assumes "0 < b" "b + n < 2 ^ 51"
  shows "page_seg (coalesce_loop E n (4096 * b) (b + 1) P) (4096 * b) [b..<b + n + 1] 0 \<and>
         only_tails {b..<b + n + 1} P (coalesce_loop E n (4096 * b) (b + 1) P)"
  using assms
proof (induction n arbitrary: b P)
  case 0
  have "coalesce_loop E 0 (4096 * b) (b + 1) P = link_page E b 0 True P" by (simp add: link_page_def)
  then show ?case using 0 link_page_ok(1) [of b P E 0 True] link_page_ok(2) [of 0 E b True P] by simp
next
  case (Suc n)
  let ?P = "link_page E b (4096 * (b + 1)) False P"
  let ?Q = "coalesce_loop E n (4096 * (b + 1)) (b + 1 + 1) ?P"
  have run: "coalesce_loop E (Suc n) (4096 * b) (b + 1) P = ?Q"
    using Suc.prems by (simp add: link_page_def block_off_eq PAGE_SIZE_def add.commute)
  have IH: "page_seg ?Q (4096 * (b + 1)) [b + 1..<b + 1 + n + 1] 0" "only_tails {b + 1..<b + 1 + n + 1} ?P ?Q"
    using Suc.IH [of "b + 1" ?P] Suc.prems by auto
  have "page_link ?Q b = page_link ?P b" using IH(2) by (rule page_link_other) simp
  then have "page_link ?Q b = 4096 * (b + 1)" using link_page_ok(2) Suc.prems by simp
  moreover have "[b..<b + Suc n + 1] = b # [b + 1..<b + 1 + n + 1]" by (simp add: upt_conv_Cons)
  moreover have "only_tails {b..<b + Suc n + 1} P ?Q"
    using only_tails_trans [OF link_page_ok(1) IH(2)] by (rule only_tails_mono) auto
  ultimately show ?case using IH(1) Suc.prems unfolding run by simp
qed

lemma coalesce_ok:
  fixes E P
  assumes b: "0 < b" "b + m < 2 ^ 51" "0 < m" and p: "p \<notin> {b..<b + m}" "p < 2 ^ 51"
  defines "Q \<equiv> nova_coalesce_log_pages E p b m P"
  shows "page_seg Q (4096 * b) [b..<b + m] 0 \<and>
         only_tails ((if p = 0 then {} else {p}) \<union> {b..<b + m}) P Q \<and> (p \<noteq> 0 \<longrightarrow> page_link Q p = 4096 * b)"
proof -
  let ?P = "if p = 0 then P else nova_set_next_page_address E (4096 * p) (4096 * b) False P"
  have Q: "Q = coalesce_loop E (m - 1) (4096 * b) (b + 1) ?P"
    using b p by (simp add: Q_def nova_coalesce_log_pages_def Let_def block_off_eq)
  have c: "page_seg Q (4096 * b) [b..<b + m] 0" "only_tails {b..<b + m} ?P Q"
    using coalesce_loop_ok [of b "m - 1" E ?P] b unfolding Q by auto
  have "only_tails (if p = 0 then {} else {p}) P ?P" using set_next_page_tails(1) by simp
  from only_tails_trans [OF this c(2)] c show ?thesis
    using page_link_other [OF c(2) p(1)] set_next_page_tails(2) [of "4096 * b" E p False P] b by auto
qed

subsection \<open>Allocating pages\<close>

text \<open>
  An allocation of log pages never adds a node: it uses up the node it takes the pages from or
  shrinks it. Splitting a node is left to allocations of data in units of 2 MB.
\<close>

definition node_total :: "sb_info \<Rightarrow> nat" where
  "node_total sbi = sum_list (map num_blocknode (free_lists sbi))"

lemma sum_list_update_le:
  "i < length xs \<Longrightarrow> f y \<le> f (xs ! i) \<Longrightarrow> sum_list (map f (xs[i := y])) \<le> sum_list (map f xs :: nat list)"
  by (induction xs arbitrary: i) (auto split: nat.split)

lemma alloc_fallback_nodes:
  assumes "alloc_fallback E s fl ps t n b0 dir = (s', fl', b, r)" "0 < num_blocknode fl" "num_blocknode fl < 2 ^ 64"
  shows "num_blocknode fl' \<le> num_blocknode fl"
proof (cases "alloc_loop E s fl ps t n dir")
  case None
  then show ?thesis using assms(1) by (simp add: alloc_fallback_def)
next
  case (Some x)
  obtain p where p: "alloc_node E s fl p t n dir = Some x" using alloc_loop_Some [OF Some] by blast
  obtain s1 fl1 b1 n1 where x: "x = (s1, fl1, b1, n1)" by (cases x)
  have "fl1 = fl \<or> fl1 = drop_node E fl p" using p x by (auto simp: alloc_node_def Let_def split: if_splits)
  moreover have "num_blocknode (drop_node E fl p) \<le> num_blocknode fl"
    using assms(2,3) by (simp add: drop_node_def Let_def)
  ultimately show ?thesis using assms(1) Some x by (auto simp: alloc_fallback_def split: if_splits)
qed

lemma new_log_blocks_nodes:
  assumes inv: "lists_inv E sbi" and r: "nova_new_log_blocks E smp sbi 0 num False ANY_CPU dir = (sbi', r)"
  shows "node_total sbi' \<le> node_total sbi"
proof (cases "u64_mul num 1 = 0")
  case True
  then show ?thesis using r by (simp add: nova_new_log_blocks_def nova_new_blocks_def nova_get_numblocks_def)
next
  case False
  have c: "nova_get_cpuid smp sbi < cpus sbi" using inv by (auto simp: nova_get_cpuid_def lists_inv_def)
  obtain i where i: "i < cpus sbi" and
    pick: "pick_free_list sbi (u64_mul num 1) LOG 2 (int (nova_get_cpuid smp sbi)) = Inr (int i, free_lists sbi ! i)"
    using pick_free_list_ok [OF inv c] by blast
  let ?fl = "free_lists sbi ! i"
  have fi: "free_list_inv E (nodes sbi) ?fl" and len: "i < length (free_lists sbi)" using inv i by (auto simp: lists_inv_def)
  obtain s' fl' b x where al: "nova_alloc_blocks_in_free_list E (nodes sbi) ?fl 0 LOG (u64_mul num 1) 0 dir = (s', fl', b, x)"
    by (metis prod_cases4)
  have "num_blocknode fl' \<le> num_blocknode ?fl"
  proof (cases "first_node ?fl")
    case None
    then show ?thesis using al by (simp add: nova_alloc_blocks_in_free_list_def)
  next
    case (Some p)
    then have "0 < num_blocknode ?fl" "num_blocknode ?fl < 2 ^ 64"
      using fi free_list_counts(3) [OF fi] by (auto simp: free_list_inv_def hd_option_def split: list.splits)
    then show ?thesis
      using al alloc_fallback_nodes [of E "nodes sbi" ?fl] by (auto simp: nova_alloc_blocks_in_free_list_def Let_def split: if_splits)
  qed
  moreover have "\<exists>m. free_lists sbi' = (free_lists sbi)[i := fl'] \<or> free_lists sbi' = (free_lists sbi)[i := alloc_stats LOG m fl']"
    using r al pick False
    by (cases x) (auto simp: nova_new_log_blocks_def nova_new_blocks_def nova_get_numblocks_def Let_def
        split: errno.splits if_splits)
  moreover have "num_blocknode (alloc_stats LOG m fl') = num_blocknode fl'" for m by (simp add: alloc_stats_def)
  ultimately show ?thesis
    using sum_list_update_le [OF len, of num_blocknode] by (auto simp: node_total_def)
qed

definition pages_taken :: "nova_env \<Rightarrow> sb_info \<Rightarrow> nat list \<Rightarrow> sb_info \<Rightarrow> bool" where
  "pages_taken E sbi bs sbi' \<longleftrightarrow>
     store_inv (E, sbi') \<and> distinct bs \<and> set bs \<subseteq> all_free sbi \<and> all_free sbi' = all_free sbi - set bs \<and>
     (\<forall>b \<in> set bs. home sbi b 1) \<and> (\<forall>b m. home sbi' b m = home sbi b m) \<and>
     node_total sbi' \<le> node_total sbi"

lemma free_block_bounds:
  assumes "lists_inv E sbi" "b \<in> all_free sbi"
  shows "0 < b" "b < 2 ^ 32"
proof -
  obtain i where i: "i < cpus sbi" "b \<in> free_set (nodes sbi) (free_lists sbi ! i)"
    using assms by (auto simp: all_free_def lists_inv_def)
  then have "free_list_inv E (nodes sbi) (free_lists sbi ! i)" "0 < block_start (free_lists sbi ! i)"
    using assms(1) by (auto simp: lists_inv_def list_bounds_def)
  then show "0 < b" "b < 2 ^ 32" using i(2) by (auto simp: free_list_inv_def)
qed

lemma node_total_pmem [simp]: "node_total (sbi\<lparr>pmem := P\<rparr>) = node_total sbi"
  by (simp add: node_total_def)

lemma store_inv_pmem [simp]: "store_inv (E, sbi\<lparr>pmem := P\<rparr>) = store_inv (E, sbi)"
  "all_free (sbi\<lparr>pmem := P\<rparr>) = all_free sbi" "home (sbi\<lparr>pmem := P\<rparr>) b m = home sbi b m"
  by (simp_all add: store_inv_def lists_inv_def list_bounds_def all_free_def home_def)

text \<open>One call of the allocator for log pages.\<close>

lemma new_log_blocks_ok:
  assumes inv: "store_inv (E, sbi)" and num: "0 < num" "num < 2 ^ 31"
    and r: "nova_new_log_blocks E smp sbi 0 num False ANY_CPU dir = (sbi', r)"
  shows "(r = Inl ENOSPC \<and> sbi' = sbi) \<or>
    (\<exists>b m. r = Inr (b, int m) \<and> 0 < m \<and> m \<le> num \<and> pages_taken E sbi [b..<b + m] sbi' \<and>
           pmem sbi' = pmem sbi \<and> 0 < b \<and> b + m \<le> 2 ^ 32)"
proof -
  have i: "rb_lib_ok E" "kmem_ok E" "lists_inv E sbi" "kmem_zalloc E (requests (nodes sbi)) (live (nodes sbi)) \<noteq> None"
    using inv by (auto simp: store_inv_def kmem_total_def)
  have p: "new_blocks_post E sbi num 0 False (sbi', r)"
    using new_blocks_ok [OF i num disjI1 [OF refl], of 0 False smp LOG dir] r
    by (simp add: nova_new_log_blocks_def)
  show ?thesis
  proof (cases r)
    case (Inl e)
    then show ?thesis using p by (simp add: new_blocks_post_def)
  next
    case (Inr x)
    then obtain b m where m: "r = Inr (b, int m)" "0 < m" "m \<le> num" "{b..<b + m} \<subseteq> all_free sbi"
      "all_free sbi' = all_free sbi - {b..<b + m}" "home sbi b m" "\<forall>b' m'. home sbi' b' m' = home sbi b' m'"
      "lists_inv E sbi'" "finite (live (nodes sbi'))" "pmem sbi' = pmem sbi"
      using p inv by (cases x) (auto simp: new_blocks_post_def nova_get_numblocks_def store_inv_def)
    have "home sbi c 1" if "c \<in> {b..<b + m}" for c using m(6) that by (auto simp: home_def)
    moreover have "b \<in> all_free sbi" "b + m - 1 \<in> all_free sbi" using m(2,4) by auto
    then have "0 < b" "b + m - 1 < 2 ^ 32" using free_block_bounds [OF i(3)] by blast+
    then have "0 < b" "b + m \<le> 2 ^ 32" by linarith+
    moreover have "store_inv (E, sbi')" using inv m(8,9) by (simp add: store_inv_def)
    ultimately have "pages_taken E sbi [b..<b + m] sbi'" using m(4,5,7) new_log_blocks_nodes [OF i(3) r] by (simp add: pages_taken_def)
    then show ?thesis using m(1-3,10) \<open>0 < b\<close> \<open>b + m \<le> 2 ^ 32\<close> by blast
  qed
qed

lemma pages_taken_append:
  assumes "pages_taken E sbi xs sbi1" "pages_taken E sbi1 ys sbi2"
  shows "pages_taken E sbi (xs @ ys) sbi2"
  using assms by (auto simp: pages_taken_def)

lemma more_log_pages_ok:
  assumes "store_inv (E, sbi)" "num < 2 ^ 31"
    and "page_seg (pmem sbi) a (xs @ [p]) 0" "set (xs @ [p]) \<inter> all_free sbi = {}" "distinct (xs @ [p])" "p < 2 ^ 32"
  shows "\<exists>sbi' ys. more_log_pages E smp 0 ANY_CPU dir num p ret sbi = Some (sbi', Inr (ret + int (length ys))) \<and>
    pages_taken E sbi ys sbi' \<and> length ys \<le> num \<and> page_seg (pmem sbi') a (xs @ [p] @ ys) 0 \<and>
    only_tails (insert p (set ys)) (pmem sbi) (pmem sbi')"
  using assms
proof (induction num arbitrary: sbi xs p ret rule: less_induct)
  case (less num)
  have refl: "pages_taken E sbi [] sbi" using less.prems(1) by (simp add: pages_taken_def)
  show ?case
  proof (cases "num = 0")
    case True
    then show ?thesis using less.prems refl by (intro exI [of _ sbi] exI [of _ "[]"]) (simp add: more_log_pages.simps)
  next
    case False
    obtain sbi1 r where r: "nova_new_log_blocks E smp sbi 0 num False ANY_CPU dir = (sbi1, r)" by fastforce
    from new_log_blocks_ok [OF less.prems(1) _ less.prems(2) r] False
    consider "r = Inl ENOSPC" "sbi1 = sbi" | b m where "r = Inr (b, int m)" "0 < m" "m \<le> num"
      "pages_taken E sbi [b..<b + m] sbi1" "pmem sbi1 = pmem sbi" "0 < b" "b + m \<le> 2 ^ 32" by auto
    then show ?thesis
    proof cases
      case 1
      then show ?thesis
        using less.prems refl r False
        by (intro exI [of _ sbi] exI [of _ "[]"]) (simp add: more_log_pages.simps)
    next
      case (2 b m)
      let ?P = "nova_coalesce_log_pages E p b m (pmem sbi)" and ?B = "[b..<b + m]"
      let ?sbi = "sbi1\<lparr>pmem := ?P\<rparr>" and ?q = "b + m - 1" and ?ys = "[b..<b + m - 1]"
      have split: "?B = ?ys @ [?q]" using 2(2) by (cases m) simp_all
      have free: "set ?B \<subseteq> all_free sbi" using 2(4) by (simp add: pages_taken_def)
      then have p: "p \<notin> {b..<b + m}" "p \<noteq> 0" using less.prems(3,4) by (auto simp: page_seg_append)
      have c: "page_seg ?P (4096 * b) ?B 0" "only_tails (insert p (set ?B)) (pmem sbi) ?P" "page_link ?P p = 4096 * b"
        using coalesce_ok [OF 2(6) _ 2(2) p(1), of E "pmem sbi"] less.prems(6) 2(7) p(2) by auto
      have xs: "p \<notin> set xs" "set xs \<inter> set ?B = {}" using less.prems(4,5) free by auto
      have "page_seg ?P a xs (4096 * p)"
      proof -
        have "page_seg (pmem sbi) a xs (4096 * p)" using less.prems(3) by (auto simp: page_seg_append)
        moreover have "page_link ?P x = page_link (pmem sbi) x" if "x \<in> set xs" for x
        proof (rule page_link_other [OF c(2)])
          show "x \<notin> insert p (set ?B)" using xs that by blast
        qed
        ultimately show ?thesis using page_seg_cong [of xs ?P "pmem sbi"] by blast
      qed
      then have seg: "page_seg ?P a ((xs @ [p] @ ?ys) @ [?q]) 0"
        using c(1,3) p(2) unfolding append_assoc split [symmetric] by (auto simp: page_seg_append)
      have tk: "pages_taken E sbi ?B ?sbi" using 2(4) by (simp add: pages_taken_def)
      have "set ((xs @ [p] @ ?ys) @ [?q]) = set xs \<union> {p} \<union> set ?B" unfolding split by auto
      then have dis: "set ((xs @ [p] @ ?ys) @ [?q]) \<inter> all_free ?sbi = {}"
        using less.prems(4) tk unfolding pages_taken_def by auto
      have dist: "distinct ((xs @ [p] @ ?ys) @ [?q])"
        using less.prems(5) xs p(1) unfolding append_assoc split [symmetric] by auto
      have inv: "store_inv (E, ?sbi)" using tk by (simp add: pages_taken_def)
      have "num - m < num" "num - m < 2 ^ 31" "?q < 2 ^ 32" using 2(2,3,7) less.prems(2) by linarith+
      from less.IH [OF this(1) inv this(2) _ dis dist this(3), of "ret + int m"] seg obtain sbi' ys where ys:
        "more_log_pages E smp 0 ANY_CPU dir (num - m) ?q (ret + int m) ?sbi = Some (sbi', Inr (ret + int m + int (length ys)))"
        "pages_taken E ?sbi ys sbi'" "length ys \<le> num - m" "page_seg (pmem sbi') a ((xs @ [p] @ ?ys) @ [?q] @ ys) 0"
        "only_tails (insert ?q (set ys)) ?P (pmem sbi')"
        by auto
      have "more_log_pages E smp 0 ANY_CPU dir num p ret sbi = Some (sbi', Inr (ret + int (length (?B @ ys))))"
        using ys(1) r 2 False less.prems(2) by (subst more_log_pages.simps) (simp add: add.assoc)
      moreover have "only_tails (insert p (set (?B @ ys))) (pmem sbi) (pmem sbi')"
        using only_tails_trans [OF c(2) ys(5)] by (rule only_tails_mono) (use 2(2) in auto)
      moreover have "page_seg (pmem sbi') a (xs @ [p] @ ?B @ ys) 0" using ys(4) unfolding split by simp
      ultimately show ?thesis
        using pages_taken_append [OF tk ys(2)] ys(3) 2(3) by (intro exI [of _ sbi'] exI [of _ "?B @ ys"]) simp
    qed
  qed
qed

lemma allocate_log_pages_ok:
  assumes inv: "store_inv (E, sbi)" and num: "0 < num" "num < 2 ^ 31"
  shows "nova_allocate_inode_log_pages E smp sbi 0 num old ANY_CPU dir = Some (sbi, Inl ENOSPC, old) \<or>
    (\<exists>sbi' bs. nova_allocate_inode_log_pages E smp sbi 0 num old ANY_CPU dir =
         Some (sbi', Inr (int (length bs)), 4096 * hd bs) \<and>
       bs \<noteq> [] \<and> length bs \<le> num \<and> pages_taken E sbi bs sbi' \<and> page_seg (pmem sbi') (4096 * hd bs) bs 0 \<and>
       only_tails (set bs) (pmem sbi) (pmem sbi'))"
proof -
  obtain sbi1 r where r: "nova_new_log_blocks E smp sbi 0 num False ANY_CPU dir = (sbi1, r)" by fastforce
  from new_log_blocks_ok [OF inv num r]
  consider "r = Inl ENOSPC" "sbi1 = sbi" | b m where "r = Inr (b, int m)" "0 < m" "m \<le> num"
    "pages_taken E sbi [b..<b + m] sbi1" "pmem sbi1 = pmem sbi" "0 < b" "b + m \<le> 2 ^ 32" by auto
  then show ?thesis
  proof cases
    case 1
    then show ?thesis using r by (simp add: nova_allocate_inode_log_pages_def)
  next
    case (2 b m)
    let ?P = "nova_coalesce_log_pages E 0 b m (pmem sbi)" and ?B = "[b..<b + m]"
    let ?sbi = "sbi1\<lparr>pmem := ?P\<rparr>" and ?q = "b + m - 1" and ?ys = "[b..<b + m - 1]"
    have split: "?B = ?ys @ [?q]" using 2(2) by (cases m) simp_all
    have c: "page_seg ?P (4096 * b) ?B 0" "only_tails (set ?B) (pmem sbi) ?P"
      using coalesce_ok [OF 2(6) _ 2(2), of 0 E "pmem sbi"] 2(6,7) by auto
    have tk: "pages_taken E sbi ?B ?sbi" using 2(4) by (simp add: pages_taken_def)
    have "set (?ys @ [?q]) \<inter> all_free ?sbi = {}" "distinct (?ys @ [?q])" "store_inv (E, ?sbi)"
      using tk unfolding split [symmetric] by (auto simp: pages_taken_def)
    moreover have "num - m < 2 ^ 31" "?q < 2 ^ 32" using 2(2,3,7) num(2) by linarith+
    ultimately obtain sbi' ys where ys:
      "more_log_pages E smp 0 ANY_CPU dir (num - m) ?q (int m) ?sbi = Some (sbi', Inr (int m + int (length ys)))"
      "pages_taken E ?sbi ys sbi'" "length ys \<le> num - m" "page_seg (pmem sbi') (4096 * b) (?ys @ [?q] @ ys) 0"
      "only_tails (insert ?q (set ys)) ?P (pmem sbi')"
      using more_log_pages_ok [of E ?sbi "num - m" "4096 * b" ?ys ?q smp dir "int m"] c(1) num(2) 2(2,7)
      unfolding split by auto
    have "nova_allocate_inode_log_pages E smp sbi 0 num old ANY_CPU dir =
        Some (sbi', Inr (int (length (?B @ ys))), 4096 * hd (?B @ ys))"
      using ys(1) r 2 num(2) by (simp add: nova_allocate_inode_log_pages_def block_off_eq)
    moreover have "only_tails (set (?B @ ys)) (pmem sbi) (pmem sbi')"
      using only_tails_trans [OF c(2) ys(5)] by (rule only_tails_mono) (use 2(2) in auto)
    moreover have "hd (?B @ ys) = b" using 2(2) by simp
    then have "page_seg (pmem sbi') (4096 * hd (?B @ ys)) (?B @ ys) 0" using ys(4) unfolding split by simp
    ultimately show ?thesis
      using pages_taken_append [OF tk ys(2)] ys(3) 2(2,3)
      by (intro disjI2 exI [of _ sbi'] exI [of _ "?B @ ys"]) simp
  qed
qed

subsection \<open>Freeing pages\<close>

text \<open>
  No list begins right behind the end of another: the blocks for checksums and parity lie between
  them. So a run of neighbouring pages never spans two lists.
\<close>

definition lists_gap :: "sb_info \<Rightarrow> bool" where
  "lists_gap sbi \<longleftrightarrow>
     (\<forall>i < length (free_lists sbi). \<forall>j < length (free_lists sbi). \<not> in_list sbi j (block_end (free_lists sbi ! i) + 1))"

definition run_blocks_of :: "nat \<Rightarrow> int \<Rightarrow> nat set" where
  "run_blocks_of start n = (if start = 0 then {} else {start..<start + nat n})"

lemma free_run_ok:
  assumes inv: "store_inv (E, sbi)" and h: "0 < start" "0 < n" "home sbi start (nat n)"
    "{start..<start + nat n} \<inter> all_free sbi = {}"
  shows "store_inv (E, free_run E 0 start n sbi) \<and>
    all_free (free_run E 0 start n sbi) = all_free sbi \<union> {start..<start + nat n} \<and>
    (\<forall>b m. home (free_run E 0 start n sbi) b m = home sbi b m) \<and> pmem (free_run E 0 start n sbi) = pmem sbi"
proof -
  have i: "rb_lib_ok E" "kmem_ok E" "lists_inv E sbi" "kmem_zalloc E (requests (nodes sbi)) (live (nodes sbi)) \<noteq> None"
    using inv by (auto simp: store_inv_def kmem_total_def)
  obtain sbi' r where r: "nova_free_blocks E sbi start n 0 True = (sbi', r)" by fastforce
  have "nat n < 2 ^ 64" using home_bound [of E sbi start "nat n"] i(3) h by simp
  from free_blocks_ok [OF i h(2) _ this h(3,4) r] show ?thesis
    using r inv h(1) by (auto simp: free_run_def nova_free_log_blocks_def store_inv_def nova_get_numblocks_def)
qed

definition runs_join :: "sb_info \<Rightarrow> bool" where
  "runs_join sbi \<longleftrightarrow>
     (\<forall>b n. 0 < n \<longrightarrow> home sbi b n \<longrightarrow> home sbi (b + n) 1 \<longrightarrow> home sbi b (n + 1))"

lemma runs_join_home: "\<forall>b m. home sbi' b m = home sbi b m \<Longrightarrow> runs_join sbi' = runs_join sbi"
  by (simp add: runs_join_def)

lemma home_extend:
  assumes "lists_gap sbi" "home sbi start n" "0 < n" "home sbi (start + n) 1"
  shows "home sbi start (n + 1)"
proof -
  obtain i where i: "i < length (free_lists sbi)" "block_start (free_lists sbi ! i) \<le> start"
    "start + n \<le> block_end (free_lists sbi ! i) + 1" using assms(2) by (auto simp: home_def)
  obtain j where j: "j < length (free_lists sbi)" "in_list sbi j (start + n)"
    using assms(4) by (auto simp: home_def in_list_def)
  have "start + n \<noteq> block_end (free_lists sbi ! i) + 1" using assms(1) i(1) j by (auto simp: lists_gap_def)
  then show ?thesis using i by (auto simp: home_def)
qed

lemma lists_gap_runs_join: "lists_gap sbi \<Longrightarrow> runs_join sbi"
  using home_extend by (auto simp: runs_join_def)

text \<open>
  The state of the loop: a run of pages that is collected but not yet freed, and the pages still
  to come.
\<close>

definition run_ok :: "sb_info \<Rightarrow> nat \<Rightarrow> int \<Rightarrow> nat list \<Rightarrow> bool" where
  "run_ok sbi start n bs \<longleftrightarrow>
     distinct bs \<and> (\<forall>b \<in> set bs. home sbi b 1) \<and> set bs \<inter> all_free sbi = {} \<and>
     run_blocks_of start n \<inter> (all_free sbi \<union> set bs) = {} \<and>
     (if start = 0 then n = 0 else 0 < n \<and> home sbi start (nat n))"

lemma free_log_loop_ok:
  assumes "good_media E" "runs_join sbi" "store_inv (E, sbi)" "page_seg (pmem sbi) a bs 0" "run_ok sbi start n bs"
  shows "\<exists>sbi' start' n' k'. free_log_loop E 0 a start n k sbi = Some (sbi', start', n', k') \<and>
    store_inv (E, sbi') \<and> run_ok sbi' start' n' [] \<and> k' + n' = k + n + int (length bs) \<and>
    all_free sbi' \<union> run_blocks_of start' n' = all_free sbi \<union> run_blocks_of start n \<union> set bs \<and>
    (\<forall>b m. home sbi' b m = home sbi b m) \<and> pmem sbi' = pmem sbi"
  using assms(2-)
proof (induction bs arbitrary: a start n k sbi)
  case Nil
  then show ?case by (subst free_log_loop.simps) simp
next
  case (Cons b bs)
  have b: "a = 4096 * b" "b \<noteq> 0" "page_seg (pmem sbi) (page_link (pmem sbi) b) bs 0" using Cons.prems(3) by auto
  have ok: "distinct (b # bs)" "\<forall>c \<in> set (b # bs). home sbi c 1" "set (b # bs) \<inter> all_free sbi = {}"
    "run_blocks_of start n \<inter> (all_free sbi \<union> set (b # bs)) = {}" "if start = 0 then n = 0 else 0 < n \<and> home sbi start (nat n)"
    using Cons.prems(4) by (auto simp: run_ok_def)
  have step: "free_log_loop E 0 a start n k sbi =
      (if start = 0 then free_log_loop E 0 (page_link (pmem sbi) b) b 1 k sbi
       else if int b = int start + n then free_log_loop E 0 (page_link (pmem sbi) b) start (n + 1) k sbi
       else free_log_loop E 0 (page_link (pmem sbi) b) b 1 (k + n) (free_run E 0 start n sbi))"
    using b(1,2) assms(1) by (subst free_log_loop.simps)
      (simp add: next_log_page_link block_off_mod nova_get_blocknr_def drop_bit_eq_div PAGE_SHIFT_def)
  consider (first) "start = 0" | (more) "start \<noteq> 0" "int b = int start + n" | (new) "start \<noteq> 0" "int b \<noteq> int start + n" by auto
  then show ?case
  proof cases
    case first
    have "run_ok sbi b 1 bs" using ok b(2) by (auto simp: run_ok_def run_blocks_of_def)
    moreover have "run_blocks_of b 1 = {b}" "run_blocks_of 0 0 = {}" using b(2) by (auto simp: run_blocks_of_def)
    ultimately show ?thesis
      using Cons.IH [OF Cons.prems(1,2) b(3), of b 1 k] first step ok(5) by (simp add: algebra_simps)
  next
    case more
    have n: "0 < n" "home sbi start (nat n)" using ok(5) more(1) by auto
    have eq: "b = start + nat n" "nat (n + 1) = nat n + 1" using more(2) n(1) by auto
    have "home sbi start (nat n + 1)"
      using Cons.prems(1) n ok(2) eq(1) by (simp add: runs_join_def)
    moreover have run: "run_blocks_of start (n + 1) = insert b (run_blocks_of start n)"
      using more(1) eq by (auto simp: run_blocks_of_def)
    ultimately have "run_ok sbi start (n + 1) bs" using ok more(1) n(1) eq(2) by (auto simp: run_ok_def)
    from Cons.IH [OF Cons.prems(1,2) b(3) this, of k] show ?thesis
      using more step run by (simp add: algebra_simps)
  next
    case new
    have n: "0 < n" "home sbi start (nat n)" using ok(5) new(1) by auto
    have "{start..<start + nat n} \<inter> all_free sbi = {}" using ok(4) new(1) by (auto simp: run_blocks_of_def)
    note f = free_run_ok [OF Cons.prems(2) _ n this]
    let ?sbi = "free_run E 0 start n sbi"
    have f: "store_inv (E, ?sbi)" "all_free ?sbi = all_free sbi \<union> run_blocks_of start n"
      "\<forall>b m. home ?sbi b m = home sbi b m" "pmem ?sbi = pmem sbi" "runs_join ?sbi"
      using f new(1) Cons.prems(1) runs_join_home [of ?sbi sbi] by (auto simp: run_blocks_of_def)
    have "run_ok ?sbi b 1 bs" using ok f(2,3) b(2) by (auto simp: run_ok_def run_blocks_of_def)
    moreover have "run_blocks_of b 1 = {b}" using b(2) by (auto simp: run_blocks_of_def)
    ultimately show ?thesis
      using Cons.IH [OF f(5,1), of "page_link (pmem sbi) b" b 1 "k + n"] b(3) f new step by (simp add: algebra_simps)
  qed
qed

theorem free_contiguous_ok:
  assumes "good_media E" "runs_join sbi" "store_inv (E, sbi)" "page_seg (pmem sbi) a bs 0"
    "distinct bs" "\<forall>b \<in> set bs. home sbi b 1" "set bs \<inter> all_free sbi = {}"
  shows "\<exists>sbi'. nova_free_contiguous_log_blocks E 0 a sbi = Some (sbi', int (length bs)) \<and>
    store_inv (E, sbi') \<and> all_free sbi' = all_free sbi \<union> set bs \<and> pmem sbi' = pmem sbi \<and>
    (\<forall>b m. home sbi' b m = home sbi b m)"
proof -
  have "run_ok sbi 0 0 bs" using assms by (simp add: run_ok_def run_blocks_of_def)
  from free_log_loop_ok [OF assms(1-4) this, of 0]
  obtain sbi' start n k where l: "free_log_loop E 0 a 0 0 0 sbi = Some (sbi', start, n, k)" "store_inv (E, sbi')"
    "run_ok sbi' start n []" "k + n = int (length bs)"
    "all_free sbi' \<union> run_blocks_of start n = all_free sbi \<union> set bs" "pmem sbi' = pmem sbi"
    "\<forall>b m. home sbi' b m = home sbi b m"
    by (auto simp: run_blocks_of_def)
  show ?thesis
  proof (cases "start = 0")
    case True
    then show ?thesis using l by (auto simp: nova_free_contiguous_log_blocks_def run_ok_def run_blocks_of_def)
  next
    case False
    then have r: "0 < start" "0 < n" "home sbi' start (nat n)" "{start..<start + nat n} \<inter> all_free sbi' = {}"
      "all_free sbi' \<union> {start..<start + nat n} = all_free sbi \<union> set bs"
      using l(3,5) by (auto simp: run_ok_def run_blocks_of_def)
    from free_run_ok [OF l(2) r(1-4)] show ?thesis
      using False l(1,4,6,7) r(5) by (simp add: nova_free_contiguous_log_blocks_def)
  qed
qed

end
