(* ===== verification/Log_Alloc_Props.thy ===== *)
theory Log_Alloc_Props
  imports Log_Alloc_Inv
begin

text \<open>
  What the log allocator promises: it links formerly free blocks into a chain, freeing the chain
  gives them back, and freeing the log of an inode frees the pages of both copies.
\<close>

text \<open>
  C34: asking for log pages either fails with ENOSPC and changes nothing, or returns the address of
  a chain of at most that many distinct pages that ends with a null link. The pages were free and
  are not free any more, all other free blocks stay free, the free lists stay consistent, and no
  byte of the device outside the tails of these pages changes. The call always returns.
\<close>

theorem log_pages_chain:
  assumes "store_inv (E, sbi)" "0 < num" "num < 2 ^ 31"
  shows "nova_allocate_inode_log_pages E smp sbi 0 num old ANY_CPU dir = Some (sbi, Inl ENOSPC, old) \<or>
    (\<exists>sbi' bs. nova_allocate_inode_log_pages E smp sbi 0 num old ANY_CPU dir =
         Some (sbi', Inr (int (length bs)), 4096 * hd bs) \<and>
       bs \<noteq> [] \<and> length bs \<le> num \<and> pages_taken E sbi bs sbi' \<and> page_seg (pmem sbi') (4096 * hd bs) bs 0 \<and>
       only_tails (set bs) (pmem sbi) (pmem sbi'))"
  using assms by (rule allocate_log_pages_ok)

lemma demo_gap: "lists_gap demo_sb" "good_media demo_env_total"
  by (auto simp: lists_gap_def in_list_def demo_list_def good_media_def demo_env_total_def demo_env_def)

theorem log_pages_chain_witness:
  "nova_allocate_inode_log_pages demo_env_total 0 demo_sb 0 5 0 ANY_CPU ALLOC_FROM_HEAD = Some (demo_sb, Inl ENOSPC, 0) \<or>
    (\<exists>sbi' bs. nova_allocate_inode_log_pages demo_env_total 0 demo_sb 0 5 0 ANY_CPU ALLOC_FROM_HEAD =
         Some (sbi', Inr (int (length bs)), 4096 * hd bs) \<and>
       bs \<noteq> [] \<and> length bs \<le> 5 \<and> set bs \<subseteq> {100..1999} \<and> page_seg (pmem sbi') (4096 * hd bs) bs 0)"
  using log_pages_chain [OF demo_total_inv, of 5 0 0 ALLOC_FROM_HEAD] demo_free(2)
  unfolding pages_taken_def by auto

text \<open>
  C35: log pages that were allocated and are freed again are all counted, and afterwards exactly
  the blocks are free that were free before the allocation.
\<close>

theorem log_pages_roundtrip:
  assumes "good_media E" "lists_gap sbi" "store_inv (E, sbi)" "0 < num" "num < 2 ^ 31"
    "nova_allocate_inode_log_pages E smp sbi 0 num old ANY_CPU dir = Some (sbi', Inr got, new_block)"
  shows "\<exists>sbi''. nova_free_contiguous_log_blocks E 0 new_block sbi' = Some (sbi'', got) \<and>
    store_inv (E, sbi'') \<and> all_free sbi'' = all_free sbi \<and> pmem sbi'' = pmem sbi'"
proof -
  obtain bs where b: "got = int (length bs)" "new_block = 4096 * hd bs" "pages_taken E sbi bs sbi'"
    "page_seg (pmem sbi') (4096 * hd bs) bs 0"
    using allocate_log_pages_ok [OF assms(3-5), of smp old dir] assms(6) by auto
  have t: "store_inv (E, sbi')" "distinct bs" "set bs \<subseteq> all_free sbi" "all_free sbi' = all_free sbi - set bs"
    "\<forall>b \<in> set bs. home sbi' b 1" "runs_join sbi'"
    using b(3) runs_join_home [of sbi' sbi] lists_gap_runs_join [OF assms(2)] by (auto simp: pages_taken_def)
  have "set bs \<inter> all_free sbi' = {}" using t(4) by auto
  from free_contiguous_ok [OF assms(1) t(6,1) b(4) t(2,5) this] show ?thesis using b(1,2) t(3,4) by auto
qed

lemma demo_log_pages:
  "\<exists>sbi'. nova_allocate_inode_log_pages demo_env_total 0 demo_sb 0 3 0 ANY_CPU ALLOC_FROM_HEAD = Some (sbi', Inr 3, 409600)"
proof -
  let ?r = "nova_new_log_blocks demo_env_total 0 demo_sb 0 3 False ANY_CPU ALLOC_FROM_HEAD"
  have "snd ?r = Inr (100, 3)" by (simp add: nova_new_log_blocks_def demo_env_total_def demo_eval DEAD_ZONE_BLOCKS_def)
  then obtain sbi where r: "?r = (sbi, Inr (100, 3))" by (metis prod.collapse)
  show ?thesis
    by (simp add: nova_allocate_inode_log_pages_def r more_log_pages.simps [of _ _ _ _ _ 0] block_off_eq)
qed

theorem log_pages_roundtrip_witness:
  "\<exists>sbi' sbi''. nova_allocate_inode_log_pages demo_env_total 0 demo_sb 0 3 0 ANY_CPU ALLOC_FROM_HEAD = Some (sbi', Inr 3, 409600) \<and>
     nova_free_contiguous_log_blocks demo_env_total 0 409600 sbi' = Some (sbi'', 3) \<and> all_free sbi'' = {100..1999}"
proof -
  obtain sbi' where a: "nova_allocate_inode_log_pages demo_env_total 0 demo_sb 0 3 0 ANY_CPU ALLOC_FROM_HEAD = Some (sbi', Inr 3, 409600)"
    using demo_log_pages by blast
  from log_pages_roundtrip [OF demo_gap(2,1) demo_total_inv _ _ a] show ?thesis using a demo_free(2) by auto
qed

subsection \<open>The log of an inode\<close>

lemma clear_log_pointers_frame:
  assumes "a \<notin> {pi..<pi + 120}" "a \<notin> {alter_pi_addr sih..<alter_pi_addr sih + 120}"
  shows "mem (clear_log_pointers E pi sih P) a = mem P a"
  using assms by (auto simp: clear_log_pointers_def nova_update_inode_checksum_def Let_def put_def
      memcpy_to_pmem_nocache_def nt_store_def)

lemma page_link_frame:
  assumes "\<forall>a \<in> page_tails {b}. mem P' a = mem P a"
  shows "page_link P' b = page_link P b"
proof -
  have "get_bytes (mem P') (4096 * b + 4088) 8 = get_bytes (mem P) (4096 * b + 4088) 8"
    using assms by (intro nth_equalityI) (simp_all add: get_bytes_def page_tails_def)
  then show ?thesis by (simp add: page_link_def read_le_def)
qed

lemma free_inode_log_ok:
  assumes "good_media E" "runs_join sbi" "store_inv (E, sbi)" "metadata_csum E \<or> ys = []"
    "i_blk_type sih = 0" "log_head sih \<noteq> 0" "log_tail sih \<noteq> 0"
    "page_seg (pmem sbi) (log_head sih) xs 0" "page_seg (pmem sbi) (alter_log_head sih) ys 0"
    "distinct (xs @ ys)" "\<forall>b \<in> set (xs @ ys). home sbi b 1" "set (xs @ ys) \<inter> all_free sbi = {}"
    "({pi..<pi + 120} \<union> {alter_pi_addr sih..<alter_pi_addr sih + 120}) \<inter> page_tails (set (xs @ ys)) = {}"
  shows "\<exists>sbi'. nova_free_inode_log E pi sih sbi = Some sbi' \<and> store_inv (E, sbi') \<and>
    all_free sbi' = all_free sbi \<union> set xs \<union> set ys"
proof -
  define sbi1 where "sbi1 = (if pi \<noteq> 0 then sbi\<lparr>pmem := clear_log_pointers E pi sih (pmem sbi)\<rparr> else sbi)"
  have 1: "store_inv (E, sbi1)" "all_free sbi1 = all_free sbi" "\<And>b m. home sbi1 b m = home sbi b m"
    using assms(3) by (simp_all add: sbi1_def)
  then have j: "runs_join sbi1" using assms(2) runs_join_home by blast
  have "page_link (pmem sbi1) b = page_link (pmem sbi) b" if "b \<in> set (xs @ ys)" for b
    using assms(13) that by (intro page_link_frame) (auto simp: sbi1_def page_tails_def intro!: clear_log_pointers_frame)
  then have seg: "page_seg (pmem sbi1) (log_head sih) xs 0" "page_seg (pmem sbi1) (alter_log_head sih) ys 0"
    using assms(8,9) page_seg_cong [of xs "pmem sbi1"] page_seg_cong [of ys "pmem sbi1"] by auto
  from free_contiguous_ok [OF assms(1) j 1(1) seg(1)] assms(10-12) 1(2,3) obtain sbi2 where
    2: "nova_free_contiguous_log_blocks E 0 (log_head sih) sbi1 = Some (sbi2, int (length xs))" "store_inv (E, sbi2)"
      "all_free sbi2 = all_free sbi \<union> set xs" "pmem sbi2 = pmem sbi1" "\<forall>b m. home sbi2 b m = home sbi1 b m"
    by auto
  have "set ys \<inter> all_free sbi2 = {}" using assms(10,12) 2(3) by auto
  moreover have "runs_join sbi2" using 2(5) j runs_join_home by blast
  note free_contiguous_ok [OF assms(1) this 2(2), of "alter_log_head sih" ys]
  ultimately
  obtain sbi' where 3: "nova_free_contiguous_log_blocks E 0 (alter_log_head sih) sbi2 = Some (sbi', int (length ys))"
    "store_inv (E, sbi')" "all_free sbi' = all_free sbi \<union> set xs \<union> set ys"
    using seg(2) assms(10,11) 1(3) 2(3-5) by auto
  have "nova_free_inode_log E pi sih sbi = Some (if metadata_csum E then sbi' else sbi2)"
    using 2(1) 3(1) assms(5-7) unfolding nova_free_inode_log_def Let_def sbi1_def [symmetric] by simp
  then show ?thesis using 2(2,3) 3(2,3) assms(4) by auto
qed

text \<open>
  C36: freeing the log of an inode with replicas returns all pages of the main log and all pages of
  the alternate log to the free lists, and nothing else; the walk along the second log is not
  disturbed by the freeing of the first, nor by clearing the pointers in the inode.
\<close>

theorem free_inode_log_frees_both:
  assumes "good_media E" "lists_gap sbi" "store_inv (E, sbi)" "metadata_csum E"
    "i_blk_type sih = 0" "log_head sih \<noteq> 0" "log_tail sih \<noteq> 0"
    "page_seg (pmem sbi) (log_head sih) xs 0" "page_seg (pmem sbi) (alter_log_head sih) ys 0"
    "distinct (xs @ ys)" "\<forall>b \<in> set (xs @ ys). home sbi b 1" "set (xs @ ys) \<inter> all_free sbi = {}"
    "({pi..<pi + 120} \<union> {alter_pi_addr sih..<alter_pi_addr sih + 120}) \<inter> page_tails (set (xs @ ys)) = {}"
  shows "\<exists>sbi'. nova_free_inode_log E pi sih sbi = Some sbi' \<and> store_inv (E, sbi') \<and>
    all_free sbi' = all_free sbi \<union> set xs \<union> set ys"
  using free_inode_log_ok [OF assms(1) lists_gap_runs_join [OF assms(2)] assms(3) disjI1 [OF assms(4)] assms(5-13)] .

text \<open>An inode at block 10 with its replica in block 11, and a log of one page and its alternate.\<close>

definition log_sih :: inode_info_header where
  "log_sih = \<lparr>radix = (\<lambda>_. None), rb_tree = Leaf, i_mode = 0, i_flags = 0, log_pages = 2, i_size = 0,
     i_blocks = 0, ino = 40, pi_addr = 40960, alter_pi_addr = 45056, valid_entries = 0, num_entries = 0,
     last_setattr = 0, last_link_change = 0, last_dentry = 0, trans_id = 0, log_head = 4096 * 70, log_tail = 4096 * 70,
     alter_log_head = 4096 * 80, alter_log_tail = 4096 * 80, i_blk_type = 0\<rparr>"

definition log_sb :: sb_info where
  "log_sb = demo_sb\<lparr>pmem := \<lparr>mem = (\<lambda>_. 0), trace = []\<rparr>\<rparr>"

lemma log_sih_sel [simp]:
  "alter_pi_addr log_sih = 45056" "log_head log_sih = 286720" "log_tail log_sih = 286720"
  "alter_log_head log_sih = 327680" "i_blk_type log_sih = 0" "metadata_csum demo_env_total"
  by (simp_all add: log_sih_def demo_env_total_def demo_env_def)

theorem free_inode_log_frees_both_witness:
  "\<exists>sbi'. nova_free_inode_log demo_env_total 40960 log_sih log_sb = Some sbi' \<and>
     all_free sbi' = {100..1999} \<union> {70, 80}"
proof -
  have "lists_gap log_sb" "store_inv (demo_env_total, log_sb)" "all_free log_sb = {100..1999}"
    using demo_gap(1) demo_total_inv demo_free(2) by (simp_all add: log_sb_def lists_gap_def in_list_def)
  moreover have "home log_sb 70 1" "home log_sb 80 1" by (simp_all add: log_sb_def demo_home)
  moreover have "page_link (pmem log_sb) b = 0" for b by (simp add: log_sb_def page_link_def read_le_def get_bytes_def upt_rec)
  moreover have "({40960..<40960 + 120} \<union> {45056..<45056 + 120}) \<inter> page_tails {70, 80} = {}"
    by (auto simp: page_tails_def)
  ultimately show ?thesis
    using free_inode_log_frees_both [OF demo_gap(2), of log_sb log_sih "[70]" "[80]" 40960]
    by (auto simp: insert_commute)
qed

end
