(* ===== verification/Range_Log_Inv.thy ===== *)
theory Range_Log_Inv
  imports Range_Log Log_Alloc_Props
begin

text \<open>
  Where the entries of a saved map lie: \<open>slot bs k\<close> is the address of entry \<open>k\<close> of a log whose pages
  are the blocks \<open>bs\<close>, and \<open>tail_at bs k\<close> is the tail of the log after \<open>k\<close> entries.
\<close>

definition slot :: "nat list \<Rightarrow> nat \<Rightarrow> nat" where
  "slot bs k = 4096 * (bs ! (k div 254)) + 16 * (k mod 254)"

definition tail_at :: "nat list \<Rightarrow> nat \<Rightarrow> nat" where
  "tail_at bs k = (if k = 0 then 4096 * hd bs else slot bs (k - 1) + 16)"

definition entry_at :: "pm \<Rightarrow> nat \<Rightarrow> blk_range" where
  "entry_at P a = (get_field nova_range_node_lowhigh R_low a P, get_field nova_range_node_lowhigh R_high a P)"

lemma lowhigh_offsets [simp]:
  "sizeof_lowhigh = 16" "packed_off nova_range_node_lowhigh R_low = 0" "packed_width nova_range_node_lowhigh R_low = 8"
  "packed_off nova_range_node_lowhigh R_high = 8" "packed_width nova_range_node_lowhigh R_high = 8"
  by (simp_all add: nova_range_node_lowhigh_def sizeof_lowhigh_def packed_size_def)

lemma page_addr:
  assumes "r < 4096"
  shows "ENTRY_LOC (4096 * b + r) = r" "BLOCK_OFF (4096 * b + r) = 4096 * b"
  using assms by (simp_all add: block_off_mod)

lemma next_log_page_at:
  assumes "good_media E" "r < 4096"
  shows "next_log_page E P (4096 * b + r) = page_link P b"
  using next_log_page_link [OF assms(1), of P b] page_addr [OF assms(2), of b] page_addr(2) [of 0 b]
  by (simp add: next_log_page_def PAGE_TAIL_def)

lemma page_seg_nth:
  "page_seg P a bs c \<Longrightarrow> i < length bs \<Longrightarrow>
     bs ! i \<noteq> 0 \<and> (Suc i < length bs \<longrightarrow> page_link P (bs ! i) = 4096 * (bs ! Suc i))"
proof (induction bs arbitrary: a i)
  case (Cons b bs)
  then show ?case by (cases i; cases bs) auto
qed simp

text \<open>The entry that is written after \<open>k\<close> others goes to slot \<open>k\<close>.\<close>

lemma tail_mod: "tail_at bs k mod 4096 = (if k = 0 then 0 else 16 * ((k - 1) mod 254) + 16)"
proof -
  have "(4096 * b + 16 * (j mod 254) + 16) mod 4096 = 16 * (j mod 254) + 16" for b j :: nat
    using mod_less_divisor [of 254 j] by (simp add: add.assoc)
  then show ?thesis by (simp add: tail_at_def slot_def)
qed

lemma tail_step:
  assumes "good_media E" "page_seg P (4096 * hd bs) bs 0" "k < 254 * length bs"
  shows "tail_at bs k \<noteq> 0"
    "(if is_last_entry (tail_at bs k) 16 then next_log_page E P (tail_at bs k) else tail_at bs k) = slot bs k"
    "slot bs k \<noteq> 0"
proof -
  have ne: "bs \<noteq> []" and q: "k div 254 < length bs" using assms(3) by (auto simp: less_mult_imp_div_less mult.commute)
  then show nz: "slot bs k \<noteq> 0" using page_seg_nth [OF assms(2) q] by (simp add: slot_def)
  have h: "hd bs \<noteq> 0" "hd bs = bs ! 0" using page_seg_nth [OF assms(2), of 0] ne by (simp_all add: hd_conv_nth)
  show "tail_at bs k \<noteq> 0" using h by (simp add: tail_at_def)
  show "(if is_last_entry (tail_at bs k) 16 then next_log_page E P (tail_at bs k) else tail_at bs k) = slot bs k"
  proof (cases "k = 0")
    case True
    then show ?thesis using h page_addr(1) [of 0 "hd bs"]
      by (simp add: tail_at_def slot_def is_last_entry_def LOG_BLOCK_TAIL_def u32_trunc_def)
  next
    case False
    then obtain j where k: "k = Suc j" by (cases k) auto
    have r: "j mod 254 < 254" by simp
    have t: "tail_at bs k = 4096 * (bs ! (j div 254)) + (16 * (j mod 254) + 16)" by (simp add: tail_at_def slot_def k)
    have loc: "ENTRY_LOC (tail_at bs k) = 16 * (j mod 254) + 16" unfolding t using r by (intro page_addr) linarith
    have last: "is_last_entry (tail_at bs k) 16 \<longleftrightarrow> j mod 254 = 253"
      unfolding is_last_entry_def loc LOG_BLOCK_TAIL_def using r by auto
    show ?thesis
    proof (cases "j mod 254 = 253")
      case True
      then have k': "k div 254 = Suc (j div 254)" "k mod 254 = 0" unfolding k by (simp_all add: div_Suc mod_Suc)
      have "next_log_page E P (tail_at bs k) = page_link P (bs ! (j div 254))"
        unfolding t using assms(1) r by (intro next_log_page_at) simp_all
      then show ?thesis using page_seg_nth [OF assms(2), of "j div 254"] q k' last True by (simp add: slot_def)
    next
      case other: False
      then have "k div 254 = j div 254" "k mod 254 = j mod 254 + 1" unfolding k by (simp_all add: div_Suc mod_Suc)
      then show ?thesis using last other t by (simp add: slot_def)
    qed
  qed
qed

subsection \<open>Writing entries\<close>

definition slot_bytes :: "nat list \<Rightarrow> nat \<Rightarrow> nat set" where
  "slot_bytes bs k = {slot bs k..<slot bs k + 16}"

lemma slot_bytes_page:
  assumes "a \<in> slot_bytes bs k"
  shows "a div 4096 = bs ! (k div 254)" "a mod 4096 div 16 = k mod 254" "a mod 4096 < 4064"
proof -
  have r: "16 * (k mod 254) + 16 \<le> 4064" by simp
  define d where "d = a - 4096 * (bs ! (k div 254))"
  have d: "a = 4096 * (bs ! (k div 254)) + d" "16 * (k mod 254) \<le> d" "d < 16 * (k mod 254) + 16"
    using assms by (auto simp: slot_bytes_def slot_def d_def)
  have d': "d < 4064" using d(3) r by linarith
  have "d div 16 = k mod 254" using d(2,3) by (intro div_nat_eqI) simp_all
  then show "a div 4096 = bs ! (k div 254)" "a mod 4096 div 16 = k mod 254" "a mod 4096 < 4064"
    using d(1) d' by simp_all
qed

lemma entry_slots_apart:
  assumes "distinct bs" "j < 254 * length bs" "k < 254 * length bs" "a \<in> slot_bytes bs j" "a \<in> slot_bytes bs k"
  shows "j = k"
proof -
  have q: "j div 254 < length bs" "k div 254 < length bs" using assms(2,3) by (auto simp: less_mult_imp_div_less mult.commute)
  note p = slot_bytes_page [OF assms(4)] slot_bytes_page [OF assms(5)]
  have "j div 254 = k div 254" using p(1,4) assms(1) q by (simp add: nth_eq_iff_index_eq)
  moreover have "j mod 254 = k mod 254" using p(2,5) by simp
  ultimately show ?thesis by (metis div_mult_mod_eq)
qed

lemma slot_bytes_tails: "a \<in> slot_bytes bs k \<Longrightarrow> a \<notin> page_tails B"
proof
  assume a: "a \<in> slot_bytes bs k" "a \<in> page_tails B"
  then obtain b where b: "4096 * b + 4064 \<le> a" "a < 4096 * b + 4096" by (auto simp: page_tails_def)
  then have "a - 4096 * b < 4096" "a = 4096 * b + (a - 4096 * b)" by auto
  then have "a mod 4096 = a - 4096 * b" by (metis mod_less mod_mult_self4)
  then show False using slot_bytes_page(3) [OF a(1)] b(1) by simp
qed

definition appended :: "pm \<Rightarrow> nat list \<Rightarrow> nat \<Rightarrow> blk_range list \<Rightarrow> pm \<Rightarrow> bool" where
  "appended P bs k es P' \<longleftrightarrow>
     (\<forall>i < length es. entry_at P' (slot bs (k + i)) = es ! i) \<and>
     (\<forall>a. a \<notin> (\<Union>i \<in> {k..<k + length es}. slot_bytes bs i) \<longrightarrow> mem P' a = mem P a)"

lemma entry_at_cong:
  assumes "\<forall>a \<in> {x..<x + 16}. mem P' a = mem P a"
  shows "entry_at P' x = entry_at P x"
proof -
  have "get_bytes (mem P') x 8 = get_bytes (mem P) x 8" "get_bytes (mem P') (x + 8) 8 = get_bytes (mem P) (x + 8) 8"
    using assms by (auto simp: get_bytes_def)
  then show ?thesis by (simp add: entry_at_def get_field_def read_le_def)
qed

lemma appended_Nil: "appended P bs k [] P"
  by (simp add: appended_def)

lemma appended_append:
  assumes "appended P bs k xs P1" "appended P1 bs (k + length xs) ys P2"
    and d: "distinct bs" and fit: "k + length xs + length ys \<le> 254 * length bs"
  shows "appended P bs k (xs @ ys) P2"
proof -
  have old: "entry_at P2 (slot bs (k + i)) = entry_at P1 (slot bs (k + i))" if i: "i < length xs" for i
  proof (rule entry_at_cong, rule ballI)
    fix a
    assume "a \<in> {slot bs (k + i)..<slot bs (k + i) + 16}"
    then have a: "a \<in> slot_bytes bs (k + i)" by (simp add: slot_bytes_def)
    have "a \<notin> slot_bytes bs j" if "k + length xs \<le> j" "j < k + length xs + length ys" for j
      using entry_slots_apart [OF d _ _ a, of j] that i fit by auto
    then show "mem P2 a = mem P1 a" using assms(2) by (auto simp: appended_def)
  qed
  have "entry_at P2 (slot bs (k + i)) = (xs @ ys) ! i" if i: "i < length (xs @ ys)" for i
  proof (cases "i < length xs")
    case True
    then show ?thesis using old assms(1) by (simp add: appended_def nth_append)
  next
    case False
    define j where "j = i - length xs"
    have "i = length xs + j" "j < length ys" using False i by (auto simp: j_def)
    then show ?thesis using assms(2) by (simp add: appended_def nth_append add.assoc)
  qed
  moreover have "mem P2 a = mem P a" if "a \<notin> (\<Union>i \<in> {k..<k + length (xs @ ys)}. slot_bytes bs i)" for a
    using that assms(1,2) by (auto simp: appended_def)
  ultimately show ?thesis unfolding appended_def by blast
qed

lemma appended_seg:
  assumes "appended P bs k es P'"
  shows "page_seg P' a cs c = page_seg P a cs c"
proof (rule page_seg_cong, rule page_link_frame)
  fix b
  show "\<forall>a \<in> page_tails {b}. mem P' a = mem P a"
    using assms slot_bytes_tails unfolding appended_def by blast
qed

definition entry_low :: "nat \<Rightarrow> nat \<Rightarrow> nat" where
  "entry_low cpuid low = (if cpuid = 0 then low else low OR (push_bit 56 cpuid mod 2 ^ 64))"

definition log_room :: "nova_env \<Rightarrow> pm \<Rightarrow> nat list \<Rightarrow> bool" where
  "log_room E P bs \<longleftrightarrow> good_media E \<and> page_seg P (4096 * hd bs) bs 0 \<and> distinct bs \<and> (\<forall>b \<in> set bs. b < 2 ^ 32)"

lemma entry_low_less: "low < 2 ^ 64 \<Longrightarrow> entry_low cpuid low < 2 ^ 64"
proof -
  assume low: "low < 2 ^ 64"
  define x where "x = push_bit 56 cpuid mod 2 ^ 64"
  have "take_bit 64 x = x" "take_bit 64 low = low" using low by (simp_all add: take_bit_nat_eq_self_iff x_def)
  then have "take_bit 64 (low OR x) = low OR x" by (simp add: take_bit_or)
  then have "low OR x < 2 ^ 64" using take_bit_nat_eq_self_iff by blast
  then show ?thesis using low by (simp add: entry_low_def x_def)
qed

lemma put_over: "length xs = length ys \<Longrightarrow> put a xs (put a ys m) = put a xs m"
  by (rule ext) (simp add: put_def)

lemma append_entry_ok:
  assumes room: "log_room E P bs" "k < 254 * length bs"
    and n: "nova_range_node_checksum_ok E n" "range_low n < 2 ^ 64" "range_high n < 2 ^ 64"
  shows "\<exists>P'. nova_append_range_node_entry E n (tail_at bs k) cpuid P = (P', slot bs k) \<and>
    appended P bs k [(entry_low cpuid (range_low n), range_high n)] P'"
proof -
  have seg: "good_media E" "page_seg P (4096 * hd bs) bs 0" using room(1) by (simp_all add: log_room_def)
  note t = tail_step [OF seg room(2)]
  let ?a = "slot bs k" and ?l = "entry_low cpuid (range_low n)"
  obtain P' where P': "nova_append_range_node_entry E n (tail_at bs k) cpuid P = (P', ?a)"
    "mem P' = put (?a + 8) (le_bytes 8 (range_high n)) (put ?a (le_bytes 8 ?l) (mem P))"
  proof -
    have "\<exists>P'. nova_append_range_node_entry E n (tail_at bs k) cpuid P = (P', ?a) \<and>
      mem P' = put (?a + 8) (le_bytes 8 (range_high n)) (put ?a (le_bytes 8 ?l) (mem P))"
      using t n(1,2)
      by (auto simp: nova_append_range_node_entry_def Let_def entry_low_def get_field_def read_le_def
          le_nat_le_bytes put_over split: if_splits)
    then show ?thesis using that by blast
  qed
  have "entry_at P' ?a = (?l, range_high n)"
    using n(2,3) entry_low_less by (simp add: entry_at_def get_field_def read_le_def P'(2) get_put_other le_nat_le_bytes)
  then show ?thesis using P' by (auto simp: appended_def slot_bytes_def put_def)
qed

lemma log_room_appended: "appended P bs k es P' \<Longrightarrow> log_room E P' bs = log_room E P bs"
  by (simp add: log_room_def appended_seg)

lemma tail_Suc:
  assumes "log_room E P bs" "k < 254 * length bs"
  shows "u64_add (slot bs k) 16 = tail_at bs (Suc k)"
proof -
  have "k div 254 < length bs" using assms(2) by (simp add: less_mult_imp_div_less mult.commute)
  then have "bs ! (k div 254) < 2 ^ 32" using assms(1) by (simp add: log_room_def)
  moreover have "k mod 254 < 254" by simp
  ultimately show ?thesis by (simp add: tail_at_def slot_def u64_add_def)
qed

text \<open>The nodes of one tree.\<close>

definition writable :: "nova_env \<Rightarrow> slab \<Rightarrow> ptr list \<Rightarrow> bool" where
  "writable E s ps \<longleftrightarrow> list_all (\<lambda>p. node_ok E s p \<and> fst (span s p) < 2 ^ 64 \<and> snd (span s p) < 2 ^ 64) ps"

definition entries_of :: "nat \<Rightarrow> slab \<Rightarrow> ptr list \<Rightarrow> blk_range list" where
  "entries_of cpuid s ps = map (\<lambda>p. (entry_low cpuid (fst (span s p)), snd (span s p))) ps"

lemma entries_of_node_of: "node_of s' = node_of s \<Longrightarrow> entries_of c s' ps = entries_of c s ps \<and> writable E s' ps = writable E s ps"
  by (simp add: entries_of_def writable_def span_def node_ok_def)

lemma node_of_free [simp]: "node_of (nova_free_range_node s p) = node_of s"
  by (simp add: nova_free_range_node_def)

lemma save_nodes_ok:
  assumes "log_room E P bs" "k + length ps \<le> 254 * length bs" "writable E s ps"
  shows "\<exists>s' t' P'. save_nodes E cpuid ps s t (tail_at bs k) P = (s', t', tail_at bs (k + length ps), P') \<and>
    node_of s' = node_of s \<and> appended P bs k (entries_of cpuid s ps) P'"
  using assms
proof (induction ps arbitrary: s t k P)
  case Nil
  then show ?case by (simp add: entries_of_def appended_Nil)
next
  case (Cons p ps)
  have k: "k < 254 * length bs" "Suc k + length ps \<le> 254 * length bs" using Cons.prems(2) by simp_all
  let ?e = "(entry_low cpuid (range_low (node_of s p)), range_high (node_of s p))" and ?s = "nova_free_range_node s p"
  obtain P1 where a: "nova_append_range_node_entry E (node_of s p) (tail_at bs k) cpuid P = (P1, slot bs k)"
    "appended P bs k [?e] P1"
    using append_entry_ok [OF Cons.prems(1) k(1), of "node_of s p" cpuid] Cons.prems(3)
    by (auto simp: writable_def node_ok_def span_def)
  have w: "writable E ?s ps" "entries_of cpuid ?s ps = entries_of cpuid s ps"
    using Cons.prems(3) entries_of_node_of [of ?s s] by (simp_all add: writable_def)
  have "log_room E P1 bs" using Cons.prems(1) log_room_appended [OF a(2)] by simp
  from Cons.IH [OF this k(2) w(1), of "rb_erase E p t"] obtain s' t' P' where
    r: "save_nodes E cpuid ps ?s (rb_erase E p t) (tail_at bs (Suc k)) P1 = (s', t', tail_at bs (Suc k + length ps), P')"
    "node_of s' = node_of s" "appended P1 bs (Suc k) (entries_of cpuid s ps) P'"
    using w(2) by auto
  have "appended P bs k ([?e] @ entries_of cpuid s ps) P'"
    using appended_append [OF a(2), of "entries_of cpuid s ps" P'] r(3) Cons.prems(1) k(2)
    by (simp add: log_room_def entries_of_def)
  moreover have "[?e] @ entries_of cpuid s ps = entries_of cpuid s (p # ps)" by (simp add: entries_of_def span_def)
  moreover have "save_nodes E cpuid (p # ps) s t (tail_at bs k) P = (s', t', tail_at bs (k + length (p # ps)), P')"
    using a(1) r(1) tail_Suc [OF Cons.prems(1) k(1)] by simp
  ultimately show ?case using r(2) by auto
qed

subsection \<open>The loop over the CPUs\<close>

text \<open>
  What the loop needs of the function that saves the nodes of one CPU: it writes the entries of
  that CPU behind the tail and leaves the other CPUs' nodes alone.
\<close>

locale range_saver =
  fixes E :: nova_env and save :: "nat \<Rightarrow> sb_info \<Rightarrow> nat \<Rightarrow> sb_info \<times> nat res"
    and ready :: "sb_info \<Rightarrow> nat \<Rightarrow> bool" and entries :: "sb_info \<Rightarrow> nat \<Rightarrow> blk_range list"
  assumes save_one: "log_room E (pmem sbi) bs \<Longrightarrow> k + length (entries sbi i) \<le> 254 * length bs \<Longrightarrow> ready sbi i \<Longrightarrow>
      \<exists>sbi'. save i sbi (tail_at bs k) = (sbi', Inr (tail_at bs (k + length (entries sbi i)))) \<and>
        appended (pmem sbi) bs k (entries sbi i) (pmem sbi') \<and>
        (\<forall>j. j \<noteq> i \<longrightarrow> ready sbi j \<longrightarrow> ready sbi' j \<and> entries sbi' j = entries sbi j)"
begin

lemma save_all_ok:
  assumes "log_room E (pmem sbi) bs" "k + length (concat (map (entries sbi) is)) \<le> 254 * length bs"
    "distinct is" "\<forall>i \<in> set is. ready sbi i"
  shows "\<exists>sbi'. save_all save is sbi (tail_at bs k) =
      (sbi', Inr (tail_at bs (k + length (concat (map (entries sbi) is))))) \<and>
    appended (pmem sbi) bs k (concat (map (entries sbi) is)) (pmem sbi')"
  using assms
proof (induction "is" arbitrary: k sbi)
  case Nil
  then show ?case by (simp add: appended_Nil)
next
  case (Cons i "is")
  let ?n = "length (entries sbi i)"
  obtain sbi1 where s: "save i sbi (tail_at bs k) = (sbi1, Inr (tail_at bs (k + ?n)))"
    "appended (pmem sbi) bs k (entries sbi i) (pmem sbi1)"
    "\<forall>j. j \<noteq> i \<longrightarrow> ready sbi j \<longrightarrow> ready sbi1 j \<and> entries sbi1 j = entries sbi j"
    using save_one [OF Cons.prems(1), of k i] Cons.prems(2,4) by auto
  have eq: "map (entries sbi1) is = map (entries sbi) is" and rd: "\<forall>j \<in> set is. ready sbi1 j"
    using s(3) Cons.prems(3,4) by auto
  have "log_room E (pmem sbi1) bs" using Cons.prems(1) log_room_appended [OF s(2)] by simp
  from Cons.IH [OF this, of "k + ?n"] obtain sbi' where
    r: "save_all save is sbi1 (tail_at bs (k + ?n)) = (sbi', Inr (tail_at bs (k + ?n + length (concat (map (entries sbi) is)))))"
    "appended (pmem sbi1) bs (k + ?n) (concat (map (entries sbi) is)) (pmem sbi')"
    using Cons.prems(2,3) rd eq by auto
  have "appended (pmem sbi) bs k (concat (map (entries sbi) (i # is))) (pmem sbi')"
    using appended_append [OF s(2) r(2)] Cons.prems(1,2) by (simp add: log_room_def)
  then show ?case using s(1) r(1) by (auto simp: add.assoc)
qed

end

definition list_ready :: "nova_env \<Rightarrow> sb_info \<Rightarrow> nat \<Rightarrow> bool" where
  "list_ready E sbi i \<longleftrightarrow> i < length (free_lists sbi) \<and> writable E (nodes sbi) (fl_nodes (free_lists sbi ! i))"

definition list_entries :: "sb_info \<Rightarrow> nat \<Rightarrow> blk_range list" where
  "list_entries sbi i = entries_of 0 (nodes sbi) (fl_nodes (free_lists sbi ! i))"

interpretation list_saver: range_saver E "nova_save_free_list_blocknodes E" "list_ready E" list_entries for E
proof
  fix sbi bs k i
  assume a: "log_room E (pmem sbi) bs" "k + length (list_entries sbi i) \<le> 254 * length bs" "list_ready E sbi i"
  let ?fl = "free_lists sbi ! i"
  obtain s t P where r: "save_nodes E 0 (fl_nodes ?fl) (nodes sbi) (block_free_tree ?fl) (tail_at bs k) (pmem sbi) =
      (s, t, tail_at bs (k + length (fl_nodes ?fl)), P)" "node_of s = node_of (nodes sbi)"
    "appended (pmem sbi) bs k (list_entries sbi i) P"
    using save_nodes_ok [OF a(1), of k "fl_nodes ?fl" "nodes sbi" 0 "block_free_tree ?fl"] a(2,3)
    by (auto simp: list_entries_def list_ready_def entries_of_def)
  let ?sbi = "(set_free_list (int i) (?fl\<lparr>block_free_tree := t\<rparr>) s sbi)\<lparr>pmem := P\<rparr>"
  have "nova_save_free_list_blocknodes E i sbi (tail_at bs k) = (?sbi, Inr (tail_at bs (k + length (list_entries sbi i))))"
    using a(3) r(1) by (simp add: nova_save_free_list_blocknodes_def nova_save_range_nodes_to_log_def list_ready_def
        get_free_list_nth fl_nodes_def list_entries_def entries_of_def)
  moreover have "list_ready E ?sbi j \<and> list_entries ?sbi j = list_entries sbi j" if "j \<noteq> i" "list_ready E sbi j" for j
    using that entries_of_node_of [OF r(2)] by (simp add: list_ready_def list_entries_def set_free_list_def)
  ultimately show "\<exists>sbi'. nova_save_free_list_blocknodes E i sbi (tail_at bs k) =
      (sbi', Inr (tail_at bs (k + length (list_entries sbi i)))) \<and>
      appended (pmem sbi) bs k (list_entries sbi i) (pmem sbi') \<and>
      (\<forall>j. j \<noteq> i \<longrightarrow> list_ready E sbi j \<longrightarrow> list_ready E sbi' j \<and> list_entries sbi' j = list_entries sbi j)"
    using r(3) by (intro exI [of _ ?sbi]) auto
qed

definition map_ready :: "nova_env \<Rightarrow> sb_info \<Rightarrow> nat \<Rightarrow> bool" where
  "map_ready E sbi i \<longleftrightarrow>
     i < length (inode_maps sbi) \<and> writable E (nodes sbi) (inorder (inode_inuse_tree (inode_maps sbi ! i)))"

definition map_entries :: "sb_info \<Rightarrow> nat \<Rightarrow> blk_range list" where
  "map_entries sbi i = entries_of i (nodes sbi) (inorder (inode_inuse_tree (inode_maps sbi ! i)))"

interpretation map_saver: range_saver E "save_inode_map E" "map_ready E" map_entries for E
proof
  fix sbi bs k i
  assume a: "log_room E (pmem sbi) bs" "k + length (map_entries sbi i) \<le> 254 * length bs" "map_ready E sbi i"
  let ?im = "inode_maps sbi ! i"
  let ?t = "inode_inuse_tree ?im"
  obtain s t P where r: "save_nodes E i (inorder ?t) (nodes sbi) ?t (tail_at bs k) (pmem sbi) =
      (s, t, tail_at bs (k + length (inorder ?t)), P)" "node_of s = node_of (nodes sbi)"
    "appended (pmem sbi) bs k (map_entries sbi i) P"
    using save_nodes_ok [OF a(1), of k "inorder ?t" "nodes sbi" i ?t] a(2,3)
    by (auto simp: map_entries_def map_ready_def entries_of_def)
  let ?sbi = "(set_inode_map i (?im\<lparr>inode_inuse_tree := t\<rparr>) s sbi)\<lparr>pmem := P\<rparr>"
  have "save_inode_map E i sbi (tail_at bs k) = (?sbi, Inr (tail_at bs (k + length (map_entries sbi i))))"
    using a(3) r(1) by (simp add: save_inode_map_def nova_save_range_nodes_to_log_def map_ready_def
        get_inode_map_def map_entries_def entries_of_def)
  moreover have "map_ready E ?sbi j \<and> map_entries ?sbi j = map_entries sbi j" if "j \<noteq> i" "map_ready E sbi j" for j
    using that entries_of_node_of [OF r(2)] by (simp add: map_ready_def map_entries_def set_inode_map_def)
  ultimately show "\<exists>sbi'. save_inode_map E i sbi (tail_at bs k) =
      (sbi', Inr (tail_at bs (k + length (map_entries sbi i)))) \<and>
      appended (pmem sbi) bs k (map_entries sbi i) (pmem sbi') \<and>
      (\<forall>j. j \<noteq> i \<longrightarrow> map_ready E sbi j \<longrightarrow> map_ready E sbi' j \<and> map_entries sbi' j = map_entries sbi j)"
    using r(3) by (intro exI [of _ ?sbi]) auto
qed

subsection \<open>A saved map\<close>

definition inode_apart :: "nat \<Rightarrow> nat \<Rightarrow> bool" where
  "inode_apart pi b \<longleftrightarrow> {pi..<pi + 120} \<inter> {4096 * b..<4096 * b + 4096} = {}"

definition log_holds :: "pm \<Rightarrow> nat \<Rightarrow> nat list \<Rightarrow> blk_range list \<Rightarrow> bool" where
  "log_holds P pi bs es \<longleftrightarrow>
     page_seg P (4096 * hd bs) bs 0 \<and> get_field nova_inode I_log_head pi P = 4096 * hd bs \<and>
     get_field nova_inode I_log_tail pi P = tail_at bs (length es) \<and> get_field nova_inode I_alter_log_head pi P = 0 \<and>
     (\<forall>i < length es. entry_at P (slot bs i) = es ! i)"

lemma slot_bytes_block:
  "k < 254 * length bs \<Longrightarrow> a \<in> slot_bytes bs k \<Longrightarrow> \<exists>b \<in> set bs. 4096 * b \<le> a \<and> a < 4096 * b + 4096"
proof -
  assume k: "k < 254 * length bs" and a: "a \<in> slot_bytes bs k"
  have "k div 254 < length bs" using k by (simp add: less_mult_imp_div_less mult.commute)
  then have "a div 4096 \<in> set bs" using slot_bytes_page(1) [OF a] by simp
  moreover have "4096 * (a div 4096) \<le> a" "a < 4096 * (a div 4096) + 4096" by simp_all
  ultimately show ?thesis by blast
qed

lemma finish_save_fields:
  assumes "h < 2 ^ 64" "t < 2 ^ 64"
  shows "get_field nova_inode I_log_head pi (finish_save E pi h t P) = h"
    "get_field nova_inode I_log_tail pi (finish_save E pi h t P) = t"
    "get_field nova_inode I_alter_log_head pi (finish_save E pi h t P) = 0"
    "get_field nova_inode I_blk_type pi (finish_save E pi h t P) = get_field nova_inode I_blk_type pi P"
  using assms
  by (simp_all add: finish_save_def nova_update_tail_def Let_def get_field_def read_le_def get_put_other le_nat_le_bytes)

lemma finish_save_frame: "a \<notin> {pi..<pi + 120} \<Longrightarrow> mem (finish_save E pi h t P) a = mem P a"
  by (auto simp: finish_save_def nova_update_tail_def Let_def put_def)

lemma finish_save_holds:
  assumes room: "log_room E P bs" and fit: "length es \<le> 254 * length bs" "bs \<noteq> []"
    and ap: "\<forall>b \<in> set bs. inode_apart pi b" and es: "\<forall>i < length es. entry_at P (slot bs i) = es ! i"
  shows "log_holds (finish_save E pi (4096 * hd bs) (tail_at bs (length es)) P) pi bs es"
proof -
  let ?P = "finish_save E pi (4096 * hd bs) (tail_at bs (length es)) P"
  have out: "mem ?P a = mem P a" if "\<exists>b \<in> set bs. 4096 * b \<le> a \<and> a < 4096 * b + 4096" for a
    using that ap by (intro finish_save_frame) (auto simp: inode_apart_def)
  have "hd bs < 2 ^ 32" using room fit(2) by (simp add: log_room_def)
  then have small: "4096 * hd bs < 2 ^ 64" by simp
  moreover have "tail_at bs (length es) < 2 ^ 64"
  proof (cases "length es")
    case (Suc j)
    then have j: "j < 254 * length bs" using fit(1) by simp
    then have "tail_at bs (length es) = u64_add (slot bs j) 16" using tail_Suc [OF room j] Suc by simp
    then show ?thesis by (simp add: u64_add_def)
  qed (use small in \<open>simp add: tail_at_def\<close>)
  moreover have "page_seg ?P (4096 * hd bs) bs 0 = page_seg P (4096 * hd bs) bs 0"
  proof (rule page_seg_cong, rule page_link_frame, rule ballI)
    fix b a
    assume "b \<in> set bs" "a \<in> page_tails {b}"
    then show "mem ?P a = mem P a" by (intro out bexI [of _ b]) (auto simp: page_tails_def)
  qed
  moreover have "entry_at ?P (slot bs i) = entry_at P (slot bs i)" if "i < length es" for i
    using that fit(1) slot_bytes_block [of i bs] out by (intro entry_at_cong) (simp add: slot_bytes_def)
  ultimately show ?thesis using finish_save_fields room es by (simp add: log_holds_def log_room_def)
qed

context range_saver
begin

lemma save_to_log_ok:
  assumes inv: "store_inv (E, sbi)" "good_media E" and num: "0 < num" "num < 2 ^ 31"
    and al: "nova_allocate_inode_log_pages E smp sbi 0 num 0 ANY_CPU ALLOC_FROM_HEAD = Some (sbi1, Inr (int num), nb)"
    and rd: "\<forall>i < cpus sbi1. ready sbi1 i"
    and fit: "length (concat (map (entries sbi1) [0..<cpus sbi1])) \<le> 254 * num"
    and ap: "\<forall>b \<in> all_free sbi. inode_apart pi b"
  shows "\<exists>sbi2 bs. save_to_log E smp pi num save sbi = Some (sbi2, Inr ()) \<and> pages_taken E sbi bs sbi1 \<and>
    length bs = num \<and> log_holds (pmem sbi2) pi bs (concat (map (entries sbi1) [0..<cpus sbi1])) \<and>
    get_field nova_inode I_blk_type pi (pmem sbi2) = get_field nova_inode I_blk_type pi (pmem sbi)"
proof -
  let ?es = "concat (map (entries sbi1) [0..<cpus sbi1])"
  obtain bs where bs: "nb = 4096 * hd bs" "bs \<noteq> []" "length bs = num" "pages_taken E sbi bs sbi1"
    "page_seg (pmem sbi1) (4096 * hd bs) bs 0" "only_tails (set bs) (pmem sbi) (pmem sbi1)"
    using allocate_log_pages_ok [OF inv(1) num, of smp 0 ALLOC_FROM_HEAD] al by auto
  have free: "b \<in> all_free sbi" if "b \<in> set bs" for b using bs(4) that by (auto simp: pages_taken_def)
  have li: "lists_inv E sbi" using inv(1) by (simp add: store_inv_def)
  have room: "log_room E (pmem sbi1) bs"
    using inv(2) bs(4,5) free_block_bounds(2) [OF li free] by (simp add: log_room_def pages_taken_def)
  from save_all_ok [OF room, of 0 "[0..<cpus sbi1]"] obtain sbi2 where
    s: "save_all save [0..<cpus sbi1] sbi1 (4096 * hd bs) = (sbi2, Inr (tail_at bs (length ?es)))"
    "appended (pmem sbi1) bs 0 ?es (pmem sbi2)"
    using fit rd bs(3) by (auto simp: tail_at_def)
  let ?P = "finish_save E pi (4096 * hd bs) (tail_at bs (length ?es)) (pmem sbi2)"
  have apb: "\<forall>b \<in> set bs. inode_apart pi b" using ap free by blast
  have hold: "log_holds ?P pi bs ?es"
    using finish_save_holds [of E "pmem sbi2" bs ?es pi] log_room_appended [OF s(2)] room fit bs(2,3) apb s(2)
    by (simp add: appended_def)
  have out: "mem (pmem sbi2) a = mem (pmem sbi) a" if a: "a \<in> {pi..<pi + 120}" for a
  proof -
    have "\<not> (4096 * b \<le> a \<and> a < 4096 * b + 4096)" if "b \<in> set bs" for b
      using apb that a by (auto simp: inode_apart_def)
    then have n: "\<not> (\<exists>b \<in> set bs. 4096 * b \<le> a \<and> a < 4096 * b + 4096)" by blast
    then have "a \<notin> slot_bytes bs i" if "i < length ?es" for i
      using slot_bytes_block [of i bs a] that fit bs(3) by auto
    moreover have "a \<notin> page_tails (set bs)" using n by (auto simp: page_tails_def)
    ultimately show ?thesis using s(2) bs(6) by (simp add: appended_def only_tails_def)
  qed
  have "get_field nova_inode I_blk_type pi ?P = get_field nova_inode I_blk_type pi (pmem sbi2)"
    using hold unfolding log_holds_def by (simp add: finish_save_def nova_update_tail_def Let_def get_field_def read_le_def get_put_other)
  also have "\<dots> = get_field nova_inode I_blk_type pi (pmem sbi)"
    using out [of "pi + 3"] by (simp add: get_field_def read_le_def get_bytes_def upt_rec [of "pi + 3"])
  finally have "get_field nova_inode I_blk_type pi ?P = get_field nova_inode I_blk_type pi (pmem sbi)" .
  moreover have "save_to_log E smp pi num save sbi = Some (sbi2\<lparr>pmem := ?P\<rparr>, Inr ())"
    using al s(1) num bs(1) by (simp add: save_to_log_def NOVA_DEFAULT_BLOCK_TYPE_def u64_of_int_def)
  ultimately show ?thesis using bs(3,4) hold by (intro exI [of _ "sbi2\<lparr>pmem := ?P\<rparr>"] exI [of _ bs]) simp
qed

end

end
