(* ===== verification/Range_Log_Props.thy ===== *)
theory Range_Log_Props
  imports Range_Log_Inv
begin

text \<open>
  Unmounting and mounting again: the free lists that are read back from the log have exactly the
  free blocks there were, the pages of the log included.
\<close>

subsection \<open>Reading the entries\<close>

lemma tail_inj:
  assumes "distinct bs" "j \<le> 254 * length bs" "k \<le> 254 * length bs" "tail_at bs j = tail_at bs k"
  shows "j = k"
proof -
  have "tail_at bs i mod 4096 = 0 \<longleftrightarrow> i = 0" for i unfolding tail_mod by simp
  then have z: "j = 0 \<longleftrightarrow> k = 0" using assms(4) by metis
  show ?thesis
  proof (cases "j = 0")
    case True
    then show ?thesis using z by simp
  next
    case False
    then have "slot bs (j - 1) = slot bs (k - 1)" using assms(4) z by (simp add: tail_at_def)
    then have "slot bs (j - 1) \<in> slot_bytes bs (j - 1)" "slot bs (j - 1) \<in> slot_bytes bs (k - 1)"
      by (simp_all add: slot_bytes_def)
    moreover have "j - 1 < 254 * length bs" "k - 1 < 254 * length bs" using False z assms(2,3) by linarith+
    ultimately have "j - 1 = k - 1" using entry_slots_apart [OF assms(1)] by blast
    then show ?thesis using False z by simp
  qed
qed

lemma in_list_cpuid:
  assumes "lists_inv E sbi" "i < cpus sbi" "in_list sbi i b"
  shows "get_block_cpuid sbi b = int i"
proof -
  have "per_list_blocks sbi * i \<le> b \<and> b < per_list_blocks sbi * Suc i"
    using assms by (force simp: lists_inv_def list_bounds_def in_list_def)
  then have "b div per_list_blocks sbi = i" by (intro div_nat_eqI) (simp_all add: mult.commute)
  moreover have "i < 2 ^ 31" using assms by (auto simp: lists_inv_def)
  ultimately show ?thesis by (simp add: get_block_cpuid_def)
qed

lemma load_blocknode_insert:
  assumes inv: "store_inv (E, sbi)" and i: "i < cpus sbi" "in_list sbi i low"
    and e: "entry_at (pmem sbi) a = (low, high)"
    and ins: "nova_insert_blocknode_map E sbi i low high = (sbi', Inr ())"
  shows "load_blocknode E sbi a = (sbi', Inr ())"
proof -
  let ?fl = "free_lists sbi ! i"
  have l: "lists_inv E sbi" using inv by (simp add: store_inv_def)
  have len: "i < length (free_lists sbi)" and fi: "free_list_inv E (nodes sbi) ?fl" using l i(1) by (auto simp: lists_inv_def)
  have first: "(if u64_add (num_blocknode ?fl) 1 = 1 then Some p else first_node ?fl) =
      (if first_node ?fl = None then Some p else first_node ?fl)" for p
    using fi free_list_counts(3) [OF fi]
    by (cases "fl_nodes ?fl") (auto simp: free_list_inv_def hd_option_def u64_add_def)
  obtain s p where al: "nova_alloc_blocknode E (nodes sbi) = (s, Some p)"
    using ins get_free_list_nth [OF len]
    by (auto simp: nova_insert_blocknode_map_def Let_def split: prod.splits option.splits)
  let ?s = "nova_update_range_node_checksum E p (set_high p high (set_low p low s))"
  obtain t where t: "nova_insert_blocktree E ?s (block_free_tree ?fl) p = Inr t"
    using ins get_free_list_nth [OF len] al by (auto simp: nova_insert_blocknode_map_def Let_def split: sum.splits)
  have field: "get_field nova_range_node_lowhigh R_low a (pmem sbi) = low" "get_field nova_range_node_lowhigh R_high a (pmem sbi) = high"
    using e by (simp_all add: entry_at_def)
  show ?thesis
    using ins get_free_list_nth [OF len] al t in_list_cpuid [OF l i]
    by (simp add: load_blocknode_def nova_insert_blocknode_map_def Let_def field first [unfolded One_nat_def])
qed

definition loaded :: "nova_env \<Rightarrow> sb_info \<Rightarrow> blk_range list \<Rightarrow> nat \<Rightarrow> sb_info \<Rightarrow> bool" where
  "loaded E m es k sbi \<longleftrightarrow> store_inv (E, sbi) \<and> same_bounds m sbi \<and> all_free sbi = blocks_of (take k es)"

definition entries_fit :: "sb_info \<Rightarrow> blk_range list \<Rightarrow> bool" where
  "entries_fit sbi es \<longleftrightarrow>
     ranges_ok es \<and> (\<forall>e \<in> set es. \<exists>i < cpus sbi. in_list sbi i (fst e) \<and> in_list sbi i (snd e))"

lemma load_entry:
  assumes ld: "loaded E m es k sbi" and k: "k < length es" and fit: "entries_fit m es"
    and e: "entry_at (pmem sbi) a = es ! k"
  shows "\<exists>sbi'. load_blocknode E sbi a = (sbi', Inr ()) \<and> loaded E m es (Suc k) sbi'"
proof -
  have st: "store_inv (E, sbi)" "same_bounds m sbi" "all_free sbi = blocks_of (take k es)" using ld by (simp_all add: loaded_def)
  obtain low high where lh: "es ! k = (low, high)" by fastforce
  have ek: "es ! k \<in> set es" using k by simp
  obtain i where i: "i < cpus m" "in_list m i low" "in_list m i high"
    using fit ek lh by (fastforce simp: entries_fit_def)
  then have i': "i < cpus sbi" "in_list sbi i low" "in_list sbi i high"
    using st(2) same_bounds_in_list [OF st(2)] by (auto simp: same_bounds_def)
  have li: "lists_inv E sbi" using st(1) by (simp add: store_inv_def)
  have "low \<le> high" using fit ranges_ok_le [of es "es ! k"] ek lh by (simp add: entries_fit_def)
  moreover have "es = take k es @ es ! k # drop (Suc k) es" using k by (simp add: id_take_nth_drop)
  then have before: "snd r < low" if "r \<in> set (take k es)" for r
    using fit lh that unfolding entries_fit_def by (metis ranges_ok_append list.set_intros(1) fst_conv)
  have "\<forall>b \<in> free_set (nodes sbi) (free_lists sbi ! i). b < low"
  proof
    fix b
    assume "b \<in> free_set (nodes sbi) (free_lists sbi ! i)"
    then have "b \<in> blocks_of (take k es)" using all_free_in_list [OF li i'(1)] st(3) by auto
    then show "b < low" using before by (fastforce simp: in_blocks_of)
  qed
  ultimately obtain sbi' where s: "nova_insert_blocknode_map E sbi i low high = (sbi', Inr ())" "store_inv (E, sbi')"
    "all_free sbi' = all_free sbi \<union> {low..high}" "same_bounds sbi sbi'"
    using insert_blocknode_map_ok [OF st(1) i'(1) _ i'(2,3)] by blast
  have "blocks_of (take (Suc k) es) = blocks_of (take k es) \<union> {low..high}"
    using k lh by (simp add: take_Suc_conv_app_nth range_simps)
  then have "loaded E m es (Suc k) sbi'" using s(2-4) st same_bounds_trans by (auto simp: loaded_def)
  then show ?thesis using load_blocknode_insert [OF st(1) i'(1,2) _ s(1)] e lh by auto
qed

lemma load_blocknodes_ok:
  assumes room: "log_room E (pmem m) bs" and es: "\<forall>i < length es. entry_at (pmem m) (slot bs i) = es ! i"
    and fits: "length es \<le> 254 * length bs" "entries_fit m es"
  shows "k \<le> length es \<Longrightarrow> loaded E m es k sbi \<Longrightarrow>
    \<exists>sbi'. load_blocknodes E (tail_at bs (length es)) (tail_at bs k) sbi = Some (sbi', Inr ()) \<and>
      loaded E m es (length es) sbi'"
proof (induction "length es - k" arbitrary: k sbi)
  case 0
  then show ?case by (subst load_blocknodes.simps) simp
next
  case (Suc n)
  have k: "k < length es" "k < 254 * length bs" using Suc.hyps(2) fits(1) by simp_all
  have pm: "pmem sbi = pmem m" using Suc.prems(2) by (simp add: loaded_def same_bounds_def)
  have rm: "good_media E" "page_seg (pmem m) (4096 * hd bs) bs 0" "distinct bs" using room by (simp_all add: log_room_def)
  note t = tail_step [OF rm(1,2) k(2)]
  have ne: "tail_at bs k \<noteq> tail_at bs (length es)" using tail_inj [OF rm(3), of k "length es"] k fits(1) by auto
  obtain sbi1 where s: "load_blocknode E sbi (slot bs k) = (sbi1, Inr ())" "loaded E m es (Suc k) sbi1"
    using load_entry [OF Suc.prems(2) k(1) fits(2), of "slot bs k"] es k(1) pm by auto
  have "n = length es - Suc k" "Suc k \<le> length es" using Suc.hyps(2) k(1) by simp_all
  from Suc.hyps(1) [OF this s(2)] obtain sbi' where
    r: "load_blocknodes E (tail_at bs (length es)) (tail_at bs (Suc k)) sbi1 = Some (sbi', Inr ())"
    "loaded E m es (length es) sbi'" by auto
  have "load_blocknodes E (tail_at bs (length es)) (tail_at bs k) sbi = Some (sbi', Inr ())"
    using ne t s(1) r(1) tail_Suc [OF room k(2)] pm by (subst load_blocknodes.simps) (auto simp: Let_def split: if_splits)
  then show ?case using r(2) by blast
qed

subsection \<open>What is saved\<close>

definition saved_entries :: "sb_info \<Rightarrow> blk_range list" where
  "saved_entries sbi = concat (map (list_entries sbi) [0..<cpus sbi])"

lemma ranges_concat:
  assumes "\<forall>i < n. ranges_ok (f i) \<and> (\<forall>e \<in> set (f i). c * i \<le> fst e \<and> snd e < c * Suc i)"
  shows "ranges_ok (concat (map f [0..<n]))"
  using assms
proof (induction n)
  case (Suc n)
  have "snd a < fst b" if "i < n" "a \<in> set (f i)" "b \<in> set (f n)" for a b i
  proof -
    have "snd a < c * Suc i" "c * n \<le> fst b" using Suc.prems that by auto
    moreover have "c * Suc i \<le> c * n" using that(1) by (intro mult_le_mono2) simp
    ultimately show ?thesis by linarith
  qed
  then show ?case using Suc by (auto simp: ranges_ok_append)
qed simp

lemma list_entries_span: "list_entries sbi i = map (span (nodes sbi)) (fl_nodes (free_lists sbi ! i))"
  by (simp add: list_entries_def entries_of_def entry_low_def)

lemma saved_entries_ok:
  assumes inv: "lists_inv E sbi"
  shows "entries_fit sbi (saved_entries sbi)" "blocks_of (saved_entries sbi) = all_free sbi"
    "length (saved_entries sbi) = node_total sbi" "\<forall>i < cpus sbi. list_ready E sbi i"
proof -
  have len: "length (free_lists sbi) = cpus sbi" using inv by (simp add: lists_inv_def)
  have fi: "free_list_inv E (nodes sbi) (free_lists sbi ! i)" "list_bounds sbi i" if "i < cpus sbi" for i
    using inv that by (auto simp: lists_inv_def)
  have node: "in_list sbi i (fst e) \<and> in_list sbi i (snd e) \<and> snd e < 2 ^ 32 \<and> fst e \<le> snd e"
    if i: "i < cpus sbi" and e: "e \<in> set (list_entries sbi i)" for i e
  proof -
    obtain p where p: "p \<in> set (fl_nodes (free_lists sbi ! i))" "e = span (nodes sbi) p" using e by (auto simp: list_entries_span)
    note n = free_list_node [OF fi(1) [OF i] p(1)]
    then have "{fst e, snd e} \<subseteq> free_set (nodes sbi) (free_lists sbi ! i)" using p(2) by auto
    then show ?thesis using fi(1) [OF i] n p(2) by (auto simp: free_list_inv_def in_list_def)
  qed
  have "ranges_ok (list_entries sbi i)" if "i < cpus sbi" for i
    using fi(1) [OF that] by (simp add: list_entries_span free_list_inv_def nodes_inv_def)
  moreover have "per_list_blocks sbi * i \<le> fst e \<and> snd e < per_list_blocks sbi * Suc i"
    if "i < cpus sbi" "e \<in> set (list_entries sbi i)" for i e
    using node [OF that] fi(2) [OF that(1)] by (simp add: list_bounds_def in_list_def)
  ultimately have "ranges_ok (saved_entries sbi)" unfolding saved_entries_def by (intro ranges_concat) blast
  then show "entries_fit sbi (saved_entries sbi)" using node by (auto simp: entries_fit_def saved_entries_def)
  show "blocks_of (saved_entries sbi) = all_free sbi"
    by (auto simp: saved_entries_def all_free_def len free_set_blocks list_entries_span blocks_of_def)
  have "length (list_entries sbi i) = num_blocknode (free_lists sbi ! i)" if "i < cpus sbi" for i
    using fi(1) [OF that] by (simp add: list_entries_span free_list_inv_def)
  then have "map (length \<circ> list_entries sbi) [0..<cpus sbi] = map num_blocknode (free_lists sbi)"
    by (intro nth_equalityI) (simp_all add: len)
  then show "length (saved_entries sbi) = node_total sbi" by (simp add: saved_entries_def length_concat node_total_def)
  show "\<forall>i < cpus sbi. list_ready E sbi i"
  proof (intro allI impI)
    fix i
    assume i: "i < cpus sbi"
    have "fst (span (nodes sbi) p) < 2 ^ 64 \<and> snd (span (nodes sbi) p) < 2 ^ 64" if "p \<in> set (fl_nodes (free_lists sbi ! i))" for p
      using node [OF i, of "span (nodes sbi) p"] that by (auto simp: list_entries_span)
    then show "list_ready E sbi i"
      using fi(1) [OF i] i by (simp add: list_ready_def len writable_def list_all_iff free_list_inv_def nodes_inv_def)
  qed
qed

lemma foldl_u64_add:
  "k < 2 ^ 64 \<Longrightarrow> foldl (\<lambda>n x. u64_add n (f x)) k xs = (k + sum_list (map f xs)) mod 2 ^ 64"
proof (induction xs arbitrary: k)
  case (Cons x xs)
  then show ?case by (simp add: u64_add_def mod_add_left_eq add.assoc)
qed simp

lemma node_total_bound:
  assumes "lists_inv E sbi"
  shows "node_total sbi \<le> 2 ^ 32"
proof -
  have "length (saved_entries sbi) \<le> total_size (saved_entries sbi)"
    using saved_entries_ok(1) [OF assms] by (intro length_le_total) (simp add: entries_fit_def)
  also have "\<dots> = card (all_free sbi)"
    using card_blocks_of saved_entries_ok(1,2) [OF assms] by (metis entries_fit_def)
  also have "\<dots> \<le> card {..<2 ^ 32 :: nat}"
    using free_block_bounds(2) [OF assms] by (intro card_mono) auto
  finally show ?thesis using saved_entries_ok(3) [OF assms] by simp
qed

lemma pages_for_ok:
  assumes "n \<le> 2 ^ 32"
  shows "n \<le> 254 * pages_for n" "pages_for n < 2 ^ 31" "0 < n \<Longrightarrow> 0 < pages_for n"
proof -
  have d: "n = 254 * (n div 254) + n mod 254" "n mod 254 < 254" by simp_all
  have q: "n div 254 < 2 ^ 31 - 1" using div_le_mono [OF assms, of 254] by simp
  have p: "pages_for n = (if n mod 254 \<noteq> 0 then n div 254 + 1 else n div 254)"
    using q by (simp add: pages_for_def RANGENODE_PER_PAGE_def)
  show "n \<le> 254 * pages_for n" "pages_for n < 2 ^ 31" "0 < n \<Longrightarrow> 0 < pages_for n"
    unfolding p using d q by (auto split: if_splits)
qed

subsection \<open>Unmount and mount\<close>

definition remounted :: "sb_info \<Rightarrow> sb_info \<Rightarrow> bool" where
  "remounted sbi m \<longleftrightarrow>
     cpus m = cpus sbi \<and>
     (\<forall>j < cpus sbi. block_start (free_lists m ! j) = block_start (free_lists sbi ! j) \<and>
        block_end (free_lists m ! j) = block_end (free_lists sbi ! j))"

lemma remounted_home:
  assumes "remounted sbi m" "lists_inv E sbi" "lists_inv E m"
  shows "home m b n = home sbi b n"
  using assms by (auto simp: remounted_def home_def lists_inv_def)

lemma entries_fit_home:
  assumes "lists_inv E sbi"
  shows "entries_fit sbi es \<longleftrightarrow> ranges_ok es \<and> (\<forall>e \<in> set es. home sbi (fst e) (range_size e))"
proof -
  have len: "length (free_lists sbi) = cpus sbi" using assms by (simp add: lists_inv_def)
  have "(\<exists>i < cpus sbi. in_list sbi i (fst e) \<and> in_list sbi i (snd e)) = home sbi (fst e) (range_size e)"
    if "fst e \<le> snd e" for e
    using that by (auto simp: home_def in_list_def range_size_def len)
  then show ?thesis unfolding entries_fit_def using ranges_ok_le [of es] by blast
qed

lemma head_tail_fields:
  assumes "good_media E"
  shows "nova_get_head_tail E P pi sih =
    Some (sih\<lparr>i_blk_type := get_field nova_inode I_blk_type pi P, log_head := get_field nova_inode I_log_head pi P,
      log_tail := get_field nova_inode I_log_tail pi P, alter_log_head := get_field nova_inode I_alter_log_head pi P,
      alter_log_tail := get_field nova_inode I_alter_log_tail pi P\<rparr>)"
  using assms
  by (simp add: nova_get_head_tail_def memcpy_mcsafe_def good_media_def list_all_iff field_of_get_bytes get_field_def read_le_def)

abbreviation blocknode_inode :: nat where
  "blocknode_inode \<equiv> nova_get_reserved_inode_addr NOVA_BLOCKNODE_INO"

lemma blocknode_inode_addr: "blocknode_inode = 4480"
  by (simp add: nova_get_reserved_inode_addr_def NOVA_BLOCKNODE_INO_def NOVA_DEF_BLOCK_SIZE_4K_def RESERVE_INODE_START_def
      NOVA_INODE_SIZE_def)

text \<open>
  The log that a mount finds is read completely, and then freed.
\<close>

lemma init_from_inode_ok:
  assumes inv: "store_inv (E, m)" "all_free m = {}" "runs_join m" and room: "log_room E (pmem m) bs" "bs \<noteq> []"
    and hold: "log_holds (pmem m) blocknode_inode bs es" "get_field nova_inode I_blk_type blocknode_inode (pmem m) = 0"
    and fits: "length es \<le> 254 * length bs" "entries_fit m es"
    and bs: "\<forall>b \<in> set bs. home m b 1 \<and> 2 \<le> b" "set bs \<inter> blocks_of es = {}"
  shows "\<exists>m'. nova_init_blockmap_from_inode E m = Some (m', Inr ()) \<and> store_inv (E, m') \<and>
    all_free m' = blocks_of es \<union> set bs"
proof -
  let ?pi = blocknode_inode
  have rm: "good_media E" "page_seg (pmem m) (4096 * hd bs) bs 0" "distinct bs" using room(1) by (simp_all add: log_room_def)
  define sih where "sih = zero_sih\<lparr>i_blk_type := 0, log_head := 4096 * hd bs, log_tail := tail_at bs (length es),
    alter_log_head := 0, alter_log_tail := get_field nova_inode I_alter_log_tail ?pi (pmem m), ino := NOVA_BLOCKNODE_INO\<rparr>"
  have h: "hd bs \<noteq> 0" using bs(1) room(2) by (metis hd_in_set not_numeral_le_zero)
  have "loaded E m es 0 m" using inv by (simp add: loaded_def same_bounds_def)
  from load_blocknodes_ok [OF room(1) _ fits le0 this] hold(1) obtain m1 where
    l: "load_blocknodes E (tail_at bs (length es)) (4096 * hd bs) m = Some (m1, Inr ())" "loaded E m es (length es) m1"
    by (auto simp: log_holds_def tail_at_def)
  have m1: "store_inv (E, m1)" "all_free m1 = blocks_of es" "pmem m1 = pmem m" "same_bounds m m1"
    using l(2) by (simp_all add: loaded_def same_bounds_def)
  have li: "lists_inv E m" "lists_inv E m1" using inv(1) m1(1) by (simp_all add: store_inv_def)
  have hm: "\<forall>b n. home m1 b n = home m b n"
    using remounted_home [OF _ li] m1(4) by (simp add: same_bounds_def remounted_def)
  have t: "tail_at bs (length es) \<noteq> 0" using h by (simp add: tail_at_def)
  have apart: "({?pi..<?pi + 120} \<union> {alter_pi_addr sih..<alter_pi_addr sih + 120}) \<inter> page_tails (set (bs @ [])) = {}"
    using bs(1) by (fastforce simp: page_tails_def blocknode_inode_addr sih_def zero_sih_def)
  have "\<exists>m'. nova_free_inode_log E ?pi sih m1 = Some m' \<and> store_inv (E, m') \<and> all_free m' = all_free m1 \<union> set bs \<union> set []"
  proof (rule free_inode_log_ok [OF rm(1) _ m1(1)])
    show "runs_join m1" using inv(3) runs_join_home [OF hm] by simp
    show "page_seg (pmem m1) (log_head sih) bs 0" using rm(2) m1(3) by (simp add: sih_def)
    show "set (bs @ []) \<inter> all_free m1 = {}" "\<forall>b \<in> set (bs @ []). home m1 b 1" "distinct (bs @ [])"
      using bs m1(2) hm rm(3) by auto
  qed (use h t apart in \<open>simp_all add: sih_def zero_sih_def\<close>)
  then obtain m' where m': "nova_free_inode_log E ?pi sih m1 = Some m'" "store_inv (E, m')" "all_free m' = blocks_of es \<union> set bs"
    using m1(2) by auto
  have "nova_init_blockmap_from_inode E m = Some (m', Inr ())"
    using l(1) m'(1) h hold by (simp add: nova_init_blockmap_from_inode_def head_tail_fields [OF rm(1)] log_holds_def sih_def)
  then show ?thesis using m'(2,3) by blast
qed

text \<open>
  C37: when an unmount can allocate the pages for the map, it saves the free lists to the log, and
  a mount that finds them reads back exactly the blocks that were free before the unmount. The
  pages of the log are among them, since the mount frees the log.
\<close>

theorem block_map_roundtrip:
  assumes inv: "store_inv (E, sbi)" "good_media E" "lists_gap sbi" "\<forall>b \<in> all_free sbi. 2 \<le> b"
    and ty: "get_field nova_inode I_blk_type blocknode_inode (pmem sbi) = 0"
    and al: "nova_allocate_inode_log_pages E smp sbi 0 (pages_for (node_total sbi)) 0 ANY_CPU ALLOC_FROM_HEAD =
      Some (sbi1, Inr (int (pages_for (node_total sbi))), nb)" "all_free sbi \<noteq> {}"
  shows "\<exists>sbi2. nova_save_blocknode_mappings_to_log E smp sbi = Some (sbi2, Inr ()) \<and>
    (\<forall>m. store_inv (E, m) \<and> all_free m = {} \<and> remounted sbi m \<and> pmem m = pmem sbi2 \<longrightarrow>
       (\<exists>m'. nova_init_blockmap_from_inode E m = Some (m', Inr ()) \<and> store_inv (E, m') \<and> all_free m' = all_free sbi))"
proof -
  let ?n = "node_total sbi" and ?pi = blocknode_inode
  have li: "lists_inv E sbi" using inv(1) by (simp add: store_inv_def)
  have "?n = 0 \<Longrightarrow> all_free sbi = {}" using saved_entries_ok(2,3) [OF li] by (metis blocks_of_Nil length_0_conv)
  then have n: "0 < ?n" using al(2) by auto
  note pg = pages_for_ok [OF node_total_bound [OF li]]
  have ap: "\<forall>b \<in> all_free sbi. inode_apart ?pi b" using inv(4) by (fastforce simp: inode_apart_def blocknode_inode_addr)
  have si: "store_inv (E, sbi1)" "node_total sbi1 \<le> ?n" "\<exists>bs. pages_taken E sbi bs sbi1"
    using allocate_log_pages_ok [OF inv(1) pg(3) [OF n] pg(2), of smp 0 ALLOC_FROM_HEAD] al(1) by (auto simp: pages_taken_def)
  have li1: "lists_inv E sbi1" using si(1) by (simp add: store_inv_def)
  note se = saved_entries_ok [OF li1]
  have fit: "length (saved_entries sbi1) \<le> 254 * pages_for ?n" using se(3) si(2) pg(1) by linarith
  from list_saver.save_to_log_ok [OF inv(1,2) pg(3) [OF n] pg(2) al(1) se(4) fit [unfolded saved_entries_def] ap]
  obtain sbi3 bs where s: "save_to_log E smp ?pi (pages_for ?n) (nova_save_free_list_blocknodes E) sbi = Some (sbi3, Inr ())"
    "pages_taken E sbi bs sbi1" "length bs = pages_for ?n" "log_holds (pmem sbi3) ?pi bs (saved_entries sbi1)"
    "get_field nova_inode I_blk_type ?pi (pmem sbi3) = 0"
    using ty by (auto simp: saved_entries_def)
  have "foldl (\<lambda>n fl. u64_add n (num_blocknode fl)) 0 (free_lists sbi) = ?n"
    using foldl_u64_add [of 0 num_blocknode "free_lists sbi"] node_total_bound [OF li] by (simp add: node_total_def)
  then have save: "nova_save_blocknode_mappings_to_log E smp sbi = Some (sbi3, Inr ())"
    using s(1) by (simp add: nova_save_blocknode_mappings_to_log_def)
  have tk: "distinct bs" "set bs \<subseteq> all_free sbi" "all_free sbi1 = all_free sbi - set bs" "\<forall>b \<in> set bs. home sbi b 1"
    "\<forall>b m. home sbi1 b m = home sbi b m" using s(2) by (simp_all add: pages_taken_def)
  have "\<exists>m'. nova_init_blockmap_from_inode E m = Some (m', Inr ()) \<and> store_inv (E, m') \<and> all_free m' = all_free sbi"
    if m: "store_inv (E, m)" "all_free m = {}" "remounted sbi m" "pmem m = pmem sbi3" for m
  proof -
    have li2: "lists_inv E m" using m(1) by (simp add: store_inv_def)
    have hm: "\<forall>b n. home m b n = home sbi b n" using remounted_home [OF m(3) li li2] by blast
    have room: "log_room E (pmem m) bs"
      using inv(2) s(4) tk(1,2) free_block_bounds(2) [OF li] m(4) by (auto simp: log_room_def log_holds_def)
    have "entries_fit m (saved_entries sbi1)"
      using se(1) hm tk(5) by (simp add: entries_fit_home [OF li2] entries_fit_home [OF li1])
    moreover have "runs_join m" using lists_gap_runs_join [OF inv(3)] runs_join_home [OF hm] by simp
    moreover have "\<forall>b \<in> set bs. home m b 1 \<and> 2 \<le> b" using tk(2,4) inv(4) hm by auto
    moreover have "set bs \<inter> blocks_of (saved_entries sbi1) = {}" "bs \<noteq> []" using se(2) tk(3) s(3) pg(3) [OF n] by auto
    ultimately have "\<exists>m'. nova_init_blockmap_from_inode E m = Some (m', Inr ()) \<and> store_inv (E, m') \<and>
        all_free m' = blocks_of (saved_entries sbi1) \<union> set bs"
      using init_from_inode_ok [OF m(1,2) _ room] s(3-5) m(4) fit by simp
    moreover have "blocks_of (saved_entries sbi1) \<union> set bs = all_free sbi" using se(2) tk(2,3) by auto
    ultimately show ?thesis by simp
  qed
  then show ?thesis using save by blast
qed

lemma log_sb_ok:
  "store_inv (demo_env_total, log_sb)" "all_free log_sb = {100..1999}" "lists_gap log_sb" "node_total log_sb = 1"
  "get_field nova_inode I_blk_type blocknode_inode (pmem log_sb) = 0"
  using demo_gap(1) demo_total_inv demo_free(2)
  by (simp_all add: log_sb_def lists_gap_def in_list_def node_total_def demo_list_def get_field_def read_le_def get_bytes_def
      blocknode_inode_addr upt_rec)

lemma log_sb_alloc:
  "\<exists>sbi'. nova_allocate_inode_log_pages demo_env_total 0 log_sb 0 1 0 ANY_CPU ALLOC_FROM_HEAD = Some (sbi', Inr 1, 409600)"
proof -
  let ?r = "nova_new_log_blocks demo_env_total 0 log_sb 0 1 False ANY_CPU ALLOC_FROM_HEAD"
  have "snd ?r = Inr (100, 1)"
    by (simp add: nova_new_log_blocks_def demo_env_total_def log_sb_def demo_eval DEAD_ZONE_BLOCKS_def)
  then obtain sbi where r: "?r = (sbi, Inr (100, 1))" by (metis prod.collapse)
  show ?thesis
    by (simp add: nova_allocate_inode_log_pages_def r [unfolded One_nat_def] more_log_pages.simps [of _ _ _ _ _ 0] block_off_eq)
qed

theorem block_map_roundtrip_witness:
  "\<exists>sbi2 m'. nova_save_blocknode_mappings_to_log demo_env_total 0 log_sb = Some (sbi2, Inr ()) \<and>
     nova_init_blockmap_from_inode demo_env_total (demo_empty\<lparr>pmem := pmem sbi2\<rparr>) = Some (m', Inr ()) \<and>
     all_free m' = {100..1999}"
proof -
  obtain sbi1 where a: "nova_allocate_inode_log_pages demo_env_total 0 log_sb 0 1 0 ANY_CPU ALLOC_FROM_HEAD = Some (sbi1, Inr 1, 409600)"
    using log_sb_alloc by blast
  have pg: "pages_for 1 = 1" by (simp add: pages_for_def RANGENODE_PER_PAGE_def)
  obtain sbi2 where s: "nova_save_blocknode_mappings_to_log demo_env_total 0 log_sb = Some (sbi2, Inr ())"
    "\<forall>m. store_inv (demo_env_total, m) \<and> all_free m = {} \<and> remounted log_sb m \<and> pmem m = pmem sbi2 \<longrightarrow>
       (\<exists>m'. nova_init_blockmap_from_inode demo_env_total m = Some (m', Inr ()) \<and> store_inv (demo_env_total, m') \<and>
          all_free m' = all_free log_sb)"
    using block_map_roundtrip [OF log_sb_ok(1) demo_gap(2) log_sb_ok(3) _ log_sb_ok(5), of 0 sbi1 409600] a
    unfolding log_sb_ok(2,4) pg by auto
  have "remounted log_sb (demo_empty\<lparr>pmem := pmem sbi2\<rparr>)"
    by (simp add: remounted_def log_sb_def demo_empty_def demo_list_def)
  then show ?thesis
    using s(1) s(2) [rule_format, of "demo_empty\<lparr>pmem := pmem sbi2\<rparr>"] demo_empty_ok(1,2) log_sb_ok(2) by auto
qed

end
