(* ===== verification/Inode_Recover.thy ===== *)
theory Inode_Recover
  imports Inode_Map_Props
begin

text \<open>
  After a failure the numbers of the inodes found in the inode tables are put into the trees of
  used numbers, as ranges (\<^verbatim>\<open>bbuild.c\<close>).
\<close>

subsection \<open>Definitions\<close>

definition insert_ino_range ::
    "nova_env \<Rightarrow> slab \<Rightarrow> inode_map \<Rightarrow> nat \<Rightarrow> nat \<Rightarrow> ptr option \<Rightarrow> ptr option \<Rightarrow> slab \<times> inode_map \<times> unit res" where
  "insert_ino_range E s im internal_low internal_high prev next =
     (let left = aligns_left s prev internal_low;
          right = aligns_right s next internal_high;
          n = u64_add (u64_sub internal_high internal_low) 1;
          t = inode_inuse_tree im
      in if left \<and> right then
           (let p = the prev; q = the next
            in (nova_free_inode_node
                  (nova_update_range_node_checksum E p (set_high p (range_high (node_of s q)) s)) q,
                im\<lparr>inode_inuse_tree := rb_erase E q t,
                   num_range_node_inode := u64_sub (num_range_node_inode im) 1\<rparr>, Inr ()))
         else if left then
           (let p = the prev
            in (nova_update_range_node_checksum E p (set_high p (u64_add (range_high (node_of s p)) n) s), im, Inr ()))
         else if right then
           (let q = the next
            in (nova_update_range_node_checksum E q (set_low q (u64_sub (range_low (node_of s q)) n) s), im, Inr ()))
         else
           (case nova_alloc_inode_node E s of
              (s, None) \<Rightarrow> (s, im, Inl EOOPS)
            | (s, Some c) \<Rightarrow>
                let s = nova_update_range_node_checksum E c (set_high c internal_high (set_low c internal_low s)) in
                case nova_insert_inodetree E s im c of
                  Inl e \<Rightarrow> (nova_free_inode_node s c, im, Inl e)
                | Inr t \<Rightarrow>
                    (s, im\<lparr>inode_inuse_tree := t,
                           num_range_node_inode := u64_add (num_range_node_inode im) 1\<rparr>, Inr ())))"

definition nova_failure_insert_inodetree :: "nova_env \<Rightarrow> sb_info \<Rightarrow> nat \<Rightarrow> nat \<Rightarrow> sb_info \<times> unit res" where
  "nova_failure_insert_inodetree E sbi ino_low ino_high =
     (let cpu = ino_low mod cpus sbi in
      if ino_high < ino_low \<or> ino_high mod cpus sbi \<noteq> cpu then (sbi, Inl EOOPS)
      else
        let internal_low = ino_low div cpus sbi; internal_high = ino_high div cpus sbi in
        case get_inode_map sbi cpu of
          Inl e \<Rightarrow> (sbi, Inl e)
        | Inr im \<Rightarrow>
            (case nova_find_free_slot E (nodes sbi) (inode_inuse_tree im) internal_low internal_high of
               Inl e \<Rightarrow> (sbi, Inl e)
             | Inr (prev, next) \<Rightarrow>
                 let (s, im, ret) = insert_ino_range E (nodes sbi) im internal_low internal_high prev next
                 in (set_inode_map cpu im s sbi, ret)))"

text \<open>
  The pending range is extended by the next number of the same CPU; otherwise it is inserted,
  whatever the result, and a new one starts.
\<close>

definition nova_failure_update_inodetree ::
    "nova_env \<Rightarrow> nat \<Rightarrow> nat \<Rightarrow> nat \<Rightarrow> sb_info \<Rightarrow> sb_info \<times> (nat \<times> nat) res" where
  "nova_failure_update_inodetree E nova_ino ino_low ino_high sbi =
     (if ino_low = 0 then (sbi, Inr (nova_ino, nova_ino))
      else if nova_ino = u64_add ino_high (cpus sbi) then (sbi, Inr (ino_low, nova_ino))
      else case nova_failure_insert_inodetree E sbi ino_low ino_high of
             (sbi, Inl EOOPS) \<Rightarrow> (sbi, Inl EOOPS)
           | (sbi, _) \<Rightarrow> (sbi, Inr (nova_ino, nova_ino)))"

text \<open>The numbers of the inodes of one block of a table, in the order of the block.\<close>

fun recover_inos :: "nova_env \<Rightarrow> nat list \<Rightarrow> nat \<Rightarrow> nat \<Rightarrow> sb_info \<Rightarrow> sb_info \<times> unit res" where
  "recover_inos E [] ino_low ino_high sbi =
     (if ino_low \<noteq> 0 \<and> ino_high \<noteq> 0
      then (case nova_failure_insert_inodetree E sbi ino_low ino_high of
              (sbi, Inl EOOPS) \<Rightarrow> (sbi, Inl EOOPS)
            | (sbi, _) \<Rightarrow> (sbi, Inr ()))
      else (sbi, Inr ()))"
| "recover_inos E (i # is) ino_low ino_high sbi =
     (case nova_failure_update_inodetree E i ino_low ino_high sbi of
        (sbi, Inl e) \<Rightarrow> (sbi, Inl e)
      | (sbi, Inr (ino_low, ino_high)) \<Rightarrow> recover_inos E is ino_low ino_high sbi)"

subsection \<open>Inserting one range\<close>

lemma map_resize_high:
  assumes inv: "map_inv E s im" and ps: "map_nodes im = xs @ p # ys"
    and h: "snd (span s p) \<le> h" "h < MAX_INODE" "\<forall>y \<in> set ys. Suc h < fst (span s y)"
  shows "map_step E s im (nova_update_range_node_checksum E p (set_high p h s)) im
    (map_used s im \<union> {Suc (snd (span s p))..h})" (is "map_step E s im ?s' im _")
proof -
  note nb = map_neighbours [OF inv ps]
  have le: "fst (span s p) \<le> snd (span s p)" using nodes_inv_le [OF nb(1), of p] by simp
  have "map_step E s im ?s' im (map_used s im - blocks_of (map (span s) [p]) \<union> blocks_of (map (span ?s') [p]))"
  proof (rule map_update [OF inv, of xs _ ys])
    show "agree s ?s' (live s - (set [p] \<union> set [p]))" using agree_resize(1) [of s E p h] by simp
    show "nodes_inv E ?s' [p]" using nb(2) le h(1) by (simp add: nodes_inv_simps)
    show "gaps ?s' [p]" using le h(1) by (simp add: gaps_def)
  qed (use nb ps h in auto)
  moreover have "{fst (span s p)..snd (span s p)} \<subseteq> map_used s im" by (auto simp: map_used_def ps range_simps)
  then have "map_used s im - blocks_of (map (span s) [p]) \<union> blocks_of (map (span ?s') [p]) =
      map_used s im \<union> {Suc (snd (span s p))..h}"
    using le h(1) by (auto simp: blocks_of_Cons)
  ultimately show ?thesis by simp
qed

lemma map_resize_low:
  assumes inv: "map_inv E s im" and ps: "map_nodes im = xs @ p # ys" "xs \<noteq> []"
    and l: "l \<le> fst (span s p)" "\<forall>x \<in> set xs. Suc (snd (span s x)) < l"
  shows "map_step E s im (nova_update_range_node_checksum E p (set_low p l s)) im
    (map_used s im \<union> {l..<fst (span s p)})" (is "map_step E s im ?s' im _")
proof -
  note nb = map_neighbours [OF inv ps(1)]
  have le: "fst (span s p) \<le> snd (span s p)" using nodes_inv_le [OF nb(1), of p] by simp
  have "map_step E s im ?s' im (map_used s im - blocks_of (map (span s) [p]) \<union> blocks_of (map (span ?s') [p]))"
  proof (rule map_update [OF inv, of xs _ ys])
    show "agree s ?s' (live s - (set [p] \<union> set [p]))" using agree_resize(2) [of s E p l] by simp
    show "nodes_inv E ?s' [p]" using nb(2) le l(1) by (simp add: nodes_inv_simps)
    show "gaps ?s' [p]" using le l(1) by (simp add: gaps_def)
  qed (use nb ps l in auto)
  moreover have "{fst (span s p)..snd (span s p)} \<subseteq> map_used s im" by (auto simp: map_used_def ps range_simps)
  then have "map_used s im - blocks_of (map (span s) [p]) \<union> blocks_of (map (span ?s') [p]) =
      map_used s im \<union> {l..<fst (span s p)}"
    using le l(1) by (auto simp: blocks_of_Cons)
  ultimately show ?thesis by simp
qed

lemma map_join:
  assumes lib: "rb_lib_ok E" and inv: "map_inv E s im" and ps: "map_nodes im = xs @ p # q # ys"
    and s': "s' = nova_free_inode_node (nova_update_range_node_checksum E p (set_high p (snd (span s q)) s)) q"
    and im': "inode_inuse_tree im' = rb_erase E q (inode_inuse_tree im)" "first_inode_range im' = first_inode_range im"
  shows "map_step E s im s' im' (map_used s im \<union> {Suc (snd (span s p))..<fst (span s q)})"
proof -
  note nb = map_neighbours [OF inv ps]
  have ps2: "map_nodes im = (xs @ [p]) @ q # ys" using ps by simp
  note nq = map_neighbours [OF inv ps2]
  have d: "p \<noteq> q" "distinct (map_nodes im)" using nb(1) ps by (auto simp: nodes_inv_def)
  have le: "fst (span s p) \<le> snd (span s p)" "fst (span s q) \<le> snd (span s q)" "Suc (snd (span s p)) < fst (span s q)"
    using nodes_inv_le [OF nb(1), of p] nodes_inv_le [OF nb(1), of q] nq(5) by auto
  have ns': "map_nodes im' = xs @ [p] @ ys"
    using rb_erase_inorder [OF lib, of "inode_inuse_tree im" "xs @ [p]" q ys] ps d(2) by (simp add: map_nodes_def im')
  have sp: "span s' p = (fst (span s p), snd (span s q))" by (simp add: s' nova_free_inode_node_def)
  have agr: "agree s s' (live s - (set [p, q] \<union> set [p]))"
    by (auto simp: s' agree_def nova_free_inode_node_def nova_free_range_node_def
        nova_update_range_node_checksum_def set_high_def)
  have "nodes_inv E s' [p]" using nb(2) d(1) le sp by (auto simp: nodes_inv_simps s' nova_free_inode_node_def)
  then have "map_step E s im s' im' (map_used s im - blocks_of (map (span s) [p, q]) \<union> blocks_of (map (span s') [p]))"
    by (intro map_update [OF inv _ ns' agr])
      (use sp le nb nq im' in \<open>auto simp: ps gaps_def s' nova_free_inode_node_def\<close>)
  moreover have "{fst (span s p)..snd (span s p)} \<union> {fst (span s q)..snd (span s q)} \<subseteq> map_used s im"
    by (auto simp: map_used_def ps range_simps)
  then have "map_used s im - blocks_of (map (span s) [p, q]) \<union> blocks_of (map (span s') [p]) =
      map_used s im \<union> {Suc (snd (span s p))..<fst (span s q)}"
  proof -
    have "{fst (span s p)..snd (span s q)} =
        {fst (span s p)..snd (span s p)} \<union> {Suc (snd (span s p))..<fst (span s q)} \<union> {fst (span s q)..snd (span s q)}"
      using le by auto
    then show ?thesis
      using sp \<open>{fst (span s p)..snd (span s p)} \<union> {fst (span s q)..snd (span s q)} \<subseteq> map_used s im\<close>
      by (simp add: blocks_of_Cons) blast
  qed
  ultimately show ?thesis by simp
qed

lemma map_new_node:
  assumes lib: "rb_lib_ok E" and kmem: "kmem_ok E" and inv: "map_inv E s im"
    and ps: "map_nodes im = xs @ ys" "xs \<noteq> []" and new: "nova_alloc_inode_node E s = (s1, Some c)"
    and lh: "l \<le> h" "h < MAX_INODE" "\<forall>x \<in> set xs. Suc (snd (span s x)) < l" "\<forall>y \<in> set ys. Suc h < fst (span s y)"
    and s': "s' = nova_update_range_node_checksum E c (set_high c h (set_low c l s1))"
  shows "\<exists>t. nova_insert_inodetree E s' im c = Inr t \<and>
    (\<forall>im'. inode_inuse_tree im' = t \<longrightarrow> first_inode_range im' = first_inode_range im \<longrightarrow>
       map_step E s im s' im' (map_used s im \<union> {l..h}))"
proof -
  have ni: "nodes_inv E s (xs @ ys)" using inv ps(1) by (simp add: map_inv_def)
  note al = alloc_range_node_Some [OF kmem new [unfolded nova_alloc_inode_node_def]]
  have c: "c \<notin> set (xs @ ys)" using al(1) ni by (auto simp: nodes_inv_def)
  have sp: "span s' c = (l, h)" using al(4) by (simp add: s')
  have so: "span s' q = span s q" if "q \<in> set (xs @ ys)" for q using c al(4) that by (auto simp: s')
  have lv: "live s' = insert c (live s)" by (simp add: s' al(3))
  have agr: "agree s s' (live s)"
    using al(1,6) by (auto simp: s' agree_def nova_update_range_node_checksum_def set_high_def set_low_def al(3))
  have ok: "node_ok E s' c" by (simp add: s')
  have same: "map (span s') (inorder (inode_inuse_tree im)) = map (span s) (xs @ ys)"
    using so ps(1) by (simp add: map_nodes_def)
  have "\<exists>t. nova_insert_range_node E s' (inode_inuse_tree im) c NODE_INODE = Inr t \<and> inorder t = xs @ c # ys"
  proof (rule insert_range_node_fits [OF lib])
    show "inorder (inode_inuse_tree im) = xs @ ys" using ps(1) by (simp add: map_nodes_def)
    show "ranges_ok (map (span s') (inorder (inode_inuse_tree im)))" unfolding same using ni by (simp add: nodes_inv_def)
    show "\<forall>p \<in> set xs. snd (span s' p) < range_low (node_of s' c)"
      "\<forall>p \<in> set ys. range_low (node_of s' c) < fst (span s' p)"
      using lh so sp by (auto simp: span_low_high dest: Suc_lessD intro: le_less_trans)
  qed simp
  then obtain t where t: "nova_insert_inodetree E s' im c = Inr t" "inorder t = xs @ [c] @ ys"
    by (auto simp: nova_insert_inodetree_def)
  have "map_step E s im s' im' (map_used s im - blocks_of (map (span s) []) \<union> blocks_of (map (span s') [c]))"
    if "inode_inuse_tree im' = t" "first_inode_range im' = first_inode_range im" for im'
  proof (rule map_update [OF inv, of xs "[]" ys])
    show "nodes_inv E s' [c]" "gaps s' [c]" using ok lv lh(1) sp by (auto simp: nodes_inv_simps gaps_def)
    show "agree s s' (live s - (set [] \<union> set [c]))" using agr by (rule agree_subset) auto
  qed (use that t ps lh sp lv al(1) in \<open>auto simp: map_nodes_def\<close>)
  then show ?thesis using t(1) sp by (intro exI [of _ t]) (simp add: blocks_of_Cons)
qed

lemma insert_ino_range_ok:
  assumes lib: "rb_lib_ok E" and kmem: "kmem_ok E" and inv: "map_inv E s im"
    and mem: "kmem_zalloc E (requests s) (live s) \<noteq> None"
    and lh: "l \<le> h" "h < MAX_INODE" "{l..h} \<inter> map_used s im = {}"
  shows "\<exists>prev next s' im'. nova_find_free_slot E s (inode_inuse_tree im) l h = Inr (prev, next) \<and>
    insert_ino_range E s im l h prev next = (s', im', Inr ()) \<and> map_step E s im s' im' (map_used s im \<union> {l..h})"
proof -
  have ti: "tree_inv E s (inode_inuse_tree im)" "tree_blocks s (inode_inuse_tree im) = map_used s im"
    using inv by (simp_all add: map_inv_def tree_inv_def map_nodes_def tree_blocks_def map_used_def)
  from find_free_slot_ok [OF ti(1) lh(1)] lh(3) obtain xs ys where
    xy: "map_nodes im = xs @ ys" "\<forall>p \<in> set xs. snd (span s p) < l" "\<forall>p \<in> set ys. h < fst (span s p)"
    and slot: "nova_find_free_slot E s (inode_inuse_tree im) l h = Inr (last_option xs, hd_option ys)"
    unfolding ti(2) map_nodes_def by blast
  obtain p0 ps0 where p0: "map_nodes im = p0 # ps0" "fst (span s p0) = 0" using inv by (auto simp: map_inv_def)
  have ne: "xs \<noteq> []" using xy(1,3) p0 by (cases xs) auto
  then obtain us p where us: "xs = us @ [p]" by (cases xs rule: rev_cases) auto
  have sz: "u64_add (u64_sub h l) 1 = h - l + 1" "h < 2 ^ 31" using lh(1,2) by (simp_all add: MAX_INODE_def)
  have near: "snd (span s p) < l" "\<forall>x \<in> set us. Suc (snd (span s x)) < fst (span s p)" "fst (span s p) \<le> snd (span s p)"
    using xy(2) us map_neighbours(5) [OF inv, of us p ys] xy(1) nodes_inv_le [of E s "map_nodes im" p] inv
    by (auto simp: map_inv_def)
  have left: "aligns_left s (last_option xs) l \<longleftrightarrow> l = Suc (snd (span s p))"
    using near(1) sz(2) lh(1) by (simp add: us aligns_left_def span_low_high)
  have right: "aligns_right s (hd_option ys) h \<longleftrightarrow> (\<exists>q vs. ys = q # vs \<and> Suc h = fst (span s q))"
    using sz(2) by (cases ys) (auto simp: aligns_right_def span_low_high)
  have below: "\<forall>x \<in> set xs. Suc (snd (span s x)) < l" if "l \<noteq> Suc (snd (span s p))"
    using near that us by fastforce
  have above: "\<forall>y \<in> set ys. Suc h < fst (span s y)" if "\<not> (\<exists>q vs. ys = q # vs \<and> Suc h = fst (span s q))"
  proof (cases ys)
    case (Cons q vs)
    then have q: "Suc h < fst (span s q)" using xy(3) that by fastforce
    have "\<forall>y \<in> set vs. Suc (snd (span s q)) < fst (span s y)" "fst (span s q) \<le> snd (span s q)"
      using map_neighbours(6) [OF inv, of xs q vs] xy(1) Cons nodes_inv_le [of E s "map_nodes im" q] inv
      by (auto simp: map_inv_def)
    then show ?thesis using q Cons by fastforce
  qed simp
  have ps: "map_nodes im = us @ p # ys" using xy(1) us by simp
  consider (join) q vs where "l = Suc (snd (span s p))" "ys = q # vs" "Suc h = fst (span s q)"
    | (left) "l = Suc (snd (span s p))" "\<not> (\<exists>q vs. ys = q # vs \<and> Suc h = fst (span s q))"
    | (right) q vs where "l \<noteq> Suc (snd (span s p))" "ys = q # vs" "Suc h = fst (span s q)"
    | (new) "l \<noteq> Suc (snd (span s p))" "\<not> (\<exists>q vs. ys = q # vs \<and> Suc h = fst (span s q))"
    by blast
  then have "\<exists>s' im'. insert_ino_range E s im l h (last_option xs) (hd_option ys) = (s', im', Inr ()) \<and>
      map_step E s im s' im' (map_used s im \<union> {l..h})"
  proof cases
    case join
    let ?im = "im\<lparr>inode_inuse_tree := rb_erase E q (inode_inuse_tree im),
                  num_range_node_inode := u64_sub (num_range_node_inode im) 1\<rparr>"
    have "{Suc (snd (span s p))..<fst (span s q)} = {l..h}" using join by auto
    then have "map_step E s im (nova_free_inode_node (nova_update_range_node_checksum E p (set_high p (snd (span s q)) s)) q)
        ?im (map_used s im \<union> {l..h})"
      using map_join [OF lib inv, of us p q vs _ ?im] ps join by simp
    then show ?thesis using join left right us by (simp add: insert_ino_range_def Let_def span_low_high)
  next
    case l: left
    have "map_step E s im (nova_update_range_node_checksum E p (set_high p h s)) im (map_used s im \<union> {l..h})"
      using map_resize_high [OF inv ps _ lh(2) above] l lh(1) near(1) by simp
    moreover have "u64_add (snd (span s p)) (h - l + 1) = h" using l lh(1) sz(2) by simp
    moreover have "\<not> aligns_right s (hd_option ys) h" using l(2) right by blast
    ultimately show ?thesis using l(1) left us sz by (simp add: insert_ino_range_def Let_def span_low_high)
  next
    case r: right
    have "{l..<fst (span s q)} = {l..h}" using r by auto
    then have "map_step E s im (nova_update_range_node_checksum E q (set_low q l s)) im (map_used s im \<union> {l..h})"
      using map_resize_low [OF inv, of xs q vs l] xy r ne below lh(1) by simp
    moreover have "fst (span s q) = Suc h" "u64_sub (Suc h) (h - l + 1) = l" using r lh(1) sz(2) by simp_all
    ultimately show ?thesis using r left right us sz by (simp add: insert_ino_range_def Let_def span_low_high)
  next
    case new
    obtain s1 c where al: "nova_alloc_inode_node E s = (s1, Some c)"
      using mem by (auto simp: nova_alloc_inode_node_def nova_alloc_range_node_def Let_def)
    let ?s = "nova_update_range_node_checksum E c (set_high c h (set_low c l s1))"
    obtain t where t: "nova_insert_inodetree E ?s im c = Inr t"
      "\<forall>im'. inode_inuse_tree im' = t \<longrightarrow> first_inode_range im' = first_inode_range im \<longrightarrow>
         map_step E s im ?s im' (map_used s im \<union> {l..h})"
      using map_new_node [OF lib kmem inv xy(1) ne al lh(1,2) below above refl] new by blast
    moreover have "\<not> aligns_right s (hd_option ys) h" using new(2) right by blast
    ultimately show ?thesis using new(1) left us al by (simp add: insert_ino_range_def Let_def)
  qed
  then show ?thesis using slot by blast
qed

text \<open>The numbers from \<open>low\<close> to \<open>high\<close> that belong to the CPU of \<open>low\<close>.\<close>

definition ino_range :: "nat \<Rightarrow> nat \<Rightarrow> nat \<Rightarrow> nat set" where
  "ino_range n low high = {i. low \<le> i \<and> i \<le> high \<and> i mod n = low mod n}"

lemma ino_range_div:
  assumes "0 < n" "high mod n = low mod n"
  shows "i \<in> ino_range n low high \<longleftrightarrow> i mod n = low mod n \<and> low div n \<le> i div n \<and> i div n \<le> high div n"
proof -
  have ge: "a \<le> b \<longleftrightarrow> a div n \<le> b div n" if "a mod n = b mod n" for a b
  proof
    assume "a div n \<le> b div n"
    then have "a div n * n \<le> b div n * n" by (rule mult_le_mono1)
    then show "a \<le> b" using that div_mult_mod_eq [of a n] div_mult_mod_eq [of b n] by linarith
  qed (simp add: div_le_mono)
  show ?thesis using ge [of low i] ge [of i high] assms(2) by (auto simp: ino_range_def)
qed

lemma failure_insert_ok:
  assumes inv: "fs_inv E sbi" and lh: "low \<le> high" "high mod cpus sbi = low mod cpus sbi" "high div cpus sbi < MAX_INODE"
    and dis: "ino_range (cpus sbi) low high \<inter> used_inos sbi = {}"
  shows "\<exists>sbi'. nova_failure_insert_inodetree E sbi low high = (sbi', Inr ()) \<and> fs_inv E sbi' \<and>
    cpus sbi' = cpus sbi \<and> used_inos sbi' = used_inos sbi \<union> ino_range (cpus sbi) low high \<and> all_free sbi' = all_free sbi"
proof -
  let ?c = "low mod cpus sbi" and ?l = "low div cpus sbi" and ?h = "high div cpus sbi"
  have i: "rb_lib_ok E" "kmem_ok E" "maps_inv E sbi" "kmem_zalloc E (requests (nodes sbi)) (live (nodes sbi)) \<noteq> None"
    using inv by (auto simp: fs_inv_def kmem_total_def)
  have c: "0 < cpus sbi" "?c < cpus sbi" "length (inode_maps sbi) = cpus sbi" "map_inv E (nodes sbi) (inode_maps sbi ! ?c)"
    using i(3) by (auto simp: maps_inv_def)
  note rng = ino_range_div [OF c(1) lh(2)]
  have mid: "(n * cpus sbi + ?c) div cpus sbi = n" "(n * cpus sbi + ?c) mod cpus sbi = ?c" for n using c(1) by simp_all
  have free: "{?l..?h} \<inter> map_used (nodes sbi) (inode_maps sbi ! ?c) = {}"
  proof (rule ccontr)
    assume "{?l..?h} \<inter> map_used (nodes sbi) (inode_maps sbi ! ?c) \<noteq> {}"
    then obtain n where n: "?l \<le> n" "n \<le> ?h" "n \<in> map_used (nodes sbi) (inode_maps sbi ! ?c)" by auto
    then have "n * cpus sbi + ?c \<in> ino_range (cpus sbi) low high" "n * cpus sbi + ?c \<in> used_inos sbi"
      by (simp_all add: rng used_inos_def mid)
    then show False using dis by blast
  qed
  have le: "?l \<le> ?h" using lh(1) by (rule div_le_mono)
  from insert_ino_range_ok [OF i(1,2) c(4) i(4) le lh(3) free] obtain prev nxt s' im' where
    r: "nova_find_free_slot E (nodes sbi) (inode_inuse_tree (inode_maps sbi ! ?c)) ?l ?h = Inr (prev, nxt)"
    "insert_ino_range E (nodes sbi) (inode_maps sbi ! ?c) ?l ?h prev nxt = (s', im', Inr ())"
    "map_step E (nodes sbi) (inode_maps sbi ! ?c) s' im' (map_used (nodes sbi) (inode_maps sbi ! ?c) \<union> {?l..?h})"
    by blast
  let ?sbi = "set_inode_map ?c im' s' sbi"
  have eq: "?sbi = sbi\<lparr>inode_maps := (inode_maps sbi)[?c := im'], nodes := s', s_inodes_used_count := s_inodes_used_count sbi\<rparr>"
    by (simp add: set_inode_map_def)
  have run: "nova_failure_insert_inodetree E sbi low high = (?sbi, Inr ())"
    using lh(1,2) c(2,3) r(1,2) by (simp add: nova_failure_insert_inodetree_def Let_def get_inode_map_def)
  define U where "U = map_used (nodes sbi) (inode_maps sbi ! ?c)"
  have st: "used_inos ?sbi = {j. if j mod cpus sbi = ?c
      then j div cpus sbi \<in> U \<union> {?l..?h} else j \<in> used_inos sbi}"
    using maps_step(2) [OF i(3) c(2) r(3), of ?sbi] by (simp add: set_inode_map_def U_def)
  have here: "j \<in> used_inos sbi \<longleftrightarrow> j div cpus sbi \<in> U" if "j mod cpus sbi = ?c" for j
    using that by (simp add: used_inos_def U_def)
  have "j \<in> used_inos ?sbi \<longleftrightarrow> j \<in> used_inos sbi \<or> j \<in> ino_range (cpus sbi) low high" for j
    unfolding st rng using here [of j] by (cases "j mod cpus sbi = ?c") simp_all
  then have "used_inos ?sbi = used_inos sbi \<union> ino_range (cpus sbi) low high" by blast
  then show ?thesis using run fs_step [OF inv c(2) r(3) eq] by (auto simp: set_inode_map_def)
qed

subsection \<open>The numbers of a block\<close>

definition pending :: "nat \<Rightarrow> nat \<Rightarrow> nat \<Rightarrow> nat set" where
  "pending n lo hi = (if lo = 0 then {} else ino_range n lo hi)"

definition pending_ok :: "nat \<Rightarrow> nat \<Rightarrow> nat \<Rightarrow> nat \<Rightarrow> bool" where
  "pending_ok n c lo hi \<longleftrightarrow> lo \<noteq> 0 \<longrightarrow> lo \<le> hi \<and> lo mod n = c \<and> hi mod n = c \<and> hi div n < MAX_INODE"

definition inos_ok :: "nat \<Rightarrow> nat \<Rightarrow> nat list \<Rightarrow> bool" where
  "inos_ok n c is \<longleftrightarrow> distinct is \<and> (\<forall>i \<in> set is. i \<noteq> 0 \<and> i mod n = c \<and> i div n < MAX_INODE)"

lemma ino_range_extend:
  assumes "0 < n" "lo \<le> hi" "hi mod n = lo mod n"
  shows "ino_range n lo (hi + n) = insert (hi + n) (ino_range n lo hi)"
proof -
  have m: "(hi + n) mod n = lo mod n" using assms(3) by simp
  have "(hi + n) div n = Suc (hi div n)" using assms(1) by (simp add: div_add_self2)
  then have "i \<in> ino_range n lo (hi + n) \<longleftrightarrow> i \<in> ino_range n lo hi \<or> (i mod n = lo mod n \<and> i div n = Suc (hi div n))" for i
    using ino_range_div [OF assms(1) m, of i] ino_range_div [OF assms(1,3), of i] div_le_mono [OF assms(2), of n] by auto
  moreover have "i mod n = lo mod n \<and> i div n = Suc (hi div n) \<longleftrightarrow> i = hi + n" for i
    using \<open>(hi + n) div n = Suc (hi div n)\<close> m by (metis div_mult_mod_eq)
  ultimately show ?thesis by auto
qed

lemma recover_inos_ok:
  assumes "fs_inv E sbi" "inos_ok (cpus sbi) c is" "pending_ok (cpus sbi) c lo hi"
    "(pending (cpus sbi) lo hi \<union> set is) \<inter> used_inos sbi = {}" "pending (cpus sbi) lo hi \<inter> set is = {}"
  shows "\<exists>sbi'. recover_inos E is lo hi sbi = (sbi', Inr ()) \<and> fs_inv E sbi' \<and> all_free sbi' = all_free sbi \<and>
    used_inos sbi' = used_inos sbi \<union> pending (cpus sbi) lo hi \<union> set is"
  using assms
proof (induction "is" arbitrary: lo hi sbi)
  case Nil
  show ?case
  proof (cases "lo = 0")
    case True
    then show ?thesis using Nil.prems(1) by (auto simp: pending_def)
  next
    case False
    then have "hi \<noteq> 0" using Nil.prems(3) by (auto simp: pending_ok_def)
    then show ?thesis
      using failure_insert_ok [OF Nil.prems(1), of lo hi] Nil.prems(3,4) False by (auto simp: pending_def pending_ok_def)
  qed
next
  case (Cons i "is")
  let ?n = "cpus sbi"
  have n: "0 < ?n" "?n < 2 ^ 31" using Cons.prems(1) by (auto simp: fs_inv_def maps_inv_def)
  have i: "i \<noteq> 0" "i mod ?n = c" "i div ?n < MAX_INODE" "i \<notin> set is" "inos_ok ?n c is" "i \<notin> used_inos sbi"
    using Cons.prems(2,4) by (auto simp: inos_ok_def)
  have one: "pending ?n i i = {i}" "pending_ok ?n c i i" using i by (auto simp: pending_def pending_ok_def ino_range_def)
  have wrap: "u64_add hi ?n = hi + ?n" if "lo \<noteq> 0"
  proof -
    have "hi < MAX_INODE * ?n" using Cons.prems(3) that n(1) by (simp add: pending_ok_def div_less_iff_less_mult)
    moreover have "MAX_INODE * ?n \<le> MAX_INODE * 2 ^ 31" using n(2) by (intro mult_le_mono2) simp
    ultimately show ?thesis using n(2) by (simp add: MAX_INODE_def)
  qed
  consider (first) "lo = 0" | (next1) "lo \<noteq> 0" "i = hi + ?n" | (other) "lo \<noteq> 0" "i \<noteq> hi + ?n" by blast
  then show ?case
  proof cases
    case first
    then show ?thesis
      using Cons.IH [OF Cons.prems(1) i(5) one(2)] Cons.prems(4) i one(1)
      by (auto simp: nova_failure_update_inodetree_def pending_def)
  next
    case next1
    have p: "lo \<le> hi" "lo mod ?n = c" "hi mod ?n = c" "hi div ?n < MAX_INODE" using next1 Cons.prems(3) by (auto simp: pending_ok_def)
    have ext: "pending ?n lo i = insert i (pending ?n lo hi)"
      using ino_range_extend [OF n(1) p(1)] p next1 by (simp add: pending_def)
    have "nova_failure_update_inodetree E i lo hi sbi = (sbi, Inr (lo, i))"
      using next1 wrap by (simp add: nova_failure_update_inodetree_def)
    moreover have "pending_ok ?n c lo i" using p next1 i by (simp add: pending_ok_def)
    ultimately show ?thesis
      using Cons.IH [OF Cons.prems(1) i(5), of lo i] Cons.prems(4,5) i(4) ext by auto
  next
    case other
    have p: "lo \<le> hi" "hi mod ?n = lo mod ?n" "hi div ?n < MAX_INODE" using other Cons.prems(3) by (auto simp: pending_ok_def)
    have R: "pending ?n lo hi = ino_range ?n lo hi" using other by (simp add: pending_def)
    obtain sbi1 where s: "nova_failure_insert_inodetree E sbi lo hi = (sbi1, Inr ())" "fs_inv E sbi1" "cpus sbi1 = ?n"
      "used_inos sbi1 = used_inos sbi \<union> pending ?n lo hi" "all_free sbi1 = all_free sbi"
      using failure_insert_ok [OF Cons.prems(1) p] Cons.prems(4) R by auto
    have d: "({i} \<union> set is) \<inter> used_inos sbi1 = {}" "{i} \<inter> set is = {}"
      using s(4) Cons.prems(4,5) i(4) by auto
    have "\<exists>sbi'. recover_inos E is i i sbi1 = (sbi', Inr ()) \<and> fs_inv E sbi' \<and> all_free sbi' = all_free sbi1 \<and>
        used_inos sbi' = used_inos sbi1 \<union> {i} \<union> set is"
      using Cons.IH [OF s(2), of i i] d i(5) one s(3) by simp
    moreover have "nova_failure_update_inodetree E i lo hi sbi = (sbi1, Inr (i, i))"
      using other s(1) wrap by (simp add: nova_failure_update_inodetree_def)
    ultimately show ?thesis using s(4,5) by auto
  qed
qed

text \<open>
  C38: scanning the inodes of one block of an inode table after a failure puts exactly their numbers
  into the tree of used numbers of the CPU, whatever their order: runs of consecutive numbers are
  collected and inserted as ranges that join their neighbours, the trees stay well formed, and the
  free lists of blocks are not touched.
\<close>

theorem recovered_inos_in_use:
  assumes "fs_inv E sbi" "inos_ok (cpus sbi) c inos" "set inos \<inter> used_inos sbi = {}"
  shows "\<exists>sbi'. recover_inos E inos 0 0 sbi = (sbi', Inr ()) \<and> fs_inv E sbi' \<and> all_free sbi' = all_free sbi \<and>
    used_inos sbi' = used_inos sbi \<union> set inos"
  using recover_inos_ok [OF assms(1,2), of 0 0] assms(3) by (simp add: pending_def pending_ok_def)

text \<open>A map whose numbers below 32 are in use.\<close>

definition rec_slab :: slab where
  "rec_slab = demo_slab\<lparr>node_of := (node_of demo_slab)(2 := zero_node\<lparr>range_low := 0, range_high := 31\<rparr>),
                        live := {1, 2}\<rparr>"

definition rec_map :: inode_map where
  "rec_map = \<lparr>inode_inuse_tree = Node Leaf 2 Leaf, num_range_node_inode = 1, first_inode_range = Some 2, allocated = 0, freed = 0\<rparr>"

definition rec_fs :: sb_info where
  "rec_fs = demo_sb\<lparr>inode_maps := [rec_map], nodes := rec_slab\<rparr>"

lemma rec_fs_inv: "fs_inv demo_env_total rec_fs" "used_inos rec_fs = {..31}" "cpus rec_fs = 1"
proof -
  have sp: "span rec_slab 1 = (100, 1999)" "span rec_slab 2 = (0, 31)"
    by (simp_all add: rec_slab_def demo_slab_def span_def)
  have ok: "node_ok demo_env_total rec_slab p" for p
    by (simp add: node_ok_def nova_range_node_checksum_ok_def demo_env_total_def demo_env_def)
  have nodes: "map_nodes rec_map = [2]" "fl_nodes demo_list = [1]" "live rec_slab = {1, 2}" "first_inode_range rec_map = Some 2"
    by (simp_all add: map_nodes_def rec_map_def demo_free rec_slab_def)
  have "free_list_inv demo_env_total rec_slab demo_list"
    using ok sp nodes by (simp add: free_list_inv_def nodes_inv_simps range_simps range_size_def end_options free_set_blocks)
      (simp add: demo_list_def)
  then have "lists_inv demo_env_total rec_fs" by (simp add: lists_inv_def list_bounds_def rec_fs_def demo_list_def)
  moreover have "map_inv demo_env_total rec_slab rec_map"
    using ok sp nodes by (simp add: map_inv_def nodes_inv_simps gaps_def MAX_INODE_def)
  then have "maps_inv demo_env_total rec_fs" by (simp add: maps_inv_def rec_fs_def)
  moreover have "list_nodes rec_fs \<inter> inode_nodes rec_fs = {}" using nodes by (simp add: list_nodes_def inode_nodes_def rec_fs_def)
  ultimately show "fs_inv demo_env_total rec_fs"
    using demo_env_total_ok nodes by (simp add: fs_inv_def rec_fs_def)
  show "used_inos rec_fs = {..31}" "cpus rec_fs = 1"
    using sp nodes by (auto simp: used_inos_def rec_fs_def map_used_def blocks_of_Cons)
qed

theorem recovered_inos_in_use_witness:
  "\<exists>sbi'. recover_inos demo_env_total [40, 41, 50, 32] 0 0 rec_fs = (sbi', Inr ()) \<and>
     used_inos sbi' = {..31} \<union> {32, 40, 41, 50}"
proof -
  have "inos_ok (cpus rec_fs) 0 [40, 41, 50, 32]" "set [40, 41, 50, 32] \<inter> used_inos rec_fs = {}"
    unfolding rec_fs_inv(2,3) by (simp_all add: inos_ok_def MAX_INODE_def)
  from recovered_inos_in_use [OF rec_fs_inv(1) this] show ?thesis by (auto simp: rec_fs_inv(2))
qed

end
