(* ===== verification/Dir_Tree.thy ===== *)
theory Dir_Tree
  imports Checksum
begin

text \<open>
  The index of a directory in memory: a red-black tree of range nodes whose \<^verbatim>\<open>range_low\<close> is the hash
  of a name and whose \<^verbatim>\<open>range_high\<close> is the address of the directory entry (\<^verbatim>\<open>dir.c\<close>). Addresses
  of entries are device offsets, 0 the null pointer; a name is given by its bytes.
\<close>

subsection \<open>Definitions\<close>

definition nova_alloc_dir_node :: "nova_env \<Rightarrow> slab \<Rightarrow> slab \<times> ptr option" where
  "nova_alloc_dir_node E s = nova_alloc_range_node E s"

definition nova_free_dir_node :: "slab \<Rightarrow> ptr \<Rightarrow> slab" where
  "nova_free_dir_node s p = nova_free_range_node s p"

text \<open>The characters are signed and are sign-extended before they are added.\<close>

definition BKDRHash :: "u8 list \<Rightarrow> nat" where
  "BKDRHash str = foldl (\<lambda>hash c. nat ((int hash * 131 + sint c) mod 2 ^ 64)) 0 str"

definition nova_find_dentry :: "nova_env \<Rightarrow> slab \<Rightarrow> inode_info_header \<Rightarrow> u8 list \<Rightarrow> nat" where
  "nova_find_dentry E s sih name =
     (let hash = BKDRHash name in
      case nova_find_range_node E s (rb_tree sih) hash NODE_DIR None of
        (True, Some p) \<Rightarrow> if hash = range_low (node_of s p) then range_high (node_of s p) else 0
      | _ \<Rightarrow> 0)"

definition nova_insert_dir_tree ::
    "nova_env \<Rightarrow> slab \<Rightarrow> inode_info_header \<Rightarrow> u8 list \<Rightarrow> nat \<Rightarrow> slab \<times> inode_info_header \<times> unit res" where
  "nova_insert_dir_tree E s sih name direntry =
     (let hash = BKDRHash name in
      case nova_alloc_dir_node E s of
        (s, None) \<Rightarrow> (s, sih, Inl ENOMEM)
      | (s, Some node) \<Rightarrow>
          let s = set_high node direntry (set_low node hash s) in
          case nova_insert_range_node E s (rb_tree sih) node NODE_DIR of
            Inl e \<Rightarrow> (nova_free_dir_node s node, sih, Inl e)
          | Inr t \<Rightarrow> (s, sih\<lparr>rb_tree := t\<rparr>, Inr ()))"

text \<open>Whether the first \<open>n\<close> bytes differ; bytes after a common null byte are not compared.\<close>

fun strncmp :: "nat \<Rightarrow> u8 list \<Rightarrow> u8 list \<Rightarrow> bool" where
  "strncmp 0 xs ys = False"
| "strncmp (Suc n) (x # xs) (y # ys) = (if x \<noteq> y then True else if x = 0 then False else strncmp n xs ys)"
| "strncmp (Suc n) _ _ = True"

definition nova_check_dentry_match :: "u8 list \<Rightarrow> u8 list \<Rightarrow> bool" where
  "nova_check_dentry_match dentry name =
     (if field_of nova_dentry D_name_len dentry \<noteq> length name then True
      else strncmp (length name) (drop (packed_off nova_dentry D_name) dentry) name)"

text \<open>
  The check of the entry that was removed: the bytes of the entry, from the device or from the
  verified copy, or None.
\<close>

definition removed_entry :: "nova_env \<Rightarrow> nat \<Rightarrow> pm \<Rightarrow> (pm \<times> u8 list option) res" where
  "removed_entry E entry P =
     (if \<not> metadata_csum E then Inr (P, Some (get_bytes (mem P) entry (packed_size nova_dentry)))
      else case nova_verify_entry_csum E entry P of
             Inl e \<Rightarrow> Inl e
           | Inr (P, False, _) \<Rightarrow> Inr (P, None)
           | Inr (P, True, c) \<Rightarrow> Inr (P, c))"

text \<open>
  The node is erased before the entry is checked. The result is the entry, for \<^verbatim>\<open>create_dentry\<close>,
  or nothing in a replay.
\<close>

definition nova_remove_dir_tree ::
    "nova_env \<Rightarrow> slab \<Rightarrow> inode_info_header \<Rightarrow> u8 list \<Rightarrow> bool \<Rightarrow> pm
     \<Rightarrow> slab \<times> inode_info_header \<times> pm \<times> nat option res" where
  "nova_remove_dir_tree E s sih name replay P =
     (let hash = BKDRHash name in
      case nova_find_range_node E s (rb_tree sih) hash NODE_DIR None of
        (True, Some p) \<Rightarrow>
          let entry = range_high (node_of s p);
              sih = sih\<lparr>rb_tree := rb_erase E p (rb_tree sih)\<rparr>;
              s = nova_free_dir_node s p
          in if replay then (s, sih, P, Inr None)
             else if entry = 0 then (s, sih, P, Inl EINVAL)
             else (case removed_entry E entry P of
                     Inl e \<Rightarrow> (s, sih, P, Inl e)
                   | Inr (P, None) \<Rightarrow> (s, sih, P, Inl EINVAL)
                   | Inr (P, Some c) \<Rightarrow>
                       if field_of nova_dentry D_ino c = 0 \<or> field_of nova_dentry D_invalid c \<noteq> 0 \<or>
                          nova_check_dentry_match c name
                       then (s, sih, P, Inl EINVAL)
                       else (s, sih, P, Inr (Some entry)))
      | _ \<Rightarrow> (s, sih, P, Inl EINVAL))"

definition nova_delete_dir_tree :: "nova_env \<Rightarrow> slab \<Rightarrow> inode_info_header \<Rightarrow> slab \<times> inode_info_header" where
  "nova_delete_dir_tree E s sih =
     (let (s, t) = nova_destroy_range_node_tree E s (rb_tree sih) in (s, sih\<lparr>rb_tree := t\<rparr>))"

end
