(* ===== verification/Dir_Tree_Props.thy ===== *)
theory Dir_Tree_Props
  imports Dir_Tree Balloc_Props
begin

text \<open>
  The directory index refines a map from hashes to entries, for every sequence of insertions and
  removals. It knows no names: names with the same hash are the same to it.
\<close>

subsection \<open>The index as a map\<close>

definition dir_map :: "slab \<Rightarrow> ptr list \<Rightarrow> nat \<rightharpoonup> nat" where
  "dir_map s ps = map_of (map (span s) ps)"

definition dir_inv :: "nova_env \<Rightarrow> slab \<Rightarrow> inode_info_header \<Rightarrow> bool" where
  "dir_inv E s sih \<longleftrightarrow>
     rb_lib_ok E \<and> kmem_ok E \<and> kmem_total E \<and> \<not> dram_struct_csum E \<and> finite (live s) \<and>
     distinct (inorder (rb_tree sih)) \<and> set (inorder (rb_tree sih)) \<subseteq> live s \<and>
     sorted_wrt (<) (map (\<lambda>p. fst (span s p)) (inorder (rb_tree sih)))"

lemma dir_ranges: "ranges_ok (map (key_span NODE_DIR s) ps) \<longleftrightarrow> sorted_wrt (<) (map (\<lambda>p. fst (span s p)) ps)"
  by (simp add: ranges_ok_def list_all_iff sorted_wrt_map key_span_def span_def)

lemma dir_map_Some:
  assumes "sorted_wrt (<) (map (\<lambda>p. fst (span s p)) ps)"
  shows "dir_map s ps h = Some e \<longleftrightarrow> (\<exists>p \<in> set ps. span s p = (h, e))"
proof -
  have "distinct (map fst (map (span s) ps))"
    using assms strict_sorted_iff [of "map (\<lambda>p. fst (span s p)) ps"] by (simp add: comp_def)
  then show ?thesis by (force simp: dir_map_def)
qed

text \<open>The search finds the node with the hash, if there is one.\<close>

lemma find_dir_node:
  assumes inv: "dir_inv E s sih"
  shows "case dir_map s (inorder (rb_tree sih)) h of
      None \<Rightarrow> \<exists>q. nova_find_range_node E s (rb_tree sih) h NODE_DIR None = (False, q)
    | Some e \<Rightarrow> \<exists>p \<in> set (inorder (rb_tree sih)). nova_find_range_node E s (rb_tree sih) h NODE_DIR None = (True, Some p) \<and>
        span s p = (h, e)"
proof -
  let ?t = "rb_tree sih"
  have st: "sorted_wrt (<) (map (\<lambda>p. fst (span s p)) (inorder ?t))" and cs: "\<not> dram_struct_csum E"
    using inv by (simp_all add: dir_inv_def)
  note some = dir_map_Some [OF st, of h]
  obtain f q where f: "find_descend s h NODE_DIR ?t None = (f, q)" by fastforce
  have find: "nova_find_range_node E s ?t h NODE_DIR None = (f, q)"
    using f cs by (simp add: nova_find_range_node_def nova_range_node_checksum_ok_def split: option.split)
  show ?thesis
  proof (cases f)
    case True
    then obtain p where p: "q = Some p" "p \<in> set (inorder ?t)" "fst (span s p) = h"
      using find_descend_found [of s h NODE_DIR ?t None q] f by (auto simp: key_span_def span_def)
    then have "dir_map s (inorder ?t) h = Some (snd (span s p))" using some by (metis prod.collapse)
    then show ?thesis using p find True by (auto intro!: bexI [of _ p] prod_eqI)
  next
    case False
    then obtain xs ys where xy: "inorder ?t = xs @ ys" "\<forall>p \<in> set xs. fst (span s p) < h" "\<forall>p \<in> set ys. h < fst (span s p)"
      using find_descend_not_found [of NODE_DIR s ?t h None q] f st by (auto simp: dir_ranges key_span_def span_def)
    then have "dir_map s (inorder ?t) h = None" using some by (cases "dir_map s (inorder ?t) h") fastforce+
    then show ?thesis using find False by auto
  qed
qed

lemma insert_dir_node:
  assumes inv: "dir_inv E s sih" and m: "dir_map s (inorder (rb_tree sih)) (range_low (node_of s' new)) = None"
    and agr: "\<forall>p \<in> set (inorder (rb_tree sih)). span s' p = span s p"
  shows "\<exists>t xs ys. nova_insert_range_node E s' (rb_tree sih) new NODE_DIR = Inr t \<and>
    inorder (rb_tree sih) = xs @ ys \<and> inorder t = xs @ new # ys \<and>
    (\<forall>p \<in> set xs. fst (span s p) < range_low (node_of s' new)) \<and> (\<forall>p \<in> set ys. range_low (node_of s' new) < fst (span s p))"
proof -
  let ?t = "rb_tree sih" and ?h = "range_low (node_of s' new)"
  have st: "sorted_wrt (<) (map (\<lambda>p. fst (span s p)) (inorder ?t))" using inv by (simp add: dir_inv_def)
  have same: "map (\<lambda>p. fst (span s' p)) (inorder ?t) = map (\<lambda>p. fst (span s p)) (inorder ?t)" using agr by simp
  have "rb_link s' NODE_DIR new ?t \<noteq> None"
  proof
    assume "rb_link s' NODE_DIR new ?t = None"
    then obtain p where "p \<in> set (inorder ?t)" "fst (span s' p) = ?h"
      using rb_link_None [of s' NODE_DIR new ?t] by (auto simp: key_span_def span_def)
    then have "\<exists>e. dir_map s (inorder ?t) ?h = Some e" using dir_map_Some [OF st] agr by (metis prod.collapse)
    then show False using m by simp
  qed
  then obtain t' where t': "rb_link s' NODE_DIR new ?t = Some t'" by auto
  have "ranges_ok (map (key_span NODE_DIR s') (inorder ?t))" unfolding dir_ranges same by (rule st)
  from rb_link_Some [OF this t'] obtain xs ys where xy: "inorder ?t = xs @ ys" "inorder t' = xs @ new # ys"
    "\<forall>p \<in> set xs. fst (span s' p) < ?h" "\<forall>p \<in> set ys. ?h < fst (span s' p)"
    by (auto simp: key_span_def span_def)
  have "inorder (rb_insert_color E new t') = xs @ new # ys" using inv xy(2) by (simp add: dir_inv_def rb_lib_ok_def)
  then show ?thesis using t' xy agr by (auto simp: nova_insert_range_node_def)
qed

lemma span_free_fun: "span (nova_free_range_node s p) = span s"
  by (rule ext) simp

definition index_of :: "slab \<times> inode_info_header \<Rightarrow> nat \<rightharpoonup> nat" where
  "index_of st = dir_map (fst st) (inorder (rb_tree (snd st)))"

lemma find_dentry_index:
  assumes "dir_inv E s sih"
  shows "nova_find_dentry E s sih name = (case index_of (s, sih) (BKDRHash name) of None \<Rightarrow> 0 | Some e \<Rightarrow> e)"
  using find_dir_node [OF assms, of "BKDRHash name"]
  by (auto simp: nova_find_dentry_def index_of_def span_def split: option.splits)

lemma insert_dir_tree_ok:
  assumes inv: "dir_inv E s sih" and r: "nova_insert_dir_tree E s sih name e = (s', sih', r)"
  shows "dir_inv E s' sih' \<and> (r = Inr () \<longleftrightarrow> index_of (s, sih) (BKDRHash name) = None) \<and>
    index_of (s', sih') = (if r = Inr () then (index_of (s, sih))(BKDRHash name \<mapsto> e) else index_of (s, sih))"
proof -
  let ?t = "rb_tree sih" and ?h = "BKDRHash name"
  have i: "rb_lib_ok E" "kmem_ok E" "distinct (inorder ?t)" "set (inorder ?t) \<subseteq> live s" "finite (live s)"
    "sorted_wrt (<) (map (\<lambda>p. fst (span s p)) (inorder ?t))" "kmem_zalloc E (requests s) (live s) \<noteq> None"
    using inv by (auto simp: dir_inv_def kmem_total_def)
  obtain s1 c where al: "nova_alloc_range_node E s = (s1, Some c)"
    using i(7) by (auto simp: nova_alloc_range_node_def Let_def)
  note a = alloc_range_node_Some [OF i(2) al]
  define s2 where "s2 = set_high c e (set_low c ?h s1)"
  have c: "c \<notin> set (inorder ?t)" using a(1) i(4) by auto
  have sp: "span s2 c = (?h, e)" "\<forall>p \<in> set (inorder ?t). span s2 p = span s p" "range_low (node_of s2 c) = ?h"
    using c a(4) by (auto simp: s2_def span_low_high)
  have lv: "live s2 = insert c (live s)" by (simp add: s2_def a(3))
  have keep: "map (\<lambda>p. fst (span s2 p)) (inorder ?t) = map (\<lambda>p. fst (span s p)) (inorder ?t)"
    "map (span s2) (inorder ?t) = map (span s) (inorder ?t)" using sp(2) by simp_all
  show ?thesis
  proof (cases "index_of (s, sih) ?h")
    case None
    then obtain t xs ys where t: "nova_insert_range_node E s2 ?t c NODE_DIR = Inr t" "inorder ?t = xs @ ys"
      "inorder t = xs @ c # ys" "\<forall>p \<in> set xs. fst (span s p) < ?h" "\<forall>p \<in> set ys. ?h < fst (span s p)"
      using insert_dir_node [OF inv, of s2 c] sp(2,3) by (auto simp: index_of_def)
    have res: "s' = s2" "sih' = sih\<lparr>rb_tree := t\<rparr>" "r = Inr ()"
      using r al t(1) by (simp_all add: nova_insert_dir_tree_def nova_alloc_dir_node_def s2_def Let_def)
    have "sorted_wrt (<) (map (\<lambda>p. fst (span s2 p)) (inorder t))"
    proof -
      have eq: "map (\<lambda>p. fst (span s2 p)) (inorder t) =
          map (\<lambda>p. fst (span s p)) xs @ ?h # map (\<lambda>p. fst (span s p)) ys"
        using sp(1,2) t(2,3) by simp
      show ?thesis unfolding eq using i(6) t(2,4,5) by (auto simp: sorted_wrt_append)
    qed
    then have "dir_inv E s2 (sih\<lparr>rb_tree := t\<rparr>)"
      using inv t(2,3) c lv by (auto simp: dir_inv_def)
    moreover have "index_of (s2, sih\<lparr>rb_tree := t\<rparr>) = (index_of (s, sih))(?h \<mapsto> e)"
    proof
      fix k
      have eq: "map (span s2) (inorder t) = map (span s) xs @ (?h, e) # map (span s) ys" using sp t(2,3) by simp
      have "map_of (map (span s) xs) ?h = None" using t(4) by (auto simp: map_of_eq_None_iff)
      then show "index_of (s2, sih\<lparr>rb_tree := t\<rparr>) k = ((index_of (s, sih))(?h \<mapsto> e)) k"
        by (auto simp: index_of_def dir_map_def eq t(2) map_add_def split: option.split)
    qed
    ultimately show ?thesis using None res by simp
  next
    case (Some v)
    then obtain p where p: "p \<in> set (inorder ?t)" "fst (span s2 p) = ?h"
      using dir_map_Some [OF i(6), of ?h v] sp(2) by (auto simp: index_of_def)
    have "rb_link s2 NODE_DIR c ?t = None"
    proof (rule ccontr)
      assume "rb_link s2 NODE_DIR c ?t \<noteq> None"
      then obtain t' where "rb_link s2 NODE_DIR c ?t = Some t'" by auto
      moreover have "ranges_ok (map (key_span NODE_DIR s2) (inorder ?t))" unfolding dir_ranges keep using i(6) .
      ultimately obtain xs ys where xy: "inorder ?t = xs @ ys" "\<forall>p \<in> set xs. fst (span s2 p) < ?h" "\<forall>p \<in> set ys. ?h < fst (span s2 p)"
        using rb_link_Some [of NODE_DIR s2 ?t c t'] sp(3) by (auto simp: key_span_def span_def)
      have "p \<in> set xs \<union> set ys" using p(1) unfolding xy(1) by simp
      then show False using p(2) xy(2,3) by auto
    qed
    then have res: "s' = nova_free_dir_node s2 c" "sih' = sih" "r = Inl EINVAL"
      using r al by (simp_all add: nova_insert_dir_tree_def nova_alloc_dir_node_def s2_def Let_def nova_insert_range_node_def)
    have "sorted_wrt (<) (map (\<lambda>p. fst (span s' p)) (inorder ?t))"
      using i(6) unfolding res(1) nova_free_dir_node_def span_free_fun keep(1) .
    moreover have "live s' = live s" using lv a(1) by (simp add: res(1) nova_free_dir_node_def nova_free_range_node_def)
    ultimately have "dir_inv E s' sih" using inv by (simp add: dir_inv_def)
    moreover have "index_of (s', sih) = index_of (s, sih)"
      unfolding index_of_def dir_map_def res nova_free_dir_node_def span_free_fun fst_conv snd_conv keep(2) ..
    ultimately show ?thesis using Some res by simp
  qed
qed

lemma remove_dir_tree_ok:
  assumes inv: "dir_inv E s sih" and r: "nova_remove_dir_tree E s sih name True P = (s', sih', P', r)"
  shows "dir_inv E s' sih' \<and> ((\<exists>x. r = Inr x) \<longleftrightarrow> index_of (s, sih) (BKDRHash name) \<noteq> None) \<and>
    index_of (s', sih') = (index_of (s, sih))(BKDRHash name := None)"
proof (cases "index_of (s, sih) (BKDRHash name)")
  case None
  then show ?thesis
    using find_dir_node [OF inv, of "BKDRHash name"] r inv
    by (auto simp: nova_remove_dir_tree_def index_of_def split: bool.splits)
next
  case (Some e)
  let ?t = "rb_tree sih" and ?h = "BKDRHash name"
  have i: "rb_lib_ok E" "distinct (inorder ?t)" "sorted_wrt (<) (map (\<lambda>p. fst (span s p)) (inorder ?t))"
    using inv by (simp_all add: dir_inv_def)
  obtain p where p: "p \<in> set (inorder ?t)" "nova_find_range_node E s ?t ?h NODE_DIR None = (True, Some p)" "span s p = (?h, e)"
    using find_dir_node [OF inv, of ?h] Some by (auto simp: index_of_def)
  obtain xs ys where xy: "inorder ?t = xs @ p # ys" using p(1) by (meson split_list)
  have er: "inorder (rb_erase E p ?t) = xs @ ys" using rb_erase_inorder [OF i(1,2) xy] .
  have res: "s' = nova_free_dir_node s p" "sih' = sih\<lparr>rb_tree := rb_erase E p ?t\<rparr>" "r = Inr None"
    using r p(2) by (simp_all add: nova_remove_dir_tree_def Let_def)
  have "sorted_wrt (<) (map (\<lambda>p. fst (span s p)) (xs @ ys))" using i(3) xy by (simp add: sorted_wrt_append)
  then have "dir_inv E s' sih'"
    using inv xy er by (auto simp: dir_inv_def res nova_free_dir_node_def nova_free_range_node_def span_def)
  moreover have "index_of (s', sih') = (index_of (s, sih))(?h := None)"
  proof
    fix k
    have "map_of (map (span s) xs) ?h = None" "map_of (map (span s) ys) ?h = None"
      using i(3) xy p(3) by (auto simp: map_of_eq_None_iff sorted_wrt_append)
    then show "index_of (s', sih') k = ((index_of (s, sih))(?h := None)) k"
      using p(3) xy er by (auto simp: index_of_def dir_map_def res nova_free_dir_node_def span_free_fun map_add_def split: option.split)
  qed
  ultimately show ?thesis using Some res by simp
qed

subsection \<open>Sequences of operations\<close>

text \<open>
  An index promises to behave as a map: an insertion of a new key succeeds and binds it, one of a
  key that is bound fails and changes nothing, and a removal unbinds the key.
\<close>

datatype dir_op = Add "u8 list" nat | Del "u8 list"

fun dir_step :: "(u8 list \<Rightarrow> nat \<Rightarrow> 'st \<Rightarrow> 'st) \<Rightarrow> (u8 list \<Rightarrow> 'st \<Rightarrow> 'st) \<Rightarrow> dir_op \<Rightarrow> 'st \<Rightarrow> 'st" where
  "dir_step add del (Add name e) st = add name e st"
| "dir_step add del (Del name) st = del name st"

fun spec_step :: "(u8 list \<Rightarrow> nat) \<Rightarrow> dir_op \<Rightarrow> (nat \<rightharpoonup> nat) \<Rightarrow> (nat \<rightharpoonup> nat)" where
  "spec_step key (Add name e) m = (if m (key name) = None then m(key name \<mapsto> e) else m)"
| "spec_step key (Del name) m = m(key name := None)"

locale name_index =
  fixes inv :: "'st \<Rightarrow> bool" and index :: "'st \<Rightarrow> nat \<rightharpoonup> nat" and key :: "u8 list \<Rightarrow> nat"
    and add :: "u8 list \<Rightarrow> nat \<Rightarrow> 'st \<Rightarrow> 'st" and del :: "u8 list \<Rightarrow> 'st \<Rightarrow> 'st"
  assumes add_inv: "inv st \<Longrightarrow> inv (add name e st)"
    and add_index: "inv st \<Longrightarrow>
      index (add name e st) = (if index st (key name) = None then (index st)(key name \<mapsto> e) else index st)"
    and del_inv: "inv st \<Longrightarrow> inv (del name st)"
    and del_index: "inv st \<Longrightarrow> index (del name st) = (index st)(key name := None)"
begin

lemma step_refines: "inv st \<Longrightarrow> inv (dir_step add del x st) \<and> index (dir_step add del x st) = spec_step key x (index st)"
  by (cases x) (simp_all add: add_inv add_index del_inv del_index)

lemma run_refines:
  "inv st \<Longrightarrow> inv (fold (dir_step add del) ops st) \<and>
     index (fold (dir_step add del) ops st) = fold (spec_step key) ops (index st)"
  by (induction ops arbitrary: st) (simp_all add: step_refines)

end

text \<open>The index of a directory is one, with the hash as the key.\<close>

definition tree_add :: "nova_env \<Rightarrow> u8 list \<Rightarrow> nat \<Rightarrow> slab \<times> inode_info_header \<Rightarrow> slab \<times> inode_info_header" where
  "tree_add E name e st = (case nova_insert_dir_tree E (fst st) (snd st) name e of (s, sih, r) \<Rightarrow> (s, sih))"

definition tree_del :: "nova_env \<Rightarrow> pm \<Rightarrow> u8 list \<Rightarrow> slab \<times> inode_info_header \<Rightarrow> slab \<times> inode_info_header" where
  "tree_del E P name st = (case nova_remove_dir_tree E (fst st) (snd st) name True P of (s, sih, P', r) \<Rightarrow> (s, sih))"

interpretation dir_index: name_index "\<lambda>st. dir_inv E (fst st) (snd st)" index_of BKDRHash "tree_add E" "tree_del E P" for E P
proof
  fix st :: "slab \<times> inode_info_header" and name :: "u8 list" and e :: nat
  assume inv: "dir_inv E (fst st) (snd st)"
  obtain s sih r where a: "nova_insert_dir_tree E (fst st) (snd st) name e = (s, sih, r)" by (metis prod_cases3)
  obtain s' sih' P' r' where d: "nova_remove_dir_tree E (fst st) (snd st) name True P = (s', sih', P', r')" by (metis prod_cases4)
  show "dir_inv E (fst (tree_add E name e st)) (snd (tree_add E name e st))"
    "index_of (tree_add E name e st) =
      (if index_of st (BKDRHash name) = None then (index_of st)(BKDRHash name \<mapsto> e) else index_of st)"
    using insert_dir_tree_ok [OF inv a] a by (simp_all add: tree_add_def)
  show "dir_inv E (fst (tree_del E P name st)) (snd (tree_del E P name st))"
    "index_of (tree_del E P name st) = (index_of st)(BKDRHash name := None)"
    using remove_dir_tree_ok [OF inv d] d by (simp_all add: tree_del_def)
qed


definition dir_sih :: inode_info_header where
  "dir_sih = \<lparr>radix = (\<lambda>_. None), rb_tree = Leaf, i_mode = 0, i_flags = 0, log_pages = 0, i_size = 0,
     i_blocks = 0, ino = 40, pi_addr = 0, alter_pi_addr = 0, valid_entries = 0, num_entries = 0,
     last_setattr = 0, last_link_change = 0, last_dentry = 0, trans_id = 0, log_head = 0, log_tail = 0,
     alter_log_head = 0, alter_log_tail = 0, i_blk_type = 0\<rparr>"

lemma dir_sih_inv: "dir_inv demo_env_total demo_slab dir_sih" "index_of (demo_slab, dir_sih) = Map.empty"
  using demo_env_total_ok
  by (simp_all add: dir_inv_def dir_sih_def demo_slab_def index_of_def dir_map_def demo_env_total_def demo_env_def)




end
