(* ===== verification/Spec2Isabelle.thy ===== *)
theory Spec2Isabelle
  imports Balloc_Props Journal_Props Checksum_Props Data_Props Squint_Wait Instrumentation_Props
    Inode_Table Scan_Bitmap_Props Range_Log_Props Inode_Recover
    Dir_Tree_Props
begin

text \<open>
  NOVA, a file system for persistent memory (\<^verbatim>\<open>src/llvm_evaluation/NOVA/nova\<close>): its block
  allocator and its journal.
\<close>

end
